(* ===== verification/Theme_Prelude.thy ===== *)
theory Theme_Prelude
  imports Main "HOL-Library.Word"
begin

text \<open>
  Shared vocabulary of the development: machine words, the faults a C++ statement can
  run into (a failed assertion, a null dereference, an access outside an object, ...),
  the error monad over them, bounded access to byte buffers, and little-endian coding.
\<close>

unbundle bit_operations_syntax

named_theorems fault_simps \<open>rules that evaluate the fault monad\<close>
named_theorems mem_simps \<open>rules about bounded buffer access\<close>

section \<open>Machine types\<close>

type_synonym byte = "8 word"
type_synonym u16 = "16 word"
type_synonym u32 = "32 word"
type_synonym u64 = "64 word"

text \<open>
  The options a build is configured with (\<open>theme_config.h.in\<close> and \<open>NDEBUG\<close>). Sizes
  (\<open>size_t\<close>) are natural numbers; where the code lets one wrap, \<open>mod size_mod\<close> is
  written out. \<open>size_max\<close> is \<open>(size_t)-1\<close>, the code's error value.
\<close>

record build =
  big_endian :: bool
  ndebug :: bool
  allow_decrypted :: bool

abbreviation size_mod :: nat where "size_mod \<equiv> 2 ^ 64"
abbreviation size_max :: nat where "size_max \<equiv> 2 ^ 64 - 1"

section \<open>Faults\<close>

datatype fault = AssertFailed | NullDeref | OutOfBounds | DivByZero | UseAfterFree

type_synonym 'a res = "fault + 'a"

definition bindE :: "'a res \<Rightarrow> ('a \<Rightarrow> 'b res) \<Rightarrow> 'b res" where
  "bindE m f = (case m of Inl e \<Rightarrow> Inl e | Inr x \<Rightarrow> f x)"

lemma bindE_Inl [simp, fault_simps]: "bindE (Inl e) f = Inl e"
  by (simp add: bindE_def)

lemma bindE_Inr [simp, fault_simps]: "bindE (Inr x) f = f x"
  by (simp add: bindE_def)

lemma bindE_assoc: "bindE (bindE m f) g = bindE m (\<lambda>x. bindE (f x) g)"
  by (cases m) simp_all

lemma bindE_eq_Inr: "bindE m f = Inr y \<longleftrightarrow> (\<exists>x. m = Inr x \<and> f x = Inr y)"
  by (cases m) auto

lemma bindE_eq_Inl: "bindE m f = Inl e \<longleftrightarrow> m = Inl e \<or> (\<exists>x. m = Inr x \<and> f x = Inl e)"
  by (cases m) auto

lemma bindE_cong [fundef_cong]:
  "m = m' \<Longrightarrow> (\<And>x. m' = Inr x \<Longrightarrow> f x = f' x) \<Longrightarrow> bindE m f = bindE m' f'"
  by (cases m') simp_all

lemma bindE_InrE:
  assumes "bindE m f = Inr y"
  obtains x where "m = Inr x" "f x = Inr y"
  using assms by (auto simp: bindE_eq_Inr)

section \<open>Bounded buffers\<close>

text \<open>
  A buffer is the list of its bytes. Touching no byte is always fine; touching one
  outside the buffer is undefined behaviour in C++ and the fault \<open>OutOfBounds\<close> here.
\<close>

definition mem_read :: "byte list \<Rightarrow> nat \<Rightarrow> nat \<Rightarrow> byte list res" where
  "mem_read m off n =
     (if n = 0 then Inr []
      else if off + n \<le> length m then Inr (take n (drop off m)) else Inl OutOfBounds)"

definition patch :: "nat \<Rightarrow> byte list \<Rightarrow> byte list \<Rightarrow> byte list" where
  "patch off bs m = take off m @ bs @ drop (off + length bs) m"

definition mem_write :: "byte list \<Rightarrow> nat \<Rightarrow> byte list \<Rightarrow> byte list res" where
  "mem_write m off bs =
     (if bs = [] then Inr m
      else if off + length bs \<le> length m then Inr (patch off bs m) else Inl OutOfBounds)"

lemma patch_Nil [simp]: "patch off [] m = m"
  by (simp add: patch_def)

lemma length_patch [simp]: "off + length bs \<le> length m \<Longrightarrow> length (patch off bs m) = length m"
  by (simp add: patch_def)

lemma mem_read_in [mem_simps]: "off + n \<le> length m \<Longrightarrow> mem_read m off n = Inr (take n (drop off m))"
  by (simp add: mem_read_def)

lemma mem_write_in [mem_simps]: "off + length bs \<le> length m \<Longrightarrow> mem_write m off bs = Inr (patch off bs m)"
  by (simp add: mem_write_def)

lemma mem_write_out: "length m < off + length bs \<Longrightarrow> bs \<noteq> [] \<Longrightarrow> mem_write m off bs = Inl OutOfBounds"
  by (simp add: mem_write_def)

lemma mem_read_length: "mem_read m off n = Inr bs \<Longrightarrow> length bs = n"
  by (auto simp: mem_read_def split: if_splits)

lemma mem_write_length: "mem_write m off bs = Inr m' \<Longrightarrow> length m' = length m"
  by (auto simp: mem_write_def split: if_splits)

text \<open>What a written range reads back as, and what it leaves alone.\<close>

lemma take_drop_patch_same [simp]:
  "off + length bs \<le> length m \<Longrightarrow> take (length bs) (drop off (patch off bs m)) = bs"
  by (simp add: patch_def)

lemma take_patch_before: "n \<le> off \<Longrightarrow> off \<le> length m \<Longrightarrow> take n (patch off bs m) = take n m"
  by (simp add: patch_def min_def)

lemma take_patch_upto:
  "off + length bs \<le> length m \<Longrightarrow> take (off + length bs) (patch off bs m) = take off m @ bs"
  by (simp add: patch_def)

lemma take_drop_patch_before:
  assumes "p + n \<le> off" "off \<le> length m"
  shows "take n (drop p (patch off bs m)) = take n (drop p m)"
proof -
  have "take n (drop p (patch off bs m)) = drop p (take (p + n) (patch off bs m))"
    by (simp add: drop_take)
  also have "\<dots> = drop p (take (p + n) m)" using assms by (simp add: take_patch_before)
  finally show ?thesis by (simp add: drop_take)
qed

lemma take_drop_patch_after:
  assumes "off + length bs \<le> p" "off \<le> length m"
  shows "take n (drop p (patch off bs m)) = take n (drop p m)"
proof -
  have "drop p (patch off bs m) = drop (p - (off + length bs)) (drop (off + length bs) m)"
    using assms by (simp add: patch_def)
  then show ?thesis using assms by simp
qed

lemma patch_append:
  assumes "off + length as + length bs \<le> length m"
  shows "patch (off + length as) bs (patch off as m) = patch off (as @ bs) m"
proof -
  have "take (off + length as) (patch off as m) = take off m @ as"
    using assms by (intro take_patch_upto) simp
  moreover have "drop (off + length as + length bs) (patch off as m) = drop (off + length as + length bs) m"
    using assms by (simp add: patch_def add.commute)
  ultimately show ?thesis by (simp add: patch_def ac_simps)
qed

section \<open>Little-endian numbers\<close>

fun le_val :: "byte list \<Rightarrow> nat" where
  "le_val [] = 0"
| "le_val (b # bs) = unat b + 256 * le_val bs"

fun le_bytes :: "nat \<Rightarrow> nat \<Rightarrow> byte list" where
  "le_bytes 0 v = []"
| "le_bytes (Suc n) v = word_of_nat v # le_bytes n (v div 256)"

lemma unat_byte_less [simp]: "unat (b :: byte) < 256"
proof -
  have "unat b < 2 ^ LENGTH(8)" by (rule unsigned_less)
  then show ?thesis by simp
qed

lemma length_le_bytes [simp]: "length (le_bytes n v) = n"
  by (induction n arbitrary: v) auto

lemma unat_byte_of_nat [simp]: "unat (word_of_nat v :: byte) = v mod 256"
  by (simp add: unat_of_nat)

lemma le_val_bytes: "le_val (le_bytes n v) = v mod 256 ^ n"
proof (induction n arbitrary: v)
  case 0
  then show ?case by simp
next
  case (Suc n)
  have "v mod (256 * 256 ^ n) = 256 * (v div 256 mod 256 ^ n) + v mod 256"
    by (rule mod_mult2_eq)
  with Suc show ?case by (simp add: algebra_simps)
qed

lemma le_val_bound: "le_val bs < 256 ^ length bs"
proof (induction bs)
  case Nil
  then show ?case by simp
next
  case (Cons b bs)
  have "unat b < 256" by simp
  with Cons show ?case by (simp only: le_val.simps length_Cons power_Suc)
qed

lemma le_bytes_val [simp]: "le_bytes (length bs) (le_val bs) = bs"
proof (induction bs)
  case Nil
  then show ?case by simp
next
  case (Cons b bs)
  have lt: "unat b < 256" by simp
  have z: "(256 :: byte) = 0" by simp
  have "(word_of_nat (unat b + 256 * le_val bs) :: byte) = b + 256 * word_of_nat (le_val bs)" by simp
  then have "(word_of_nat (unat b + 256 * le_val bs) :: byte) = b" by (simp only: z mult_zero_left add_0_right)
  moreover have "(unat b + 256 * le_val bs) div 256 = le_val bs" using lt by simp
  ultimately show ?case using Cons by simp
qed

lemma le_bytes_val_len: "length bs = n \<Longrightarrow> le_bytes n (le_val bs) = bs"
  by (drule sym) simp

lemma le_val_inj: "length as = length bs \<Longrightarrow> le_val as = le_val bs \<Longrightarrow> as = bs"
  by (metis le_bytes_val)

lemma le_bytes_4:
  "le_bytes 4 v = [word_of_nat v, word_of_nat (v div 256), word_of_nat (v div 256 div 256), word_of_nat (v div 256 div 256 div 256)]"
proof -
  have "(4 :: nat) = Suc (Suc (Suc (Suc 0)))" by simp
  then show ?thesis by (simp only: le_bytes.simps)
qed

section \<open>C strings\<close>

text \<open>The characters of \<open>c_str()\<close> up to the terminator.\<close>

definition c_str :: "string \<Rightarrow> string" where
  "c_str s = takeWhile (\<lambda>c. c \<noteq> CHR 0x00) s"

end
