(* ===== verification/Theme_Endian.thy ===== *)
theory Theme_Endian
  imports Theme_Prelude
begin

text \<open>
  \<open>src/src/core/endian.h\<close>: the byte swaps and the \<open>THEME_LE*\<close>/\<open>THEME_BE*\<close> macros, whose
  expansion depends on the build's \<open>THEME_BIG_ENDIAN\<close>. \<open>native_load\<close> and \<open>native_store\<close> are
  what dereferencing an integer pointer does on the host; the interface \<open>wire_int\<close> is the
  contract every multi-byte field of a message relies on: loading and storing through the
  macros gives the same little-endian bytes on every host.
\<close>

section \<open>Byte swaps and the macros\<close>

text \<open>\<open>__builtin_bswap16/32/64\<close>: the bytes in the opposite order.\<close>

definition bswap :: "nat \<Rightarrow> nat \<Rightarrow> nat" where
  "bswap n v = le_val (rev (le_bytes n v))"

definition swap_endian16 :: "u16 \<Rightarrow> u16" where
  "swap_endian16 value = word_of_nat (bswap 2 (unat value))"

definition swap_endian32 :: "u32 \<Rightarrow> u32" where
  "swap_endian32 value = word_of_nat (bswap 4 (unat value))"

definition swap_endian64 :: "u64 \<Rightarrow> u64" where
  "swap_endian64 value = word_of_nat (bswap 8 (unat value))"

definition THEME_LE16 :: "build \<Rightarrow> u16 \<Rightarrow> u16" where
  "THEME_LE16 B x = (if big_endian B then swap_endian16 x else x)"

definition THEME_LE32 :: "build \<Rightarrow> u32 \<Rightarrow> u32" where
  "THEME_LE32 B x = (if big_endian B then swap_endian32 x else x)"

definition THEME_LE64 :: "build \<Rightarrow> u64 \<Rightarrow> u64" where
  "THEME_LE64 B x = (if big_endian B then swap_endian64 x else x)"

definition THEME_BE16 :: "build \<Rightarrow> u16 \<Rightarrow> u16" where
  "THEME_BE16 B x = (if big_endian B then x else swap_endian16 x)"

definition THEME_BE32 :: "build \<Rightarrow> u32 \<Rightarrow> u32" where
  "THEME_BE32 B x = (if big_endian B then x else swap_endian32 x)"

definition THEME_BE64 :: "build \<Rightarrow> u64 \<Rightarrow> u64" where
  "THEME_BE64 B x = (if big_endian B then x else swap_endian64 x)"

text \<open>The host's own representation of an integer in memory.\<close>

definition native_load :: "build \<Rightarrow> byte list \<Rightarrow> nat" where
  "native_load B bs = (if big_endian B then le_val (rev bs) else le_val bs)"

definition native_store :: "build \<Rightarrow> nat \<Rightarrow> nat \<Rightarrow> byte list" where
  "native_store B n v = (if big_endian B then rev (le_bytes n v) else le_bytes n v)"

section \<open>Laws of the swaps\<close>

lemma bswap_bound: "bswap n v < 256 ^ n"
  using le_val_bound [of "rev (le_bytes n v)"] by (simp add: bswap_def)

lemma le_bytes_bswap: "le_bytes n (bswap n v) = rev (le_bytes n v)"
  by (simp add: bswap_def le_bytes_val_len)

lemma bswap_bswap: "v < 256 ^ n \<Longrightarrow> bswap n (bswap n v) = v"
  by (simp add: bswap_def le_bytes_val_len le_val_bytes)

lemma unat_swap16: "unat (swap_endian16 v) = bswap 2 (unat v)"
  using bswap_bound [of 2 "unat v"] by (simp add: swap_endian16_def unat_of_nat)

lemma unat_swap32: "unat (swap_endian32 v) = bswap 4 (unat v)"
  using bswap_bound [of 4 "unat v"] by (simp add: swap_endian32_def unat_of_nat)

lemma unat_swap64: "unat (swap_endian64 v) = bswap 8 (unat v)"
  using bswap_bound [of 8 "unat v"] by (simp add: swap_endian64_def unat_of_nat)

lemma unat_u16_less: "unat (v :: u16) < 256 ^ 2"
proof -
  have "unat v < 2 ^ LENGTH(16)" by (rule unsigned_less)
  then show ?thesis by simp
qed

lemma unat_u32_less: "unat (v :: u32) < 256 ^ 4"
proof -
  have "unat v < 2 ^ LENGTH(32)" by (rule unsigned_less)
  then show ?thesis by simp
qed

lemma unat_u64_less: "unat (v :: u64) < 256 ^ 8"
proof -
  have "unat v < 2 ^ LENGTH(64)" by (rule unsigned_less)
  then show ?thesis by simp
qed

lemma swap_endian16_involutive: "swap_endian16 (swap_endian16 v) = v"
  by (rule word_unat_eq_iff [THEN iffD2]) (simp only: unat_swap16 bswap_bswap unat_u16_less)

lemma swap_endian32_involutive: "swap_endian32 (swap_endian32 v) = v"
  by (rule word_unat_eq_iff [THEN iffD2]) (simp only: unat_swap32 bswap_bswap unat_u32_less)

lemma swap_endian64_involutive: "swap_endian64 (swap_endian64 v) = v"
  by (rule word_unat_eq_iff [THEN iffD2]) (simp only: unat_swap64 bswap_bswap unat_u64_less)

lemma length_native_store [simp]: "length (native_store B n v) = n"
  by (simp add: native_store_def)

lemma native_load_store: "v < 256 ^ n \<Longrightarrow> native_load B (native_store B n v) = v"
  by (simp add: native_load_def native_store_def le_val_bytes)

lemma native_store_load: "length bs = n \<Longrightarrow> native_store B n (native_load B bs) = bs"
  using le_bytes_val_len [of "rev bs" n] le_bytes_val_len [of bs n]
  by (simp add: native_load_def native_store_def)

lemma native_load_bound: "native_load B bs < 256 ^ length bs"
  using le_val_bound [of bs] le_val_bound [of "rev bs"] by (simp add: native_load_def)

section \<open>Integers of a message: load and store through the macros\<close>

definition load16 :: "build \<Rightarrow> byte list \<Rightarrow> u16" where
  "load16 B bs = THEME_LE16 B (word_of_nat (native_load B bs))"

definition store16 :: "build \<Rightarrow> u16 \<Rightarrow> byte list" where
  "store16 B v = native_store B 2 (unat (THEME_LE16 B v))"

definition load32 :: "build \<Rightarrow> byte list \<Rightarrow> u32" where
  "load32 B bs = THEME_LE32 B (word_of_nat (native_load B bs))"

definition store32 :: "build \<Rightarrow> u32 \<Rightarrow> byte list" where
  "store32 B v = native_store B 4 (unat (THEME_LE32 B v))"

definition load64 :: "build \<Rightarrow> byte list \<Rightarrow> u64" where
  "load64 B bs = THEME_LE64 B (word_of_nat (native_load B bs))"

definition store64 :: "build \<Rightarrow> u64 \<Rightarrow> byte list" where
  "store64 B v = native_store B 8 (unat (THEME_LE64 B v))"

lemma unat_load_aux:
  assumes "length bs = n"
  shows "bswap n (le_val (rev bs)) = le_val bs"
  using le_bytes_val_len [of "rev bs" n] assms by (simp add: bswap_def)

lemma unat_load16: "length bs = 2 \<Longrightarrow> unat (load16 B bs) = le_val bs"
  using le_val_bound [of bs] le_val_bound [of "rev bs"] unat_load_aux [of bs 2]
  by (auto simp: load16_def THEME_LE16_def unat_swap16 native_load_def unat_of_nat)

lemma unat_load32: "length bs = 4 \<Longrightarrow> unat (load32 B bs) = le_val bs"
  using le_val_bound [of bs] le_val_bound [of "rev bs"] unat_load_aux [of bs 4]
  by (auto simp: load32_def THEME_LE32_def unat_swap32 native_load_def unat_of_nat)

lemma unat_load64: "length bs = 8 \<Longrightarrow> unat (load64 B bs) = le_val bs"
  using le_val_bound [of bs] le_val_bound [of "rev bs"] unat_load_aux [of bs 8]
  by (auto simp: load64_def THEME_LE64_def unat_swap64 native_load_def unat_of_nat)

lemma store16_le: "store16 B v = le_bytes 2 (unat v)"
  by (simp add: store16_def THEME_LE16_def native_store_def unat_swap16 le_bytes_bswap)

lemma store32_le: "store32 B v = le_bytes 4 (unat v)"
  by (simp add: store32_def THEME_LE32_def native_store_def unat_swap32 le_bytes_bswap)

lemma store64_le: "store64 B v = le_bytes 8 (unat v)"
  by (simp add: store64_def THEME_LE64_def native_store_def unat_swap64 le_bytes_bswap)

lemmas wire_loads = unat_load16 unat_load32 unat_load64
lemmas wire_stores = store16_le store32_le store64_le

section \<open>The contract of a wire integer\<close>

locale wire_int =
  fixes width :: nat
    and load :: "build \<Rightarrow> byte list \<Rightarrow> 'w::len word"
    and store :: "build \<Rightarrow> 'w word \<Rightarrow> byte list"
  assumes load_le: "length bs = width \<Longrightarrow> unat (load B bs) = le_val bs"
    and store_le: "store B v = le_bytes width (unat v)"
    and fits: "unat (v :: 'w word) < 256 ^ width"
begin

lemma length_store [simp]: "length (store B v) = width"
  by (simp add: store_le)

lemma load_store: "load B (store B' v) = v"
proof (rule word_unat_eq_iff [THEN iffD2])
  show "unat (load B (store B' v)) = unat v"
    using fits [of v] by (simp add: load_le store_le le_val_bytes)
qed

lemma store_load: "length bs = width \<Longrightarrow> store B (load B' bs) = bs"
  by (simp add: store_le load_le le_bytes_val_len)

lemma host_independent: "length bs = width \<Longrightarrow> load B bs = load B' bs"
  by (rule word_unat_eq_iff [THEN iffD2]) (simp add: load_le)

lemma get_set_same:
  "off + width \<le> length m \<Longrightarrow> load B (take width (drop off (patch off (store B' v) m))) = v"
  using take_drop_patch_same [of off "store B' v" m] by (simp add: load_store)

lemma get_set_other:
  assumes "p + n \<le> off \<or> off + width \<le> p" "off + width \<le> length m"
  shows "take n (drop p (patch off (store B v) m)) = take n (drop p m)"
  using assms by (auto simp: take_drop_patch_before take_drop_patch_after)

end

interpretation wire16: wire_int 2 load16 store16
  by unfold_locales (simp_all only: unat_load16 store16_le unat_u16_less)

interpretation wire32: wire_int 4 load32 store32
  by unfold_locales (simp_all only: unat_load32 store32_le unat_u32_less)

interpretation wire64: wire_int 8 load64 store64
  by unfold_locales (simp_all only: unat_load64 store64_le unat_u64_less)

text \<open>What one host stores another one loads, big-endian or not.\<close>

lemma integers_cross_hosts:
  "load16 B' (store16 B v) = v \<and> load32 B' (store32 B w) = w \<and> load64 B' (store64 B x) = x"
  by (simp add: wire16.load_store wire32.load_store wire64.load_store)

end
