(* ===== verification/Theme_Uuid.thy ===== *)
theory Theme_Uuid
  imports Theme_Endian "HOL-Library.List_Lexorder"
begin

text \<open>
  \<open>src/src/core/uuid.h\<close> and \<open>uuid.cpp\<close>: the 16-byte UUID in network order and its conversion
  to and from the mixed-endian layout of Win32 GUIDs. The functions of libuuid are a
  parameter (\<open>libuuid\<close>); \<open>doc_compare\<close>, \<open>doc_is_null\<close> and \<open>doc_text\<close> state what its manual
  pages promise. UUIDs are put in the library's linear order, against which the class's
  comparison operators are checked.
\<close>

section \<open>The class\<close>

datatype uuid = Uuid (m_data: "byte list")

definition wf_uuid :: "uuid \<Rightarrow> bool" where
  "wf_uuid u \<longleftrightarrow> length (m_data u) = 16"

record libuuid =
  uuid_compare :: "byte list \<Rightarrow> byte list \<Rightarrow> int"
  uuid_is_null :: "byte list \<Rightarrow> int"
  uuid_unparse :: "byte list \<Rightarrow> string"
  uuid_parse :: "string \<Rightarrow> byte list \<Rightarrow> int \<times> byte list"

text \<open>The constructors: \<open>m_data{}\<close> is zeroed; the private one copies 16 bytes.\<close>

definition uuid_of_buf :: "byte list \<Rightarrow> uuid" where
  "uuid_of_buf buf = Uuid (take 16 buf)"

definition uuid_null :: uuid where
  "uuid_null = Uuid (replicate 16 0)"

definition uuid_clear :: "uuid \<Rightarrow> uuid" where
  "uuid_clear u = Uuid (replicate (length (m_data u)) 0)"

definition uuid_from_bytes :: "byte list \<Rightarrow> uuid" where
  "uuid_from_bytes buf = uuid_of_buf buf"

text \<open>
  \<open>union uuid_le\<close>: the first three members are integers of the host, read and written in
  its own byte order; \<open>m_data4\<close> is the last eight bytes.
\<close>

definition uuid_le_swap :: "build \<Rightarrow> byte list \<Rightarrow> byte list" where
  "uuid_le_swap B src =
     (let data1 = word_of_nat (native_load B (take 4 src)) :: u32;
          data2 = word_of_nat (native_load B (take 2 (drop 4 src))) :: u16;
          data3 = word_of_nat (native_load B (take 2 (drop 6 src))) :: u16
      in native_store B 4 (unat (swap_endian32 data1)) @
         native_store B 2 (unat (swap_endian16 data2)) @
         native_store B 2 (unat (swap_endian16 data3)) @ take 8 (drop 8 src))"

definition to_le_bytes :: "build \<Rightarrow> uuid \<Rightarrow> byte list" where
  "to_le_bytes B u = uuid_le_swap B (m_data u)"

definition from_le_bytes :: "build \<Rightarrow> byte list \<Rightarrow> uuid" where
  "from_le_bytes B buf = (let result = uuid_of_buf buf in Uuid (uuid_le_swap B (m_data result)))"

text \<open>The checked variants take arrays of the right size, which the compiler asserts.\<close>

definition to_le :: "build \<Rightarrow> uuid \<Rightarrow> byte list" where
  "to_le B u = to_le_bytes B u"

definition from_le :: "build \<Rightarrow> byte list \<Rightarrow> uuid" where
  "from_le B buf = from_le_bytes B buf"

definition uuid_assign :: "uuid \<Rightarrow> uuid \<Rightarrow> uuid" where
  "uuid_assign u rhs = Uuid (take 16 (m_data rhs))"

text \<open>\<open>generate\<close>: \<open>data\<close> is what \<open>uuid_generate\<close> stored.\<close>

definition uuid_generate :: "byte list \<Rightarrow> uuid" where
  "uuid_generate data = uuid_of_buf data"

definition as_string :: "libuuid \<Rightarrow> uuid \<Rightarrow> string" where
  "as_string L u = take 36 (uuid_unparse L (m_data u))"

definition from_string :: "libuuid \<Rightarrow> string \<Rightarrow> uuid \<Rightarrow> bool \<times> uuid" where
  "from_string L str u = (let (rc, data) = uuid_parse L str (m_data u) in (rc = 0, Uuid data))"

text \<open>The overload for \<open>ST::string\<close> passes the characters up to the first zero.\<close>

definition from_st_string :: "libuuid \<Rightarrow> string \<Rightarrow> uuid \<Rightarrow> bool \<times> uuid" where
  "from_st_string L str u = from_string L (c_str str) u"

definition uuid_empty :: "libuuid \<Rightarrow> uuid \<Rightarrow> bool" where
  "uuid_empty L u \<longleftrightarrow> uuid_is_null L (m_data u) = 1"

definition uuid_equals :: "libuuid \<Rightarrow> uuid \<Rightarrow> uuid \<Rightarrow> bool" where
  "uuid_equals L u rhs \<longleftrightarrow> uuid_compare L (m_data u) (m_data rhs) = 0"

definition uuid_less :: "libuuid \<Rightarrow> uuid \<Rightarrow> uuid \<Rightarrow> bool" where
  "uuid_less L u rhs \<longleftrightarrow> uuid_compare L (m_data u) (m_data rhs) = -1"

section \<open>The library's order on UUIDs\<close>

instantiation uuid :: linorder
begin

definition less_eq_uuid :: "uuid \<Rightarrow> uuid \<Rightarrow> bool" where
  "less_eq_uuid a b \<longleftrightarrow> m_data a \<le> m_data b"

definition less_uuid :: "uuid \<Rightarrow> uuid \<Rightarrow> bool" where
  "less_uuid a b \<longleftrightarrow> m_data a < m_data b"

instance
  by standard (auto simp: less_eq_uuid_def less_uuid_def uuid.expand)

end

lemma uuid_eq: "u = v \<longleftrightarrow> m_data u = m_data v"
  by (cases u; cases v) simp

text \<open>What libuuid's manual pages promise.\<close>

definition doc_compare :: "libuuid \<Rightarrow> bool" where
  "doc_compare L \<longleftrightarrow> (\<forall>a b. length a = 16 \<longrightarrow> length b = 16 \<longrightarrow>
     (uuid_compare L a b < 0 \<longleftrightarrow> a < b) \<and> (uuid_compare L a b = 0 \<longleftrightarrow> a = b))"

definition doc_is_null :: "libuuid \<Rightarrow> bool" where
  "doc_is_null L \<longleftrightarrow> (\<forall>a. length a = 16 \<longrightarrow> uuid_is_null L a = (if a = replicate 16 0 then 1 else 0))"

definition doc_text :: "libuuid \<Rightarrow> bool" where
  "doc_text L \<longleftrightarrow> (\<forall>a. length a = 16 \<longrightarrow> length (uuid_unparse L a) = 36 \<and>
     (\<forall>d. uuid_parse L (uuid_unparse L a) d = (0, a)))"

text \<open>An instance with these properties, for the witnesses.\<close>

definition ascii_uuid_text :: "byte list \<Rightarrow> string" where
  "ascii_uuid_text a = map (char_of \<circ> unat) a @ replicate 20 CHR ''-''"

definition example_libuuid :: libuuid where
  "example_libuuid =
    \<lparr>uuid_compare = (\<lambda>a b. if a < b then -1 else if a = b then 0 else 1),
     uuid_is_null = (\<lambda>a. if a = replicate 16 0 then 1 else 0),
     uuid_unparse = ascii_uuid_text,
     uuid_parse = (\<lambda>s d. (0, map (word_of_nat \<circ> of_char) (take 16 s)))\<rparr>"

section \<open>The conversion\<close>

lemma native_swap32:
  "length bs = 4 \<Longrightarrow> native_store B 4 (unat (swap_endian32 (word_of_nat (native_load B bs)))) = rev bs"
  using native_load_bound [of B bs] le_bytes_val_len [of bs 4] le_bytes_val_len [of "rev bs" 4]
  by (auto simp: unat_swap32 unat_of_nat native_store_def native_load_def le_bytes_bswap)

lemma native_swap16:
  "length bs = 2 \<Longrightarrow> native_store B 2 (unat (swap_endian16 (word_of_nat (native_load B bs)))) = rev bs"
  using native_load_bound [of B bs] le_bytes_val_len [of bs 2] le_bytes_val_len [of "rev bs" 2]
  by (auto simp: unat_swap16 unat_of_nat native_store_def native_load_def le_bytes_bswap)

lemma uuid_le_swap_bytes:
  "length src = 16 \<Longrightarrow> uuid_le_swap B src =
     rev (take 4 src) @ rev (take 2 (drop 4 src)) @ rev (take 2 (drop 6 src)) @ drop 8 src"
  by (simp add: uuid_le_swap_def Let_def native_swap32 native_swap16)

lemma length_uuid_le_swap: "length src = 16 \<Longrightarrow> length (uuid_le_swap B src) = 16"
  by (simp add: uuid_le_swap_bytes)

lemma uuid_le_swap_twice: 
  assumes "length src = 16" shows "uuid_le_swap B (uuid_le_swap B' src) = src"
proof -
  have "take 2 (drop 6 src) @ drop 8 src = drop 6 src"
    using append_take_drop_id [of 2 "drop 6 src"] by simp
  moreover have "take 2 (drop 4 src) @ drop 6 src = drop 4 src"
    using append_take_drop_id [of 2 "drop 4 src"] by simp
  ultimately have "take 4 src @ take 2 (drop 4 src) @ take 2 (drop 6 src) @ drop 8 src = src"
    by simp
  then show ?thesis using assms by (simp add: uuid_le_swap_bytes)
qed

lemma uuid_crosses_hosts:
  assumes "wf_uuid u"
  shows "from_le_bytes B' (to_le_bytes B u) = u \<and> length (to_le_bytes B u) = 16"
  using assms by (simp add: wf_uuid_def from_le_bytes_def to_le_bytes_def uuid_of_buf_def uuid_le_swap_twice length_uuid_le_swap)

end
