(* ===== verification/Theme_Net_Struct.thy ===== *)
theory Theme_Net_Struct
  imports Theme_Prelude
begin

text \<open>
  \<open>src/src/protocol/net_struct.h\<close> and \<open>net_struct.cpp\<close>: the run-time description of a
  message, a list of typed fields, and the sizes computed from it.
\<close>

datatype data_type =
    e_integer
  | e_uuid
  | e_blob
  | e_buffer_size
  | e_string_utf16
  | e_buffer
  | e_buffer_redundant

record net_field =
  nf_type :: data_type
  nf_name :: string
  nf_elementsz :: nat
  nf_count :: nat

record net_struct =
  ns_name :: string
  ns_fields :: "net_field list"

text \<open>\<open>m_size\<close> is the length of the field array (\<open>std::size\<close> in the macros).\<close>

abbreviation ns_size :: "net_struct \<Rightarrow> nat" where
  "ns_size ns \<equiv> length (ns_fields ns)"

abbreviation field_sz :: "net_field \<Rightarrow> nat" where
  "field_sz f \<equiv> nf_elementsz f * nf_count f"

text \<open>
  \<open>net_struct_calcsz(msg, idx)\<close> adds the sizes of the fields before \<open>idx\<close>; the default
  \<open>idx = -1\<close> is past the end of every struct. The loop is written as the code has it.
\<close>

function calcsz_loop :: "net_struct \<Rightarrow> nat \<Rightarrow> nat \<Rightarrow> nat \<Rightarrow> nat" where
  "calcsz_loop msg idx i acc =
     (if i < ns_size msg \<and> i < idx
      then calcsz_loop msg idx (Suc i) (acc + field_sz (ns_fields msg ! i)) else acc)"
  by pat_completeness auto
termination
  by (relation "measure (\<lambda>(msg, idx, i, acc). ns_size msg - i)") auto

declare calcsz_loop.simps [simp del]

definition net_struct_calcsz :: "net_struct \<Rightarrow> nat \<Rightarrow> nat" where
  "net_struct_calcsz msg idx = calcsz_loop msg idx 0 0"

text \<open>The offset of field \<open>i\<close> as a sum over the field list: the reference for the loop.\<close>

definition field_off :: "net_struct \<Rightarrow> nat \<Rightarrow> nat" where
  "field_off ns i = sum_list (map field_sz (take i (ns_fields ns)))"

lemma field_off_0 [simp]: "field_off ns 0 = 0"
  by (simp add: field_off_def)

lemma field_off_Suc:
  "i < ns_size ns \<Longrightarrow> field_off ns (Suc i) = field_off ns i + field_sz (ns_fields ns ! i)"
  by (simp add: field_off_def take_Suc_conv_app_nth)

lemma field_off_beyond: "ns_size ns \<le> i \<Longrightarrow> field_off ns i = sum_list (map field_sz (ns_fields ns))"
  by (simp add: field_off_def)

lemma field_off_step: "field_off ns i \<le> field_off ns (Suc i)"
  by (cases "i < ns_size ns") (simp_all add: field_off_Suc field_off_beyond)

lemma field_off_mono: "i \<le> j \<Longrightarrow> field_off ns i \<le> field_off ns j"
  by (induction rule: dec_induct) (auto intro: le_trans field_off_step)

lemma calcsz_loop_eq:
  "i \<le> idx \<Longrightarrow> i \<le> ns_size msg \<Longrightarrow> calcsz_loop msg idx i acc = acc + (field_off msg idx - field_off msg i)"
proof (induction msg idx i acc rule: calcsz_loop.induct)
  case (1 msg idx i acc)
  show ?case
  proof (cases "i < ns_size msg \<and> i < idx")
    case True
    then have le: "field_off msg (Suc i) \<le> field_off msg idx" by (intro field_off_mono) simp
    from True have "calcsz_loop msg idx (Suc i) (acc + field_sz (ns_fields msg ! i)) =
        acc + field_sz (ns_fields msg ! i) + (field_off msg idx - field_off msg (Suc i))"
      using 1(1) by simp
    with True le show ?thesis
      by (subst calcsz_loop.simps) (simp add: field_off_Suc)
  next
    case False
    then have "i = ns_size msg \<or> i = idx" using 1(2,3) by auto
    then have "field_off msg idx \<le> field_off msg i"
      using 1(2) by (auto simp: field_off_beyond)
    with False show ?thesis
      by (subst calcsz_loop.simps) auto
  qed
qed

lemma net_struct_calcsz_eq: "net_struct_calcsz msg idx = field_off msg idx"
  by (simp add: net_struct_calcsz_def calcsz_loop_eq)

definition get_data_type_str :: "data_type \<Rightarrow> string" where
  "get_data_type_str type =
     (case type of
        e_blob \<Rightarrow> ''BLOB''
      | e_buffer \<Rightarrow> ''BUFFER''
      | e_buffer_redundant \<Rightarrow> ''BUFFER''
      | e_integer \<Rightarrow> ''INTEGER''
      | e_buffer_size \<Rightarrow> ''INTEGER''
      | e_string_utf16 \<Rightarrow> ''STRING''
      | e_uuid \<Rightarrow> ''UUID'')"

text \<open>\<open>net_struct_print\<close> as the lines it writes; \<open>show_size\<close> renders a \<open>size_t\<close>.\<close>

definition net_struct_print :: "(nat \<Rightarrow> string) \<Rightarrow> net_struct \<Rightarrow> string list" where
  "net_struct_print show_size msg =
     [''--- BEGIN NETSTRUCT ---'',
      ''    Name: '' @ [CHR 0x27] @ ns_name msg @ [CHR 0x27],
      ''    Field(s): '' @ show_size (ns_size msg)] @
     map (\<lambda>f. ''    -> '' @ nf_name f @ '' [TYPE: '' @ [CHR 0x27] @ get_data_type_str (nf_type f) @
              [CHR 0x27] @ ''] '') (ns_fields msg) @
     [''--- END   NETSTRUCT ---'']"

section \<open>Shapes of messages\<close>

text \<open>
  A field is \<open>fixed\<close> when its size on the wire does not depend on its contents.
\<close>

definition fixed_type :: "data_type \<Rightarrow> bool" where
  "fixed_type t \<longleftrightarrow> t \<notin> {e_string_utf16, e_buffer, e_buffer_redundant}"

definition fixed_field :: "net_field \<Rightarrow> bool" where
  "fixed_field f \<longleftrightarrow> fixed_type (nf_type f)"

definition fixed_struct :: "net_struct \<Rightarrow> bool" where
  "fixed_struct ns \<longleftrightarrow> ns_fields ns \<noteq> [] \<and> list_all (\<lambda>f. fixed_field f \<and> 0 < field_sz f) (ns_fields ns)"

lemma fixed_structD:
  "fixed_struct ns \<Longrightarrow> i < ns_size ns \<Longrightarrow> fixed_field (ns_fields ns ! i) \<and> 0 < field_sz (ns_fields ns ! i)"
  by (simp add: fixed_struct_def list_all_length)

end
