(* ===== verification/Theme_Protocol.thy ===== *)
theory Theme_Protocol
  imports Theme_Uuid Theme_Net_Struct
begin

text \<open>
  \<open>src/src/protocol\<close>: the macros that build the field tables
  (\<open>protocol_fields_begin.inl\<close>) and the packed structs with their accessors
  (\<open>protocol_structs_begin.inl\<close>), and the messages they are instantiated for
  (\<open>common.inl\<close>, \<open>gatekeeper.inl\<close>). A packed struct is its bytes; an accessor takes the
  offset of its member, which is the sum of the sizes of the members before it.
\<close>

section \<open>The field macros\<close>

definition NET_FIELD_BLOB :: "string \<Rightarrow> nat \<Rightarrow> net_field list" where
  "NET_FIELD_BLOB name sz = [\<lparr>nf_type = e_blob, nf_name = name, nf_elementsz = 1, nf_count = sz\<rparr>]"

definition NET_FIELD_BUFFER :: "string \<Rightarrow> net_field list" where
  "NET_FIELD_BUFFER name =
     [\<lparr>nf_type = e_buffer_size, nf_name = name @ ''sz'', nf_elementsz = 4, nf_count = 1\<rparr>,
      \<lparr>nf_type = e_buffer, nf_name = name, nf_elementsz = 1, nf_count = 0\<rparr>]"

definition NET_FIELD_BUFFER_REDUNDANT :: "string \<Rightarrow> net_field list" where
  "NET_FIELD_BUFFER_REDUNDANT name =
     [\<lparr>nf_type = e_buffer_size, nf_name = name @ ''sz'', nf_elementsz = 4, nf_count = 1\<rparr>,
      \<lparr>nf_type = e_buffer_redundant, nf_name = name, nf_elementsz = 1, nf_count = 0\<rparr>]"

definition NET_FIELD_UINT8 :: "string \<Rightarrow> net_field list" where
  "NET_FIELD_UINT8 name = [\<lparr>nf_type = e_integer, nf_name = name, nf_elementsz = 1, nf_count = 1\<rparr>]"

definition NET_FIELD_UINT16 :: "string \<Rightarrow> net_field list" where
  "NET_FIELD_UINT16 name = [\<lparr>nf_type = e_integer, nf_name = name, nf_elementsz = 2, nf_count = 1\<rparr>]"

definition NET_FIELD_UINT32 :: "string \<Rightarrow> net_field list" where
  "NET_FIELD_UINT32 name = [\<lparr>nf_type = e_integer, nf_name = name, nf_elementsz = 4, nf_count = 1\<rparr>]"

definition NET_FIELD_STRING_UTF16 :: "string \<Rightarrow> nat \<Rightarrow> net_field list" where
  "NET_FIELD_STRING_UTF16 name sz =
     [\<lparr>nf_type = e_buffer_size, nf_name = name @ ''sz'', nf_elementsz = 2, nf_count = 1\<rparr>,
      \<lparr>nf_type = e_string_utf16, nf_name = name, nf_elementsz = 2, nf_count = sz\<rparr>]"

definition NET_FIELD_UUID :: "string \<Rightarrow> net_field list" where
  "NET_FIELD_UUID name = [\<lparr>nf_type = e_uuid, nf_name = name, nf_elementsz = 16, nf_count = 1\<rparr>]"

lemmas NET_FIELD_defs = NET_FIELD_BLOB_def NET_FIELD_BUFFER_def NET_FIELD_BUFFER_REDUNDANT_def
  NET_FIELD_UINT8_def NET_FIELD_UINT16_def NET_FIELD_UINT32_def NET_FIELD_STRING_UTF16_def
  NET_FIELD_UUID_def

text \<open>\<open>THEME_NET_STRUCT_BEGIN\<close> and \<open>THEME_NET_STRUCT_END\<close> around the fields: name and size of the struct.\<close>

definition NET_STRUCT :: "string \<Rightarrow> string \<Rightarrow> net_field list \<Rightarrow> net_struct" where
  "NET_STRUCT protocol_name msg_name fs =
     \<lparr>ns_name = protocol_name @ ''_'' @ msg_name, ns_fields = fs\<rparr>"

section \<open>The messages\<close>

definition common_connection_header :: net_struct where
  "common_connection_header =
    NET_STRUCT ''common'' ''connection_header''
      (NET_FIELD_UINT8 ''connType'' @ NET_FIELD_UINT16 ''msgsz'' @ NET_FIELD_UINT32 ''buildId'' @
       NET_FIELD_UINT32 ''buildType'' @ NET_FIELD_UINT32 ''branchId'' @ NET_FIELD_UUID ''product'' @ NET_FIELD_BUFFER_REDUNDANT ''buf'')"

definition common_msg_std_header :: net_struct where
  "common_msg_std_header =
    NET_STRUCT ''common'' ''msg_std_header''
      (NET_FIELD_UINT16 ''type'')"

definition common_msg_size_header :: net_struct where
  "common_msg_size_header =
    NET_STRUCT ''common'' ''msg_size_header''
      (NET_FIELD_UINT16 ''type'' @ NET_FIELD_UINT16 ''size'')"

definition common_encrypt_header :: net_struct where
  "common_encrypt_header =
    NET_STRUCT ''common'' ''encrypt_header''
      (NET_FIELD_UINT8 ''msgId'' @ NET_FIELD_UINT8 ''bufsz'')"

definition common_encrypt_s2c :: net_struct where
  "common_encrypt_s2c =
    NET_STRUCT ''common'' ''encrypt_s2c''
      (NET_FIELD_UINT8 ''msgId'' @ NET_FIELD_UINT8 ''bufsz'' @ NET_FIELD_BLOB ''srvSeed'' 7)"

definition gatekeeper_pingRequest :: net_struct where
  "gatekeeper_pingRequest =
    NET_STRUCT ''gatekeeper'' ''pingRequest''
      (NET_FIELD_UINT16 ''type'' @ NET_FIELD_UINT32 ''pingTime'' @ NET_FIELD_UINT32 ''transId'' @ NET_FIELD_BUFFER ''payload'')"

definition gatekeeper_fileSrvRequest :: net_struct where
  "gatekeeper_fileSrvRequest =
    NET_STRUCT ''gatekeeper'' ''fileSrvRequest''
      (NET_FIELD_UINT16 ''type'' @ NET_FIELD_UINT32 ''transId'' @ NET_FIELD_UINT8 ''isPatcher'')"

definition gatekeeper_authSrvRequest :: net_struct where
  "gatekeeper_authSrvRequest =
    NET_STRUCT ''gatekeeper'' ''authSrvRequest''
      (NET_FIELD_UINT16 ''type'' @ NET_FIELD_UINT32 ''transId'')"

definition gatekeeper_pingReply :: net_struct where
  "gatekeeper_pingReply =
    NET_STRUCT ''gatekeeper'' ''pingReply''
      (NET_FIELD_UINT16 ''type'' @ NET_FIELD_UINT32 ''pingTime'' @ NET_FIELD_UINT32 ''transId'' @ NET_FIELD_BUFFER ''payload'')"

definition gatekeeper_fileSrvReply :: net_struct where
  "gatekeeper_fileSrvReply =
    NET_STRUCT ''gatekeeper'' ''fileSrvReply''
      (NET_FIELD_UINT16 ''type'' @ NET_FIELD_UINT32 ''transId'' @ NET_FIELD_STRING_UTF16 ''address'' 24)"

definition gatekeeper_authSrvReply :: net_struct where
  "gatekeeper_authSrvReply =
    NET_STRUCT ''gatekeeper'' ''authSrvReply''
      (NET_FIELD_UINT16 ''type'' @ NET_FIELD_UINT32 ''transId'' @ NET_FIELD_STRING_UTF16 ''address'' 24)"

lemmas message_defs = NET_STRUCT_def common_connection_header_def common_msg_std_header_def
  common_msg_size_header_def common_encrypt_header_def common_encrypt_s2c_def
  gatekeeper_pingRequest_def gatekeeper_fileSrvRequest_def gatekeeper_authSrvRequest_def
  gatekeeper_pingReply_def gatekeeper_fileSrvReply_def gatekeeper_authSrvReply_def

text \<open>The enums of \<open>common.h\<close>, \<open>gatekeeper.h\<close> and of \<open>encrypted_handler\<close> (\<open>client.h\<close>).\<close>

definition e_protocolCli2Auth :: byte where "e_protocolCli2Auth = 0x0A"
definition e_protocolCli2Game :: byte where "e_protocolCli2Game = 0x0B"
definition e_protocolCli2File :: byte where "e_protocolCli2File = 0x10"
definition e_protocolCli2Gate :: byte where "e_protocolCli2Gate = 0x16"

definition e_pingRequest :: u16 where "e_pingRequest = 0"
definition e_fileSrvRequest :: u16 where "e_fileSrvRequest = 1"
definition e_authSrvRequest :: u16 where "e_authSrvRequest = 2"

definition e_pingReply :: u16 where "e_pingReply = 0"
definition e_fileSrvReply :: u16 where "e_fileSrvReply = 1"
definition e_authSrvReply :: u16 where "e_authSrvReply = 2"

definition e_c2s_connect :: byte where "e_c2s_connect = 0"
definition e_s2c_encrypt :: byte where "e_s2c_encrypt = 1"
definition e_s2c_error :: byte where "e_s2c_error = 2"

lemmas enum_defs = e_protocolCli2Auth_def e_protocolCli2Game_def e_protocolCli2File_def
  e_protocolCli2Gate_def e_pingRequest_def e_fileSrvRequest_def e_authSrvRequest_def
  e_pingReply_def e_fileSrvReply_def e_authSrvReply_def
  e_c2s_connect_def e_s2c_encrypt_def e_s2c_error_def

section \<open>The accessors\<close>

definition get_uint8 :: "nat \<Rightarrow> byte list \<Rightarrow> byte" where
  "get_uint8 off m = hd (drop off m)"

definition set_uint8 :: "nat \<Rightarrow> byte \<Rightarrow> byte list \<Rightarrow> byte list" where
  "set_uint8 off value m = patch off [value] m"

definition get_uint16 :: "build \<Rightarrow> nat \<Rightarrow> byte list \<Rightarrow> u16" where
  "get_uint16 B off m = load16 B (take 2 (drop off m))"

definition set_uint16 :: "build \<Rightarrow> nat \<Rightarrow> u16 \<Rightarrow> byte list \<Rightarrow> byte list" where
  "set_uint16 B off value m = patch off (store16 B value) m"

definition get_uint32 :: "build \<Rightarrow> nat \<Rightarrow> byte list \<Rightarrow> u32" where
  "get_uint32 B off m = load32 B (take 4 (drop off m))"

definition set_uint32 :: "build \<Rightarrow> nat \<Rightarrow> u32 \<Rightarrow> byte list \<Rightarrow> byte list" where
  "set_uint32 B off value m = patch off (store32 B value) m"

text \<open>\<open>THEME_NET_FIELD_BLOB\<close>: the accessors give the size and the address of the bytes.\<close>

definition get_blobsz :: "nat \<Rightarrow> u32" where
  "get_blobsz sz = word_of_nat sz"

definition get_blob :: "nat \<Rightarrow> nat \<Rightarrow> byte list \<Rightarrow> byte list" where
  "get_blob off sz m = take sz (drop off m)"

text \<open>
  \<open>THEME_NET_FIELD_BUFFER\<close>: the size member is a plain 32-bit integer.
  \<open>THEME_NET_FIELD_BUFFER_REDUNDANT\<close>: the stored size counts its own four bytes; the getter
  subtracts them before the byte swap, the setter adds them before it.
\<close>

definition get_buffersz :: "build \<Rightarrow> nat \<Rightarrow> byte list \<Rightarrow> u32" where
  "get_buffersz B off m = get_uint32 B off m"

definition set_buffersz :: "build \<Rightarrow> nat \<Rightarrow> u32 \<Rightarrow> byte list \<Rightarrow> byte list" where
  "set_buffersz B off value m = set_uint32 B off value m"

definition get_redundantsz :: "build \<Rightarrow> nat \<Rightarrow> byte list \<Rightarrow> u32" where
  "get_redundantsz B off m =
     THEME_LE32 B (word_of_nat (native_load B (take 4 (drop off m))) - 4)"

definition set_redundantsz :: "build \<Rightarrow> nat \<Rightarrow> u32 \<Rightarrow> byte list \<Rightarrow> byte list" where
  "set_redundantsz B off value m = patch off (native_store B 4 (unat (THEME_LE32 B (value + 4)))) m"

text \<open>
  \<open>THEME_NET_FIELD_STRING_UTF16\<close>: a 16-bit size and \<open>szval\<close> code units in the host's byte
  order. The getter reads the size without \<open>THEME_LE16\<close>; the setter copies at most \<open>szval\<close>
  code units, terminates, and stores the size through \<open>THEME_LE16\<close>.
\<close>

definition chars_store :: "build \<Rightarrow> u16 list \<Rightarrow> byte list" where
  "chars_store B cs = concat (map (\<lambda>c. native_store B 2 (unat c)) cs)"

fun chars_load :: "build \<Rightarrow> nat \<Rightarrow> byte list \<Rightarrow> u16 list" where
  "chars_load B 0 m = []"
| "chars_load B (Suc n) m = word_of_nat (native_load B (take 2 m)) # chars_load B n (drop 2 m)"

definition get_string :: "build \<Rightarrow> nat \<Rightarrow> byte list \<Rightarrow> u16 list" where
  "get_string B off m = chars_load B (native_load B (take 2 (drop off m))) (drop (off + 2) m)"

definition set_string :: "build \<Rightarrow> nat \<Rightarrow> nat \<Rightarrow> u16 list \<Rightarrow> byte list \<Rightarrow> byte list" where
  "set_string B off szval value m =
     (let sz = min szval (length value);
          m1 = patch (off + 2) (chars_store B (take sz value)) m;
          m2 = patch (off + 2 + 2 * min (szval - 1) (length value)) (native_store B 2 0) m1
      in patch off (native_store B 2 (unat (THEME_LE16 B (word_of_nat sz)))) m2)"

definition get_uuid :: "build \<Rightarrow> nat \<Rightarrow> byte list \<Rightarrow> uuid" where
  "get_uuid B off m = from_le_bytes B (take 16 (drop off m))"

definition set_uuid :: "build \<Rightarrow> nat \<Rightarrow> uuid \<Rightarrow> byte list \<Rightarrow> byte list" where
  "set_uuid B off value m = patch off (to_le_bytes B value) m"

end
