(* ===== verification/Theme_Evp.thy ===== *)
theory Theme_Evp
  imports Theme_Prelude
begin

text \<open>
  The OpenSSL cipher contexts \<open>m_encrypt\<close> and \<open>m_decrypt\<close> of \<open>client_base\<close>. The code uses two
  ciphers: \<open>EVP_enc_null\<close>, which copies its input, and \<open>EVP_rc4\<close>, a stream cipher that
  combines its input with the key stream of the key. The key stream generator is
  OpenSSL's and stays a parameter, \<open>ks key i\<close> being byte \<open>i\<close> of the stream for \<open>key\<close>. The
  locales state what the message code needs of a cipher: it may be fed in pieces, and two
  contexts set up with one key undo each other.
\<close>

type_synonym keystream = "byte list \<Rightarrow> nat \<Rightarrow> byte"

datatype evp = EvpNull | EvpRc4 (evp_key: "byte list") (evp_pos: nat)

text \<open>\<open>EVP_EncryptUpdate\<close> and \<open>EVP_DecryptUpdate\<close>: the output and the context afterwards.\<close>

fun evp_update :: "keystream \<Rightarrow> evp \<Rightarrow> byte list \<Rightarrow> byte list \<times> evp" where
  "evp_update ks EvpNull bs = (bs, EvpNull)"
| "evp_update ks (EvpRc4 key p) bs =
     (map2 (XOR) bs (map (ks key) [p ..< p + length bs]), EvpRc4 key (p + length bs))"

section \<open>Interfaces\<close>

locale stream_cipher =
  fixes upd :: "'c \<Rightarrow> byte list \<Rightarrow> byte list \<times> 'c"
  assumes upd_length: "length (fst (upd c bs)) = length bs"
    and upd_Nil: "upd c [] = ([], c)"
    and upd_append: "upd c (as @ bs) =
      (fst (upd c as) @ fst (upd (snd (upd c as)) bs), snd (upd (snd (upd c as)) bs))"
begin

lemma out_length [simp]: "length (fst (upd c bs)) = length bs"
  by (rule upd_length)

lemma out_append: "fst (upd c (as @ bs)) = fst (upd c as) @ fst (upd (snd (upd c as)) bs)"
  by (simp add: upd_append)

lemma state_append: "snd (upd c (as @ bs)) = snd (upd (snd (upd c as)) bs)"
  by (simp add: upd_append)

lemma out_take: "take n (fst (upd c bs)) = fst (upd c (take n bs))"
proof -
  have "fst (upd c bs) = fst (upd c (take n bs)) @ fst (upd (snd (upd c (take n bs))) (drop n bs))"
    using out_append [of c "take n bs" "drop n bs"] by simp
  then show ?thesis by (cases "n \<le> length bs") (simp_all add: upd_Nil)
qed

lemma out_drop: "drop n (fst (upd c bs)) = fst (upd (snd (upd c (take n bs))) (drop n bs))"
proof -
  have "fst (upd c bs) = fst (upd c (take n bs)) @ fst (upd (snd (upd c (take n bs))) (drop n bs))"
    using out_append [of c "take n bs" "drop n bs"] by simp
  then show ?thesis by (cases "n \<le> length bs") (simp_all add: upd_Nil)
qed

end

locale cipher_pair = stream_cipher +
  assumes undo: "fst (upd c (fst (upd c bs))) = bs"
    and keep_step: "snd (upd c (fst (upd c bs))) = snd (upd c bs)"
begin

text \<open>A peer that decrypts in other pieces than the sender encrypted in recovers the stream.\<close>

lemma undo_split:
  assumes "cs = fst (upd c bs)"
  shows "fst (upd c (take n cs)) @ fst (upd (snd (upd c (take n cs))) (drop n cs)) = bs"
  using out_append [of c "take n cs" "drop n cs"] undo [of c bs] assms by simp

end

section \<open>The model's contexts satisfy them\<close>

lemma rc4_piece:
  "map2 (XOR) (as @ bs) (map f [p ..< p + length (as @ bs)]) =
   map2 (XOR) as (map f [p ..< p + length as]) @
   map2 (XOR) bs (map f [p + length as ..< p + (length as + length bs)])"
proof -
  have "[p ..< p + length (as @ bs)] = [p ..< p + length as] @ [p + length as ..< p + (length as + length bs)]"
    using upt_add_eq_append [of p "p + length as" "length bs"] by (simp add: add.assoc)
  then show ?thesis by (simp only:) simp
qed

lemma map2_xor_undo:
  "length xs = length bs \<Longrightarrow> map2 (XOR) (map2 (XOR) bs xs) xs = (bs :: byte list)"
proof (induction bs arbitrary: xs)
  case (Cons b bs)
  then show ?case by (cases xs) (simp_all add: xor.assoc)
qed simp

interpretation evp: cipher_pair "evp_update ks" for ks
proof unfold_locales
  fix c bs
  show "length (fst (evp_update ks c bs)) = length bs" by (cases c) simp_all
  show "evp_update ks c [] = ([], c)" by (cases c) simp_all
  show "fst (evp_update ks c (fst (evp_update ks c bs))) = bs"
    by (cases c) (simp_all add: map2_xor_undo)
  show "snd (evp_update ks c (fst (evp_update ks c bs))) = snd (evp_update ks c bs)"
    by (cases c) simp_all
next
  fix c as bs
  show "evp_update ks c (as @ bs) =
      (fst (evp_update ks c as) @ fst (evp_update ks (snd (evp_update ks c as)) bs),
       snd (evp_update ks (snd (evp_update ks c as)) bs))"
    by (cases c) (simp_all only: evp_update.simps fst_conv snd_conv rc4_piece, simp_all add: add.assoc)
qed

end
