(* ===== verification/Theme_Errors.thy ===== *)
theory Theme_Errors
  imports Theme_Prelude
begin

text \<open>
  \<open>src/src/core/errors.h\<close> and \<open>errors.cpp\<close>: the assertion macros and the replaceable assertion
  handler. A handler is a \<open>std::function\<close>: it may be empty (\<open>None\<close>), and a call either returns
  or does not (\<open>__builtin_trap\<close> in the default handler, the fault \<open>AssertFailed\<close> here).
\<close>

record assert_info =
  ai_cond :: string
  ai_file :: string
  ai_line :: int
  ai_msg :: "string option"

text \<open>A handler's effect: the lines it writes to the error stream and how the call ends.\<close>

type_synonym handler_fun = "assert_info \<Rightarrow> string list \<times> unit res"
type_synonym handler_t = "handler_fun option"

text \<open>\<open>show_line\<close> stands for the stream's decimal rendering of the line number.\<close>

definition default_assert_handler :: "build \<Rightarrow> (int \<Rightarrow> string) \<Rightarrow> handler_fun" where
  "default_assert_handler B show_line info =
     (['''', ''Assertion Failed''] @
      (if ndebug B then []
       else [''Condition: '' @ ai_cond info, ''File: '' @ ai_file info,
             ''Line: '' @ show_line (ai_line info)] @
            (case ai_msg info of None \<Rightarrow> [] | Some m \<Rightarrow> [''Message: '' @ m])),
      Inl AssertFailed)"

definition assert_handle :: "handler_t \<Rightarrow> handler_fun" where
  "assert_handle s_assertHandler info =
     (case s_assertHandler of Some h \<Rightarrow> h info | None \<Rightarrow> ([], Inr ()))"

definition reset_handler :: "build \<Rightarrow> (int \<Rightarrow> string) \<Rightarrow> handler_t" where
  "reset_handler B show_line = Some (default_assert_handler B show_line)"

definition set_handler :: "handler_t \<Rightarrow> handler_t" where
  "set_handler handler = handler"

text \<open>
  \<open>THEME_ASSERTD\<close> evaluates its condition in every build and checks it only without
  \<open>NDEBUG\<close>; \<open>THEME_ASSERTR\<close> always checks it.
\<close>

definition THEME_ASSERTR :: "handler_t \<Rightarrow> assert_info \<Rightarrow> bool \<Rightarrow> string list \<times> unit res" where
  "THEME_ASSERTR h info cond = (if \<not> cond then assert_handle h info else ([], Inr ()))"

definition THEME_ASSERTD :: "build \<Rightarrow> handler_t \<Rightarrow> assert_info \<Rightarrow> bool \<Rightarrow> string list \<times> unit res" where
  "THEME_ASSERTD B h info cond = (if ndebug B then ([], Inr ()) else THEME_ASSERTR h info cond)"

text \<open>
  Nothing in the program replaces the default handler, so the other theories use the
  macros through their control effect under it.
\<close>

definition assertd :: "build \<Rightarrow> bool \<Rightarrow> unit res" where
  "assertd B cond = (if cond \<or> ndebug B then Inr () else Inl AssertFailed)"

definition assertr :: "bool \<Rightarrow> unit res" where
  "assertr cond = (if cond then Inr () else Inl AssertFailed)"

lemma assertd_True [simp, fault_simps]: "assertd B True = Inr ()"
  by (simp add: assertd_def)

lemma assertr_True [simp, fault_simps]: "assertr True = Inr ()"
  by (simp add: assertr_def)

lemma assertd_holds: "cond \<Longrightarrow> assertd B cond = Inr ()"
  by (simp add: assertd_def)

lemma assertd_debug: "\<not> ndebug B \<Longrightarrow> assertd B cond = Inr u \<longleftrightarrow> cond"
  by (simp add: assertd_def)

lemma THEME_ASSERTD_control:
  "snd (THEME_ASSERTD B (reset_handler B show_line) info cond) = assertd B cond"
  by (simp add: THEME_ASSERTD_def THEME_ASSERTR_def assert_handle_def reset_handler_def
      default_assert_handler_def assertd_def)

lemma THEME_ASSERTR_control:
  "snd (THEME_ASSERTR (reset_handler B show_line) info cond) = assertr cond"
  by (simp add: THEME_ASSERTR_def assert_handle_def reset_handler_def
      default_assert_handler_def assertr_def)

end
