(* ===== verification/Theme_Socket.thy ===== *)
theory Theme_Socket
  imports Theme_Errors
begin

text \<open>
  \<open>src/src/io/socket.h\<close> and \<open>socket.cpp\<close>: the non-blocking TCP socket. A socket carries, beside
  the class's descriptor and address string, the kernel's side of the connection: the
  results its next \<open>read\<close> and \<open>write\<close> calls will have (\<open>so_in\<close>, \<open>so_out\<close>), the bytes the
  kernel has taken (\<open>so_sent\<close>) and whether it was shut down. Any way the network can cut the
  stream is some list of results; when a list is used up the call would block. Log lines
  are not modelled here.
\<close>

section \<open>System call results\<close>

datatype errno = EAGAIN | EWOULDBLOCK | EOTHER

datatype recv_ev = Rchunk "byte list" | Reof | Rfail errno
datatype send_ev = Waccept nat | Wfail errno

record sock =
  so_fd :: int
  so_addr :: string
  so_in :: "recv_ev list"
  so_out :: "send_ev list"
  so_sent :: "byte list"
  so_shut :: bool

text \<open>
  \<open>::read\<close>: what is available, up to \<open>bufsz\<close> bytes; the rest stays for the next call. The
  end of the stream is permanent. \<open>::write\<close>: the kernel takes a prefix.
\<close>

definition sys_read :: "nat \<Rightarrow> sock \<Rightarrow> (errno + byte list) \<times> sock" where
  "sys_read bufsz s =
     (case so_in s of
        [] \<Rightarrow> (Inl EAGAIN, s)
      | Rfail e # evs \<Rightarrow> (Inl e, s\<lparr>so_in := evs\<rparr>)
      | Reof # evs \<Rightarrow> (Inr [], s)
      | Rchunk bs # evs \<Rightarrow>
          (Inr (take bufsz bs),
           s\<lparr>so_in := (if length bs \<le> bufsz then evs else Rchunk (drop bufsz bs) # evs)\<rparr>))"

definition sys_write :: "byte list \<Rightarrow> sock \<Rightarrow> (errno + nat) \<times> sock" where
  "sys_write buf s =
     (case so_out s of
        [] \<Rightarrow> (Inl EAGAIN, s)
      | Wfail e # evs \<Rightarrow> (Inl e, s\<lparr>so_out := evs\<rparr>)
      | Waccept k # evs \<Rightarrow>
          (let n = min k (length buf)
           in (Inr n, s\<lparr>so_out := evs, so_sent := so_sent s @ take n buf\<rparr>)))"

section \<open>Reading, writing, shutting down\<close>

text \<open>
  The methods return \<open>(ok, count)\<close>: \<open>(false, 0)\<close> when the call would block, \<open>(false, -1)\<close>
  on any other error. The bytes read are the second component here.
\<close>

definition sock_read :: "nat \<Rightarrow> sock \<Rightarrow> (bool \<times> nat) \<times> byte list \<times> sock" where
  "sock_read bufsz s =
     (case sys_read bufsz s of
        (Inl e, s') \<Rightarrow>
          (if e = EAGAIN \<or> e = EWOULDBLOCK then ((False, 0), [], s')
           else ((False, size_max), [], s'))
      | (Inr data, s') \<Rightarrow> ((True, length data), data, s'))"

definition sock_write :: "byte list \<Rightarrow> sock \<Rightarrow> (bool \<times> nat) \<times> sock" where
  "sock_write buf s =
     (case sys_write buf s of
        (Inl e, s') \<Rightarrow>
          (if e = EAGAIN \<or> e = EWOULDBLOCK then ((False, 0), s') else ((False, size_max), s'))
      | (Inr n, s') \<Rightarrow> ((True, n), s'))"

text \<open>\<open>shutdown()\<close> reports a failing call and changes nothing else; \<open>ok\<close> is the call's result.\<close>

definition sock_shutdown :: "bool \<Rightarrow> sock \<Rightarrow> bool \<times> sock" where
  "sock_shutdown ok s = (if ok then (True, s\<lparr>so_shut := True\<rparr>) else (False, s))"

abbreviation shut :: "sock \<Rightarrow> sock" where
  "shut s \<equiv> snd (sock_shutdown True s)"

definition sock_listen :: "bool \<Rightarrow> sock \<Rightarrow> bool" where
  "sock_listen ok s = ok"

section \<open>Descriptors and addresses\<close>

datatype sockaddr = AF_INET "byte list" nat | AF_INET6 "byte list" nat | AF_OTHER nat

text \<open>\<open>socket()\<close>; a moved-from socket owns no descriptor.\<close>

definition sock_new :: sock where
  "sock_new = \<lparr>so_fd = -1, so_addr = [], so_in = [], so_out = [], so_sent = [], so_shut = False\<rparr>"

definition sock_move :: "sock \<Rightarrow> sock \<times> sock" where
  "sock_move s = (s, s\<lparr>so_fd := -1, so_addr := []\<rparr>)"

definition sock_destroy :: "build \<Rightarrow> bool \<Rightarrow> sock \<Rightarrow> unit res" where
  "sock_destroy B close_ok s = (if so_fd s \<noteq> -1 then assertd B close_ok else Inr ())"

text \<open>
  \<open>setfd(fd, addr)\<close>: \<open>ntop\<close> is \<open>inet_ntop\<close> (None when it fails) and \<open>show_port\<close> the formatting
  of the port.
\<close>

definition setfd_addr ::
    "(sockaddr \<Rightarrow> string option) \<Rightarrow> (nat \<Rightarrow> string) \<Rightarrow> int \<Rightarrow> sockaddr \<Rightarrow> sock \<Rightarrow> sock" where
  "setfd_addr ntop show_port fd addr s =
     (let s1 = s\<lparr>so_fd := fd\<rparr>
      in if fd = -1 then s1
         else case addr of
             AF_OTHER fam \<Rightarrow> s1\<lparr>so_addr := ''???''\<rparr>
           | AF_INET ip port \<Rightarrow>
               (case ntop addr of None \<Rightarrow> s1
                | Some a \<Rightarrow> s1\<lparr>so_addr := a @ ''/'' @ show_port port\<rparr>)
           | AF_INET6 ip port \<Rightarrow>
               (case ntop addr of None \<Rightarrow> s1
                | Some a \<Rightarrow> s1\<lparr>so_addr := a @ ''/'' @ show_port port\<rparr>))"

text \<open>\<open>setfd(fd)\<close>: \<open>sockname\<close> is the result of \<open>getsockname\<close>.\<close>

definition setfd ::
    "(sockaddr \<Rightarrow> string option) \<Rightarrow> (nat \<Rightarrow> string) \<Rightarrow> sockaddr option \<Rightarrow> int \<Rightarrow> sock \<Rightarrow> sock" where
  "setfd ntop show_port sockname fd s =
     (if fd = -1 then s\<lparr>so_fd := -1\<rparr>
      else case sockname of None \<Rightarrow> s | Some addr \<Rightarrow> setfd_addr ntop show_port fd addr s)"

text \<open>\<open>accept(client)\<close>: the result of \<open>accept4\<close> is an error or a descriptor and its peer.\<close>

definition sock_accept ::
    "(sockaddr \<Rightarrow> string option) \<Rightarrow> (nat \<Rightarrow> string) \<Rightarrow> errno + (int \<times> sockaddr) \<Rightarrow> sock \<Rightarrow> bool \<times> sock" where
  "sock_accept ntop show_port result client =
     (case result of
        Inl e \<Rightarrow> (False, client)
      | Inr (fd, addr) \<Rightarrow> (True, setfd_addr ntop show_port fd addr client))"

section \<open>Binding\<close>

text \<open>
  One turn of the loop over the address list: \<open>::socket\<close> fails; \<open>::bind\<close> fails and the
  descriptor is closed (did the close succeed?); or the socket is bound.
\<close>

datatype attempt = SocketFailed | BindFailed bool | Bound int

text \<open>
  The increment of the loop is \<open>it = addrListPtr->ai_next\<close>, the second entry of the list
  whatever \<open>it\<close> is. \<open>try k ai\<close> is what happens to address \<open>ai\<close> in turn \<open>k\<close>; \<open>None\<close> is a loop
  that never ends.
\<close>

partial_function (option) bind_loop ::
    "build \<Rightarrow> (nat \<Rightarrow> sockaddr \<Rightarrow> attempt) \<Rightarrow> sockaddr list \<Rightarrow> nat \<Rightarrow> sockaddr list
     \<Rightarrow> (int \<times> sockaddr) option res option" where
  "bind_loop B try addrs k it =
     (if it = [] then Some (Inr None)
      else case try k (hd it) of
          SocketFailed \<Rightarrow> bind_loop B try addrs (Suc k) (tl addrs)
        | Bound fd \<Rightarrow> Some (Inr (Some (fd, hd it)))
        | BindFailed close_ok \<Rightarrow>
            (if close_ok \<or> ndebug B then bind_loop B try addrs (Suc k) (tl addrs)
             else Some (Inl AssertFailed)))"

declare bind_loop.simps [code]

text \<open>
  \<open>bind(addr, port)\<close>: \<open>lookup\<close> is \<open>getaddrinfo\<close> on the host and the port, \<open>None\<close> when it fails.
\<close>

definition sock_bind ::
    "build \<Rightarrow> (sockaddr \<Rightarrow> string option) \<Rightarrow> (nat \<Rightarrow> string) \<Rightarrow> (string \<Rightarrow> u16 \<Rightarrow> sockaddr list option)
     \<Rightarrow> (nat \<Rightarrow> sockaddr \<Rightarrow> attempt) \<Rightarrow> string \<Rightarrow> u16 \<Rightarrow> sock \<Rightarrow> (bool \<times> sock) res option" where
  "sock_bind B ntop show_port lookup try addr port s =
     (case lookup addr port of
        None \<Rightarrow> Some (Inr (False, s))
      | Some addrs \<Rightarrow>
          (case bind_loop B try addrs 0 addrs of
             None \<Rightarrow> None
           | Some (Inl e) \<Rightarrow> Some (Inl e)
           | Some (Inr None) \<Rightarrow> Some (Inr (False, s))
           | Some (Inr (Some (fd, ai))) \<Rightarrow> Some (Inr (True, setfd_addr ntop show_port fd ai s))))"

text \<open>An induction rule for facts about a \<open>bind_loop\<close> that returned.\<close>

lemma bind_loop_induct [consumes 1, case_names none stuck bound again]:
  assumes ret: "bind_loop B attempts addrs k it = Some r"
    and none: "\<And>k. P k [] (Inr None)"
    and stuck: "\<And>it k. it \<noteq> [] \<Longrightarrow> attempts k (hd it) = BindFailed False \<Longrightarrow> \<not> ndebug B \<Longrightarrow> P k it (Inl AssertFailed)"
    and bound: "\<And>it k fd. it \<noteq> [] \<Longrightarrow> attempts k (hd it) = Bound fd \<Longrightarrow> P k it (Inr (Some (fd, hd it)))"
    and again: "\<And>k it r. it \<noteq> [] \<Longrightarrow> P (Suc k) (tl addrs) r \<Longrightarrow> P k it r"
  shows "P k it r"
proof -
  let ?P = "\<lambda>B' f as k it r. B' = B \<longrightarrow> f = attempts \<longrightarrow> as = addrs \<longrightarrow> P k it r"
  have "?P B attempts addrs k it r"
  proof (rule bind_loop.raw_induct [where P = ?P, OF _ ret], intro impI)
    fix bl :: "build \<Rightarrow> (nat \<Rightarrow> sockaddr \<Rightarrow> attempt) \<Rightarrow> sockaddr list \<Rightarrow> nat \<Rightarrow> sockaddr list \<Rightarrow> (int \<times> sockaddr) option res option"
      and B' f as k it r
    assume IH: "\<And>B' f as k it r. bl B' f as k it = Some r \<Longrightarrow> ?P B' f as k it r"
      and eq: "(if it = [] then Some (Inr None)
        else case f k (hd it) of SocketFailed \<Rightarrow> bl B' f as (Suc k) (tl as)
          | BindFailed close_ok \<Rightarrow> if close_ok \<or> ndebug B' then bl B' f as (Suc k) (tl as) else Some (Inl AssertFailed)
          | Bound fd \<Rightarrow> Some (Inr (Some (fd, hd it)))) = Some r"
      and same: "B' = B" "f = attempts" "as = addrs"
    have rec: "P k it r" if "it \<noteq> []" "bl B attempts addrs (Suc k) (tl addrs) = Some r"
      using again [OF that(1)] IH [OF that(2)] by simp
    show "P k it r"
      using eq rec none [of k] stuck [where it = it and k = k] bound [where it = it and k = k] unfolding same
      by (auto split: attempt.splits if_splits)
  qed
  then show ?thesis by simp
qed

text \<open>A loop whose second address always fails never returns.\<close>

lemma bind_loop_fails:
  assumes "bind_loop B attempts addrs k (tl addrs) = Some r" "tl addrs = b # rest"
    and "\<And>k. attempts k b = SocketFailed \<or> attempts k b = BindFailed True"
  shows False
proof -
  from assms(1) have "tl addrs \<noteq> tl addrs"
  proof (induction k "tl addrs" r rule: bind_loop_induct)
    case (stuck k)
    then show ?case using assms(2) assms(3) [of k] by simp
  next
    case (bound k fd)
    then show ?case using assms(2) assms(3) [of k] by simp
  qed (use assms(2) in auto)
  then show False by simp
qed

section \<open>What a connection may rely on\<close>

text \<open>
  The contract of a byte source: a read takes a prefix of what is coming, no more than asked
  for, and reports its length; a failing read takes nothing. The contract of a byte sink: a
  write hands over a prefix of the buffer.
\<close>

locale byte_source =
  fixes rd :: "nat \<Rightarrow> 's \<Rightarrow> (bool \<times> nat) \<times> byte list \<times> 's"
    and coming :: "'s \<Rightarrow> byte list"
  assumes rd_stream: "rd n s = (r, data, s') \<Longrightarrow> coming s = data @ coming s'"
    and rd_bound: "rd n s = (r, data, s') \<Longrightarrow> length data \<le> n"
    and rd_count: "rd n s = ((True, cnt), data, s') \<Longrightarrow> cnt = length data"
    and rd_fail: "rd n s = ((False, cnt), data, s') \<Longrightarrow> data = []"
begin

lemma left_over: "rd n s = (r, data, s') \<Longrightarrow> length (coming s) = length data + length (coming s')"
  using rd_stream by fastforce

lemma two_reads:
  assumes "rd n s = (r, d1, s1)" "rd k s1 = (r', d2, s2)"
  shows "coming s = (d1 @ d2) @ coming s2"
  using rd_stream [OF assms(1)] rd_stream [OF assms(2)] by simp

end

locale byte_sink =
  fixes wr :: "byte list \<Rightarrow> 's \<Rightarrow> (bool \<times> nat) \<times> 's"
    and sent :: "'s \<Rightarrow> byte list"
  assumes wr_ok: "wr buf s = ((True, n), s') \<Longrightarrow> n \<le> length buf \<and> sent s' = sent s @ take n buf"
    and wr_fail: "wr buf s = ((False, n), s') \<Longrightarrow> sent s' = sent s"
begin

text \<open>What was sent and what is left of the buffer always make up the same stream.\<close>

lemma stream_kept: "wr buf s = ((True, n), s') \<Longrightarrow> sent s' @ drop n buf = sent s @ buf"
  using wr_ok by fastforce

end

fun ev_bytes :: "recv_ev \<Rightarrow> byte list" where
  "ev_bytes (Rchunk bs) = bs"
| "ev_bytes Reof = []"
| "ev_bytes (Rfail e) = []"

definition incoming :: "sock \<Rightarrow> byte list" where
  "incoming s = concat (map ev_bytes (so_in s))"

interpretation kernel_in: byte_source sock_read incoming
  by unfold_locales
    (auto simp: sock_read_def sys_read_def incoming_def split: list.splits recv_ev.splits if_splits)

interpretation kernel_out: byte_sink sock_write so_sent
  by unfold_locales
    (auto simp: sock_write_def sys_write_def Let_def min_def split: list.splits send_ev.splits if_splits)

end
