(* ===== verification/Theme_Client_Base.thy ===== *)
theory Theme_Client_Base
  imports Theme_Protocol Theme_Evp Theme_Socket
begin

text \<open>
  \<open>src/src/io/client_base.h\<close> and the first half of \<open>client_base.cpp\<close>: the state of a
  connection's I/O, buffer allocation, and the size of a field in memory and on the wire.
\<close>

section \<open>State\<close>

definition kMaxBufCount :: nat where "kMaxBufCount = 1024"
definition kMaxStackBufSize :: nat where "kMaxStackBufSize = 2048"

text \<open>
  \<open>io_state\<close> is a union of the state of a read and the state of a write; a value is used
  as one of them only. (\<open>m_fdoffs\<close> and \<open>m_fd\<close> of the write variant are never used.)
\<close>

record io_read =
  rd_struct :: "net_struct option"
  rd_field :: nat
  rd_offset :: nat
  rd_bufsz :: nat
  rd_buf :: "byte list option"

record io_write =
  wr_bufoffs :: nat
  wr_bufsz :: nat
  wr_buf :: "byte list"

record client_base =
  cb_sock :: sock
  cb_read :: io_read
  cb_writes :: "io_write list"
  cb_encrypt :: evp
  cb_decrypt :: evp

definition io_read_init :: io_read where
  "io_read_init = \<lparr>rd_struct = None, rd_field = 0, rd_offset = 0, rd_bufsz = 0, rd_buf = None\<rparr>"

text \<open>The constructor takes over the socket and starts with null ciphers both ways.\<close>

definition client_base_new :: "sock \<Rightarrow> client_base" where
  "client_base_new s =
     \<lparr>cb_sock = fst (sock_move s), cb_read = io_read_init, cb_writes = [],
      cb_encrypt = EvpNull, cb_decrypt = EvpNull\<rparr>"

definition set_crypt_key :: "nat \<Rightarrow> byte list \<Rightarrow> client_base \<Rightarrow> client_base" where
  "set_crypt_key keysz key c =
     c\<lparr>cb_encrypt := EvpRc4 (take keysz key) 0, cb_decrypt := EvpRc4 (take keysz key) 0\<rparr>"

definition has_pending_read :: "client_base \<Rightarrow> bool" where
  "has_pending_read c \<longleftrightarrow> rd_struct (cb_read c) \<noteq> None"

definition has_pending_write :: "client_base \<Rightarrow> bool" where
  "has_pending_write c \<longleftrightarrow> cb_writes c \<noteq> []"

text \<open>The two overloads of \<open>read\<close> that register what to read next.\<close>

definition read_struct :: "net_struct \<Rightarrow> client_base \<Rightarrow> client_base" where
  "read_struct ns c = c\<lparr>cb_read := (cb_read c)\<lparr>rd_struct := Some ns\<rparr>\<rparr>"

definition read_resume :: "net_struct \<Rightarrow> nat \<Rightarrow> byte list option \<Rightarrow> client_base \<Rightarrow> client_base" where
  "read_resume ns field buf c =
     (let st1 = (cb_read c)\<lparr>rd_struct := Some ns\<rparr>;
          st2 = (if field \<noteq> size_max then st1\<lparr>rd_field := field\<rparr> else st1);
          st3 = (if buf \<noteq> None then st2\<lparr>rd_buf := buf\<rparr> else st2)
      in c\<lparr>cb_read := st3\<rparr>)"

section \<open>Allocation\<close>

text \<open>
  A new buffer is zeroed (\<open>make_unique\<close>) and takes over \<open>m_bufsz\<close> bytes of the old one.
  \<open>make_unique\<close> throws instead of returning null, so the error branch is dead code.
\<close>

definition alloc_size :: "nat \<Rightarrow> bool \<Rightarrow> nat" where
  "alloc_size requestsz exact = (if exact then requestsz else (requestsz div 8 + 4) * 8)"

definition alloc_buf :: "nat \<Rightarrow> bool \<Rightarrow> io_read \<Rightarrow> io_read res" where
  "alloc_buf requestsz exact st =
     (let bufsz = alloc_size requestsz exact; fresh = replicate bufsz 0
      in case rd_buf st of
           None \<Rightarrow> Inr (st\<lparr>rd_bufsz := bufsz, rd_buf := Some fresh\<rparr>)
         | Some old \<Rightarrow>
             bindE (mem_read old 0 (rd_bufsz st)) (\<lambda>bs.
             bindE (mem_write fresh 0 bs) (\<lambda>buf.
             Inr (st\<lparr>rd_bufsz := bufsz, rd_buf := Some buf\<rparr>))))"

section \<open>Field sizes\<close>

text \<open>A pointer into a buffer, or null. Any access through it is checked.\<close>

datatype ptr = Null | At "byte list" nat

definition buf_ptr :: "byte list option \<Rightarrow> nat \<Rightarrow> ptr" where
  "buf_ptr buf off = (case buf of Some m \<Rightarrow> At m off | None \<Rightarrow> if off = 0 then Null else At [] off)"

definition extract_integer :: "build \<Rightarrow> net_field \<Rightarrow> byte list \<Rightarrow> nat \<Rightarrow> nat res" where
  "extract_integer B field m off =
     (if nf_elementsz field = 1 then
        bindE (mem_read m off 1) (\<lambda>bs. Inr (le_val bs))
      else if nf_elementsz field = 2 then
        bindE (mem_read m off 2) (\<lambda>bs. Inr (unat (load16 B bs)))
      else if nf_elementsz field = 4 then
        bindE (mem_read m off 4) (\<lambda>bs. Inr (unat (load32 B bs)))
      else if nf_elementsz field = 8 then
        bindE (mem_read m off 8) (\<lambda>bs. Inr (unat (load64 B bs)))
      else bindE (assertd B False) (\<lambda>_. Inr 0))"

text \<open>
  \<open>extract_elementcount\<close>: the count stands right before the buffer. A redundant count
  includes its own size, and the subtraction wraps like \<open>size_t\<close>. Too large a count is
  \<open>(size_t)-1\<close>.
\<close>

definition extract_elementcount ::
    "build \<Rightarrow> net_field \<Rightarrow> net_field \<Rightarrow> byte list \<Rightarrow> nat \<Rightarrow> nat res" where
  "extract_elementcount B sz_field buf_field m off =
     bindE (assertd B (nf_type sz_field = e_buffer_size)) (\<lambda>_.
     bindE (assertd B (nf_count sz_field = 1)) (\<lambda>_.
     bindE (if nf_elementsz sz_field \<le> off then Inr (off - nf_elementsz sz_field)
            else Inl OutOfBounds) (\<lambda>p.
     bindE (extract_integer B sz_field m p) (\<lambda>result.
     bindE (if nf_type buf_field = e_buffer_redundant then
              (if nf_elementsz buf_field = 0 then Inl DivByZero
               else bindE (assertd B (nf_elementsz sz_field mod nf_elementsz buf_field = 0)) (\<lambda>_.
                    Inr ((result + size_mod - nf_elementsz sz_field div nf_elementsz buf_field)
                         mod size_mod)))
            else Inr result) (\<lambda>result.
     Inr (if kMaxBufCount < result then size_max else result))))))"

text \<open>
  \<open>calc_field_sz\<close> returns whether the size is known, the size in memory and the size on
  the wire.
\<close>

definition calc_field_sz :: "build \<Rightarrow> net_struct \<Rightarrow> nat \<Rightarrow> ptr \<Rightarrow> (bool \<times> nat \<times> nat) res" where
  "calc_field_sz B ns field buf =
     bindE (assertd B (field < ns_size ns)) (\<lambda>_.
     bindE (if field < ns_size ns then Inr (ns_fields ns ! field) else Inl OutOfBounds) (\<lambda>cur_field.
     if fixed_type (nf_type cur_field) then
       Inr (True, field_sz cur_field, field_sz cur_field)
     else
       bindE (assertd B (nf_type cur_field = e_string_utf16 \<or> field + 1 = ns_size ns)) (\<lambda>_.
       bindE (assertd B (0 < field)) (\<lambda>_.
       case buf of
         Null \<Rightarrow> Inr (False, field_sz cur_field, 0)
       | At m off \<Rightarrow>
           bindE (if 0 < field then Inr (ns_fields ns ! (field - 1)) else Inl OutOfBounds) (\<lambda>sz_field.
           bindE (extract_elementcount B sz_field cur_field m off) (\<lambda>count.
           Inr (True, field_sz cur_field, (nf_elementsz cur_field * count) mod size_mod)))))))"

text \<open>\<open>debug_field\<close>: what a protocol-debugging build logs about a field.\<close>

datatype field_note = NoteBuffer string | NoteInt string nat | NoteString string | NoteUuid string uuid

definition debug_field :: "build \<Rightarrow> net_field \<Rightarrow> byte list \<Rightarrow> nat \<Rightarrow> field_note res" where
  "debug_field B field m off =
     (case nf_type field of
        e_blob \<Rightarrow> Inr (NoteBuffer (nf_name field))
      | e_buffer \<Rightarrow> Inr (NoteBuffer (nf_name field))
      | e_buffer_redundant \<Rightarrow> Inr (NoteBuffer (nf_name field))
      | e_integer \<Rightarrow> bindE (extract_integer B field m off) (\<lambda>v. Inr (NoteInt (nf_name field) v))
      | e_buffer_size \<Rightarrow> bindE (extract_integer B field m off) (\<lambda>v. Inr (NoteInt (nf_name field) v))
      | e_string_utf16 \<Rightarrow> Inr (NoteString (nf_name field))
      | e_uuid \<Rightarrow> bindE (mem_read m off 16) (\<lambda>bs. Inr (NoteUuid (nf_name field) (from_le_bytes B bs))))"

section \<open>Facts about sizes\<close>

lemma calc_field_sz_fixed:
  "field < ns_size ns \<Longrightarrow> fixed_field (ns_fields ns ! field) \<Longrightarrow>
   calc_field_sz B ns field buf =
     Inr (True, field_sz (ns_fields ns ! field), field_sz (ns_fields ns ! field))"
  by (simp add: calc_field_sz_def fixed_field_def)

lemma calc_field_sz_in_range: "calc_field_sz B ns field buf = Inr r \<Longrightarrow> field < ns_size ns"
  by (auto simp: calc_field_sz_def bindE_eq_Inr split: if_splits)

lemma extract_integer_le:
  assumes "nf_elementsz field \<in> {1, 2, 4, 8}" "off + nf_elementsz field \<le> length m"
  shows "extract_integer B field m off = Inr (le_val (take (nf_elementsz field) (drop off m)))"
  using assms
  by (auto simp: extract_integer_def mem_read_in unat_load16 unat_load32 unat_load64)

text \<open>A sized buffer at the end of a struct, as the macros lay it out.\<close>

definition sized_tail :: "net_struct \<Rightarrow> nat \<Rightarrow> bool" where
  "sized_tail ns v \<longleftrightarrow> 0 < v \<and> v + 1 = ns_size ns \<and>
     nf_type (ns_fields ns ! (v - 1)) = e_buffer_size \<and> nf_elementsz (ns_fields ns ! (v - 1)) = 4 \<and>
     nf_count (ns_fields ns ! (v - 1)) = 1 \<and>
     nf_type (ns_fields ns ! v) \<in> {e_buffer, e_buffer_redundant} \<and>
     nf_elementsz (ns_fields ns ! v) = 1 \<and> nf_count (ns_fields ns ! v) = 0"

text \<open>The number of bytes such a tail announces, given the size field's value.\<close>

definition tail_count :: "data_type \<Rightarrow> nat \<Rightarrow> nat" where
  "tail_count t n =
     (let r = (if t = e_buffer_redundant then (n + size_mod - 4) mod size_mod else n)
      in if kMaxBufCount < r then size_max else r)"

lemma tail_count_buffer: "n \<le> 1024 \<Longrightarrow> tail_count e_buffer n = n"
  by (simp add: tail_count_def kMaxBufCount_def)

lemma tail_count_too_large: "1024 < n \<Longrightarrow> tail_count e_buffer n = size_max"
  by (simp add: tail_count_def kMaxBufCount_def)

lemma tail_count_redundant:
  assumes "4 \<le> n" "n \<le> 1028" shows "tail_count e_buffer_redundant n = n - 4"
proof -
  have e: "n + size_mod - 4 = (n - 4) + size_mod" using assms by simp
  have "(n + size_mod - 4) mod size_mod = (n - 4) mod size_mod"
    by (simp only: e mod_add_self2)
  also have "\<dots> = n - 4" using assms by simp
  finally show ?thesis using assms by (simp only: tail_count_def kMaxBufCount_def Let_def) simp
qed

lemma tail_count_redundant_small:
  assumes "n < 4" shows "tail_count e_buffer_redundant n = size_max"
  using assms by (simp add: tail_count_def kMaxBufCount_def Let_def)

lemma tail_count_bound: "tail_count t n \<le> size_max"
  by (simp add: tail_count_def kMaxBufCount_def Let_def)

lemma calc_field_sz_tail_Null:
  "sized_tail ns v \<Longrightarrow> calc_field_sz B ns v Null = Inr (False, 0, 0)"
  by (auto simp: calc_field_sz_def sized_tail_def fixed_type_def)

lemma calc_field_sz_tail:
  assumes "sized_tail ns v" "4 \<le> off" "off \<le> length m"
  shows "calc_field_sz B ns v (At m off) =
    Inr (True, 0, tail_count (nf_type (ns_fields ns ! v)) (le_val (take 4 (drop (off - 4) m))))"
proof -
  have "extract_integer B (ns_fields ns ! (v - 1)) m (off - 4) = Inr (le_val (take 4 (drop (off - 4) m)))"
    using assms by (subst extract_integer_le) (auto simp: sized_tail_def)
  with assms show ?thesis
    by (auto simp: calc_field_sz_def sized_tail_def fixed_type_def extract_elementcount_def
        tail_count_def Let_def kMaxBufCount_def)
qed

end
