(* ===== verification/Theme_Read_Path.thy ===== *)
theory Theme_Read_Path
  imports Theme_Client_Base
begin

text \<open>
  \<open>resume_read\<close> and \<open>handle_read\<close> of \<open>client_base.cpp\<close>: reading one message off the wire in as
  many pieces as the network delivers. The two nested loops of the code are
  \<open>decrypt_fields\<close> (the fields a single \<open>read\<close> call covered) and \<open>resume_read\<close> (passes over
  the socket); the second may run forever, so it is an \<open>option\<close>, \<open>None\<close> meaning that the
  call does not return.
\<close>

section \<open>How much was read, how much is left\<close>

text \<open>First loop of a pass: sizes in memory and on the wire of the fields read so far.\<close>

fun sizes_read ::
    "build \<Rightarrow> net_struct \<Rightarrow> byte list option \<Rightarrow> nat list \<Rightarrow> nat \<Rightarrow> nat \<Rightarrow> (nat \<times> nat) res" where
  "sizes_read B ns buf [] memsz wiresz = Inr (memsz, wiresz)"
| "sizes_read B ns buf (i # is) memsz wiresz =
     bindE (calc_field_sz B ns i (buf_ptr buf memsz)) (\<lambda>(known, alloc, wire).
     bindE (assertd B known) (\<lambda>_.
     sizes_read B ns buf is (memsz + alloc) (wiresz + wire)))"

text \<open>
  Second loop: what to allocate and what to read. Only the current field \<open>cur\<close> may be
  inspected (through \<open>p\<close>). \<open>None\<close> is a field announced as too large.
\<close>

fun sizes_left ::
    "build \<Rightarrow> net_struct \<Rightarrow> nat \<Rightarrow> ptr \<Rightarrow> nat list \<Rightarrow> bool \<Rightarrow> nat \<Rightarrow> nat \<Rightarrow> (nat \<times> nat) option res" where
  "sizes_left B ns cur p [] fixedsz allocsz readsz = Inr (Some (allocsz, readsz))"
| "sizes_left B ns cur p (i # is) fixedsz allocsz readsz =
     bindE (calc_field_sz B ns i (if i = cur then p else Null)) (\<lambda>(known, alloc, wire).
     if wire = size_max then Inr None
     else sizes_left B ns cur p is (fixedsz \<and> known) (allocsz + alloc)
            (if fixedsz \<and> known then readsz + wire else readsz))"

section \<open>Decrypting what a read call returned\<close>

text \<open>
  The inner \<open>do ... while (true)\<close>: \<open>data\<close> is the buffer the socket filled, \<open>nread\<close> what is left
  of it from \<open>wirepos\<close> on, \<open>mempos\<close> the position in the message. The result says whether the
  message is complete.
\<close>

function decrypt_fields ::
    "build \<Rightarrow> keystream \<Rightarrow> net_struct \<Rightarrow> byte list \<Rightarrow> nat \<Rightarrow> nat \<Rightarrow> nat \<Rightarrow> io_read \<Rightarrow> evp
     \<Rightarrow> (bool \<times> io_read \<times> evp) res" where
  "decrypt_fields B ks ns data mempos wirepos nread st dec =
     bindE (calc_field_sz B ns (rd_field st) (buf_ptr (rd_buf st) mempos)) (\<lambda>(known, field_memsz, field_wiresz).
     bindE (assertd B known) (\<lambda>_.
     let mempos' = mempos + rd_offset st;
         field_nread = min field_wiresz nread;
         plain = fst (evp_update ks dec (take field_nread (drop wirepos data)));
         dec' = snd (evp_update ks dec (take field_nread (drop wirepos data)))
     in
     bindE (case rd_buf st of None \<Rightarrow> Inl NullDeref | Some m \<Rightarrow> mem_write m mempos' plain) (\<lambda>m'.
     bindE (assertd B (length plain = field_nread)) (\<lambda>_.
     let st' = st\<lparr>rd_buf := Some m'\<rparr>; nread' = nread - field_nread; wirepos' = wirepos + field_nread
     in if field_nread < field_wiresz then
          bindE (assertd B (nread' = 0)) (\<lambda>_.
          Inr (False, st'\<lparr>rd_offset := rd_offset st + field_nread\<rparr>, dec'))
        else if Suc (rd_field st) = ns_size ns then
          bindE (assertd B (nread' = 0)) (\<lambda>_.
          Inr (True, st'\<lparr>rd_field := Suc (rd_field st)\<rparr>, dec'))
        else decrypt_fields B ks ns data (mempos' + field_memsz) wirepos' nread'
               (st'\<lparr>rd_field := Suc (rd_field st), rd_offset := 0\<rparr>) dec'))))"
  by pat_completeness auto
termination
  by (relation "measure (\<lambda>(B, ks, ns, data, mempos, wirepos, nread, st, dec). ns_size ns - rd_field st)")
    (auto dest!: calc_field_sz_in_range)

declare decrypt_fields.simps [simp del]

section \<open>Passes over the socket\<close>

datatype 'a pass = Returned bool 'a | Again 'a

definition resume_read_pass :: "build \<Rightarrow> keystream \<Rightarrow> client_base \<Rightarrow> client_base pass res" where
  "resume_read_pass B ks c =
     (let st = cb_read c in
      bindE (case rd_struct st of None \<Rightarrow> Inl NullDeref | Some ns \<Rightarrow> Inr ns) (\<lambda>ns.
      bindE (sizes_read B ns (rd_buf st) [0 ..< rd_field st] 0 0) (\<lambda>(memsz, wiresz).
      bindE (sizes_left B ns (rd_field st) (buf_ptr (rd_buf st) memsz)
               [rd_field st ..< ns_size ns] True memsz 0) (\<lambda>sizes.
      case sizes of
        None \<Rightarrow> Inr (Returned False (c\<lparr>cb_sock := shut (cb_sock c)\<rparr>))
      | Some (allocsz, readsz0) \<Rightarrow>
          bindE (alloc_buf allocsz False st) (\<lambda>st1.
          let c1 = c\<lparr>cb_read := st1\<rparr>; readsz = readsz0 - min readsz0 (rd_offset st1)
          in if readsz = 0 then Inr (Again c1)
             else case sock_read readsz (cb_sock c1) of ((ok, cnt), data, so) \<Rightarrow>
               if \<not> ok then
                 Inr (Returned False (c1\<lparr>cb_sock := (if cnt = size_max then shut so else so)\<rparr>))
               else
                 bindE (decrypt_fields B ks ns data memsz 0 cnt st1 (cb_decrypt c1)) (\<lambda>(complete, st2, dec).
                 let c2 = c1\<lparr>cb_sock := so, cb_read := st2, cb_decrypt := dec\<rparr>
                 in Inr (if complete then Returned True c2 else Again c2)))))))"

partial_function (option) resume_read ::
    "build \<Rightarrow> keystream \<Rightarrow> client_base \<Rightarrow> (bool \<times> client_base) res option" where
  "resume_read B ks c =
     (case resume_read_pass B ks c of
        Inl e \<Rightarrow> Some (Inl e)
      | Inr r \<Rightarrow> (case r of Returned b c' \<Rightarrow> Some (Inr (b, c')) | Again c' \<Rightarrow> resume_read B ks c'))"

declare resume_read.simps [code]

definition handle_read ::
    "build \<Rightarrow> keystream \<Rightarrow> client_base \<Rightarrow> (byte list option \<times> client_base) res option" where
  "handle_read B ks c =
     (case resume_read B ks c of
        None \<Rightarrow> None
      | Some (Inl e) \<Rightarrow> Some (Inl e)
      | Some (Inr (complete, c')) \<Rightarrow>
          (if complete then
             Some (Inr (rd_buf (cb_read c'),
                        c'\<lparr>cb_read := (cb_read c')\<lparr>rd_field := 0, rd_offset := 0, rd_struct := None,
                                                   rd_buf := None\<rparr>\<rparr>))
           else Some (Inr (None, c'))))"

section \<open>Runs of fixed-size fields\<close>

definition fixed_upto :: "net_struct \<Rightarrow> nat \<Rightarrow> bool" where
  "fixed_upto ns v \<longleftrightarrow> v \<le> ns_size ns \<and> field_off ns v < size_max \<and>
     (\<forall>i<v. fixed_field (ns_fields ns ! i) \<and> 0 < field_sz (ns_fields ns ! i))"

lemma fixed_uptoD:
  assumes "fixed_upto ns v" "i < v"
  shows "i < ns_size ns" "fixed_field (ns_fields ns ! i)" "0 < field_sz (ns_fields ns ! i)"
    "field_off ns (Suc i) = field_off ns i + field_sz (ns_fields ns ! i)"
    "field_sz (ns_fields ns ! i) < size_max"
proof -
  show i: "i < ns_size ns" "fixed_field (ns_fields ns ! i)" "0 < field_sz (ns_fields ns ! i)"
    using assms by (auto simp: fixed_upto_def)
  then show s: "field_off ns (Suc i) = field_off ns i + field_sz (ns_fields ns ! i)"
    by (simp add: field_off_Suc)
  have "field_off ns (Suc i) \<le> field_off ns v" using assms(2) by (intro field_off_mono) simp
  with s assms(1) show "field_sz (ns_fields ns ! i) < size_max" by (simp add: fixed_upto_def)
qed

lemma fixed_upto_calc:
  "fixed_upto ns v \<Longrightarrow> i < v \<Longrightarrow> calc_field_sz B ns i p =
     Inr (True, field_sz (ns_fields ns ! i), field_sz (ns_fields ns ! i))"
  using fixed_uptoD [of ns v i] by (simp add: calc_field_sz_fixed)

lemma fixed_upto_off_less:
  assumes "fixed_upto ns v" "i < j" "j \<le> v" shows "field_off ns i < field_off ns j"
proof -
  have "field_off ns (Suc i) \<le> field_off ns j" using assms(2) by (intro field_off_mono) simp
  moreover have "i < v" using assms(2,3) by simp
  ultimately show ?thesis using fixed_uptoD(3,4) [OF assms(1), of i] by linarith
qed

lemma sizes_read_fixed:
  assumes "fixed_upto ns v" "k \<le> v" "i \<le> k"
  shows "sizes_read B ns buf [i ..< k] memsz wiresz =
    Inr (memsz + (field_off ns k - field_off ns i), wiresz + (field_off ns k - field_off ns i))"
  using assms(3)
proof (induction "k - i" arbitrary: i memsz wiresz)
  case 0
  then show ?case by simp
next
  case (Suc n)
  then have "i < k" by simp
  then have "[i ..< k] = i # [Suc i ..< k]" by (simp add: upt_conv_Cons)
  moreover have "field_off ns (Suc i) \<le> field_off ns k" using \<open>i < k\<close> by (intro field_off_mono) simp
  ultimately show ?case
    using Suc fixed_uptoD [OF assms(1), of i] \<open>i < k\<close> assms(2)
    by (simp add: fixed_upto_calc [OF assms(1)])
qed

lemma sizes_left_fixed:
  assumes "fixed_upto ns v" "k \<le> v" "i \<le> v"
  shows "sizes_left B ns cur p ([i ..< v] @ is) True a r =
    sizes_left B ns cur p is True (a + (field_off ns v - field_off ns i)) (r + (field_off ns v - field_off ns i))"
  using assms(3)
proof (induction "v - i" arbitrary: i a r)
  case 0
  then show ?case by simp
next
  case (Suc n)
  then have "i < v" by simp
  then have "[i ..< v] = i # [Suc i ..< v]" by (simp add: upt_conv_Cons)
  moreover have "field_off ns (Suc i) \<le> field_off ns v" using \<open>i < v\<close> by (intro field_off_mono) simp
  ultimately show ?case
    using Suc fixed_uptoD [OF assms(1), of i] \<open>i < v\<close>
    by (simp add: fixed_upto_calc [OF assms(1)])
qed

section \<open>One field of a read\<close>

lemma decrypt_fields_whole:
  assumes "calc_field_sz B ns (rd_field st) (buf_ptr (Some m) mempos) = Inr (True, msz, w)"
    and "rd_buf st = Some m" "rd_offset st = 0" "w \<le> nread" "mempos + w \<le> length m"
    and "wirepos + nread = length data" "Suc (rd_field st) < ns_size ns"
    and "pt = evp_update ks dec (take w (drop wirepos data))"
  shows "decrypt_fields B ks ns data mempos wirepos nread st dec =
    decrypt_fields B ks ns data (mempos + msz) (wirepos + w) (nread - w)
      (st\<lparr>rd_buf := Some (patch mempos (fst pt) m), rd_field := Suc (rd_field st), rd_offset := 0\<rparr>) (snd pt)"
proof -
  have len: "length (fst pt) = w" "min w nread = w" using assms by auto
  show ?thesis
    using assms(1-7) len unfolding assms(8)
    by (subst decrypt_fields.simps) (simp add: Let_def mem_write_in del: length_take)
qed

lemma decrypt_fields_last:
  assumes "calc_field_sz B ns (rd_field st) (buf_ptr (Some m) mempos) = Inr (True, msz, nread)"
    and "rd_buf st = Some m" "rd_offset st = 0" "mempos + nread \<le> length m"
    and "wirepos + nread = length data" "Suc (rd_field st) = ns_size ns"
    and "pt = evp_update ks dec (drop wirepos data)"
  shows "decrypt_fields B ks ns data mempos wirepos nread st dec =
    Inr (True, st\<lparr>rd_field := ns_size ns, rd_buf := Some (patch mempos (fst pt) m)\<rparr>, snd pt)"
proof -
  have len: "length (fst pt) = nread" "take nread (drop wirepos data) = drop wirepos data"
    using assms by auto
  show ?thesis
    using assms(1-6) len unfolding assms(7)
    by (subst decrypt_fields.simps) (simp add: Let_def mem_write_in)
qed

lemma decrypt_fields_partial:
  assumes "calc_field_sz B ns (rd_field st) (buf_ptr (Some m) mempos) = Inr (True, msz, w)"
    and "rd_buf st = Some m" "nread < w" "mempos + rd_offset st + nread \<le> length m"
    and "wirepos + nread = length data"
    and "pt = evp_update ks dec (drop wirepos data)"
  shows "decrypt_fields B ks ns data mempos wirepos nread st dec =
    Inr (False, st\<lparr>rd_offset := rd_offset st + nread,
                   rd_buf := Some (patch (mempos + rd_offset st) (fst pt) m)\<rparr>, snd pt)"
proof -
  have len: "length (fst pt) = nread" "take nread (drop wirepos data) = drop wirepos data"
    using assms by auto
  show ?thesis
    using assms(1-5) len unfolding assms(6)
    by (subst decrypt_fields.simps) (simp add: Let_def mem_write_in)
qed

text \<open>A whole run of fixed-size fields at once.\<close>

lemma decrypt_fields_run:
  assumes "fixed_upto ns v" "k \<le> j" "j \<le> v" "j < ns_size ns"
    and "rd_buf st = Some m" "rd_offset st = 0" "rd_field st = k"
    and "D = field_off ns j - field_off ns k" "mempos + D \<le> length m"
    and "D \<le> nread" "wirepos + nread = length data"
    and "pt = evp_update ks dec (take D (drop wirepos data))"
  shows "decrypt_fields B ks ns data mempos wirepos nread st dec =
    decrypt_fields B ks ns data (mempos + D) (wirepos + D) (nread - D)
      (st\<lparr>rd_buf := Some (patch mempos (fst pt) m), rd_field := j, rd_offset := 0\<rparr>) (snd pt)"
  using assms
proof (induction "j - k" arbitrary: k st m mempos wirepos nread dec D pt)
  case 0
  then have "k = j" "D = 0" by auto
  with 0 show ?case by (cases st) (simp add: evp.upd_Nil)
next
  case (Suc n)
  let ?w = "field_sz (ns_fields ns ! k)"
  let ?p1 = "evp_update ks dec (take ?w (drop wirepos data))"
  let ?m1 = "patch mempos (fst ?p1) m"
  let ?st1 = "st\<lparr>rd_buf := Some ?m1, rd_field := Suc k, rd_offset := 0\<rparr>"
  let ?D1 = "field_off ns j - field_off ns (Suc k)"
  let ?p2 = "evp_update ks (snd ?p1) (take ?D1 (drop (wirepos + ?w) data))"
  have kj: "k < j" using Suc by simp
  have le: "field_off ns (Suc k) \<le> field_off ns j" using kj by (intro field_off_mono) simp
  have off: "field_off ns (Suc k) = field_off ns k + ?w"
    using fixed_uptoD [OF Suc(3), of k] kj Suc(5) by simp
  have D: "D = ?w + ?D1" using le off Suc(10) by simp
  have calc: "calc_field_sz B ns (rd_field st) (buf_ptr (Some m) mempos) = Inr (True, ?w, ?w)"
    using Suc(3,5,9) kj by (simp add: fixed_upto_calc)
  have l1: "length (fst ?p1) = ?w" using Suc(12,13) D by simp
  have step: "decrypt_fields B ks ns data mempos wirepos nread st dec =
      decrypt_fields B ks ns data (mempos + ?w) (wirepos + ?w) (nread - ?w) ?st1 (snd ?p1)"
    using decrypt_fields_whole [OF calc Suc(7,8) _ _ Suc(13) _ refl] Suc(6,9,11,12) kj D by simp
  have run: "decrypt_fields B ks ns data (mempos + ?w) (wirepos + ?w) (nread - ?w) ?st1 (snd ?p1) =
      decrypt_fields B ks ns data (mempos + ?w + ?D1) (wirepos + ?w + ?D1) (nread - ?w - ?D1)
        (?st1\<lparr>rd_buf := Some (patch (mempos + ?w) (fst ?p2) ?m1), rd_field := j, rd_offset := 0\<rparr>) (snd ?p2)"
    by (rule Suc(1) [OF _ Suc(3)])
      (use Suc(2,5,6,8,11,12,13) kj D l1 in simp_all)
  have split: "take D (drop wirepos data) = take ?w (drop wirepos data) @ take ?D1 (drop (wirepos + ?w) data)"
    unfolding D by (simp only: take_add drop_drop add.commute [of wirepos])
  have pt: "fst pt = fst ?p1 @ fst ?p2" "snd pt = snd ?p2"
    by (simp_all only: Suc(14) split evp.out_append evp.state_append)
  have "patch (mempos + ?w) (fst ?p2) ?m1 = patch mempos (fst pt) m"
    using patch_append [of mempos "fst ?p1" "fst ?p2" m] l1 Suc(11,12,13) D pt(1) by simp
  then show ?case using step run pt(2) D by (simp add: add.assoc)
qed


section \<open>Buffers of a read\<close>

definition grow :: "nat \<Rightarrow> byte list option \<Rightarrow> byte list" where
  "grow A buf = (case buf of None \<Rightarrow> replicate A 0 | Some m \<Rightarrow> m @ replicate (A - length m) 0)"

definition buf_fits :: "nat \<Rightarrow> io_read \<Rightarrow> bool" where
  "buf_fits A st \<longleftrightarrow>
     (case rd_buf st of None \<Rightarrow> True | Some m \<Rightarrow> length m = rd_bufsz st \<and> length m \<le> A)"

lemma length_grow [simp]: "buf_fits A st \<Longrightarrow> length (grow A (rd_buf st)) = A"
  by (auto simp: grow_def buf_fits_def split: option.splits)

lemma alloc_buf_grow:
  "buf_fits (alloc_size n e) st \<Longrightarrow> alloc_buf n e st =
     Inr (st\<lparr>rd_bufsz := alloc_size n e, rd_buf := Some (grow (alloc_size n e) (rd_buf st))\<rparr>)"
  by (auto simp: alloc_buf_def buf_fits_def grow_def Let_def mem_read_in mem_write_in patch_def
      split: option.splits)

lemma alloc_size_ge: "n + 24 < alloc_size n False" "alloc_size n False \<le> n + 32"
  by (auto simp: alloc_size_def)

text \<open>A read that stopped at a field boundary, ready to go on.\<close>

definition read_at :: "net_struct \<Rightarrow> nat \<Rightarrow> nat \<Rightarrow> io_read \<Rightarrow> bool" where
  "read_at ns v k st \<longleftrightarrow> rd_struct st = Some ns \<and> rd_field st = k \<and> k \<le> v \<and> rd_offset st = 0 \<and>
     (rd_buf st = None \<longrightarrow> k = 0) \<and> buf_fits (alloc_size (field_off ns v) False) st"

text \<open>A pass over a message all of whose unread fields have a fixed size.\<close>

lemma fixed_pass:
  assumes "fixed_upto ns v" "v = ns_size ns" "read_at ns v k (cb_read c)" "k < v"
    and "A = alloc_size (field_off ns v) False" "R = field_off ns v - field_off ns k"
    and "st1 = (cb_read c)\<lparr>rd_bufsz := A, rd_buf := Some (grow A (rd_buf (cb_read c)))\<rparr>"
  shows "resume_read_pass B ks c =
    (case sock_read R (cb_sock c) of ((ok, cnt), data, so) \<Rightarrow>
       if \<not> ok then
         Inr (Returned False (c\<lparr>cb_sock := (if cnt = size_max then shut so else so), cb_read := st1\<rparr>))
       else
         bindE (decrypt_fields B ks ns data (field_off ns k) 0 cnt st1 (cb_decrypt c)) (\<lambda>(complete, st2, dec).
           Inr (if complete then Returned True (c\<lparr>cb_sock := so, cb_read := st2, cb_decrypt := dec\<rparr>)
                else Again (c\<lparr>cb_sock := so, cb_read := st2, cb_decrypt := dec\<rparr>))))"
proof -
  have left: "sizes_left B ns k (buf_ptr (rd_buf (cb_read c)) (field_off ns k)) [k ..< ns_size ns] True (field_off ns k) 0 =
      Inr (Some (field_off ns v, R))"
    using sizes_left_fixed [OF assms(1), of k k B k "buf_ptr (rd_buf (cb_read c)) (field_off ns k)" "[]"]
      assms(2,4,6) field_off_mono [of k v ns] by simp
  have R: "0 < R" using fixed_upto_off_less [OF assms(1), of k v] assms(4,6) by simp
  show ?thesis
    using assms(3,4,7) R left sizes_read_fixed [OF assms(1), of k 0]
    by (simp add: resume_read_pass_def read_at_def alloc_buf_grow assms(5) Let_def split: prod.splits)
qed

text \<open>A run that stops \<open>r\<close> bytes into field \<open>j\<close>, and one that finishes the message.\<close>

lemma evp_split:
  assumes "pt = evp_update ks dec data" "p1 = evp_update ks dec (take n data)"
    and "p2 = evp_update ks (snd p1) (drop n data)"
  shows "fst pt = fst p1 @ fst p2" "snd pt = snd p2"
  using evp.out_append [of ks dec "take n data" "drop n data"]
    evp.state_append [of ks dec "take n data" "drop n data"] assms by simp_all

lemma decrypt_fields_stop:
  assumes "fixed_upto ns v" "v \<le> ns_size ns" "k \<le> j" "j < v"
    and "rd_buf st = Some m" "rd_offset st = 0" "rd_field st = k"
    and "length data = field_off ns j - field_off ns k + r" "r < field_sz (ns_fields ns ! j)"
    and "mempos + length data \<le> length m" "pt = evp_update ks dec data"
  shows "decrypt_fields B ks ns data mempos 0 (length data) st dec =
    Inr (False, st\<lparr>rd_buf := Some (patch mempos (fst pt) m), rd_field := j, rd_offset := r\<rparr>, snd pt)"
proof -
  define D where "D = field_off ns j - field_off ns k"
  define p1 where "p1 = evp_update ks dec (take D data)"
  define p2 where "p2 = evp_update ks (snd p1) (drop D data)"
  define m1 where "m1 = patch mempos (fst p1) m"
  define st1 where "st1 = st\<lparr>rd_buf := Some m1, rd_field := j, rd_offset := 0\<rparr>"
  have len: "length data = D + r" using assms(8) by (simp add: D_def)
  have l1: "length (fst p1) = D" "length (fst p2) = r" using len by (simp_all add: p1_def p2_def)
  have m1: "length m1 = length m" using l1 assms(10) len by (simp add: m1_def)
  have st1: "rd_buf st1 = Some m1" "rd_offset st1 = 0" "rd_field st1 = j" by (simp_all add: st1_def)
  have jn: "j < ns_size ns" "j \<le> v" using assms(2,4) by simp_all
  have run: "decrypt_fields B ks ns data mempos 0 (length data) st dec =
      decrypt_fields B ks ns data (mempos + D) (0 + D) (length data - D) st1 (snd p1)"
    unfolding st1_def m1_def
    by (rule decrypt_fields_run [OF assms(1,3) jn(2,1) assms(5,6,7) D_def])
      (use len assms(10) in \<open>simp_all add: p1_def\<close>)
  have stop: "decrypt_fields B ks ns data (mempos + D) D r st1 (snd p1) =
    Inr (False, st1\<lparr>rd_offset := rd_offset st1 + r,
                   rd_buf := Some (patch (mempos + D + rd_offset st1) (fst p2) m1)\<rparr>, snd p2)"
    by (rule decrypt_fields_partial [where msz = "field_sz (ns_fields ns ! j)"])
      (use st1 m1 len assms(1,4,9,10) in \<open>simp_all add: fixed_upto_calc p2_def\<close>)
  have "patch (mempos + D) (fst p2) m1 = patch mempos (fst pt) m"
    using patch_append [of mempos "fst p1" "fst p2" m] l1 assms(10) len
      evp_split(1) [OF assms(11) p1_def p2_def] by (simp add: m1_def)
  then show ?thesis
    using run stop len st1 evp_split(2) [OF assms(11) p1_def p2_def] by (simp add: st1_def)
qed

lemma decrypt_fields_finish:
  assumes "fixed_upto ns v" "v = ns_size ns" "k < v"
    and "rd_buf st = Some m" "rd_offset st = 0" "rd_field st = k"
    and "length data = field_off ns v - field_off ns k"
    and "mempos + length data \<le> length m" "pt = evp_update ks dec data"
  shows "decrypt_fields B ks ns data mempos 0 (length data) st dec =
    Inr (True, st\<lparr>rd_buf := Some (patch mempos (fst pt) m), rd_field := v, rd_offset := 0\<rparr>, snd pt)"
proof -
  define l where "l = v - 1"
  have l: "Suc l = v" "k \<le> l" "l < v" "l \<le> v" using assms(3) by (auto simp: l_def)
  define D where "D = field_off ns l - field_off ns k"
  define r where "r = field_sz (ns_fields ns ! l)"
  define p1 where "p1 = evp_update ks dec (take D data)"
  define p2 where "p2 = evp_update ks (snd p1) (drop D data)"
  define m1 where "m1 = patch mempos (fst p1) m"
  define st1 where "st1 = st\<lparr>rd_buf := Some m1, rd_field := l, rd_offset := 0\<rparr>"
  have len: "length data = D + r"
    using assms(7) fixed_uptoD(4) [OF assms(1) l(3)] l field_off_mono [OF l(2), of ns]
    by (simp add: D_def r_def)
  have l1: "length (fst p1) = D" "length (fst p2) = r" using len by (simp_all add: p1_def p2_def)
  have m1: "length m1 = length m" using l1 assms(8) len by (simp add: m1_def)
  have st1: "rd_buf st1 = Some m1" "rd_offset st1 = 0" "rd_field st1 = l" by (simp_all add: st1_def)
  have run: "decrypt_fields B ks ns data mempos 0 (length data) st dec =
      decrypt_fields B ks ns data (mempos + D) (0 + D) (length data - D) st1 (snd p1)"
    unfolding st1_def m1_def
    by (rule decrypt_fields_run [OF assms(1) l(2,4) _ assms(4,5,6) D_def])
      (use len assms(2,8) l in \<open>simp_all add: p1_def\<close>)
  have stop: "decrypt_fields B ks ns data (mempos + D) D r st1 (snd p1) =
    Inr (True, st1\<lparr>rd_field := ns_size ns, rd_buf := Some (patch (mempos + D) (fst p2) m1)\<rparr>, snd p2)"
    by (rule decrypt_fields_last [where msz = r])
      (use st1 m1 len assms(1,2,8) l in \<open>simp_all add: fixed_upto_calc p2_def r_def\<close>)
  have "patch (mempos + D) (fst p2) m1 = patch mempos (fst pt) m"
    using patch_append [of mempos "fst p1" "fst p2" m] l1 assms(8) len
      evp_split(1) [OF assms(9) p1_def p2_def] by (simp add: m1_def)
  then show ?thesis
    using run stop len st1 evp_split(2) [OF assms(9) p1_def p2_def] assms(2) by (simp add: st1_def)
qed

section \<open>Delivery of fixed-size messages\<close>

text \<open>The connection after \<open>data\<close> was taken in at the start of field \<open>k\<close>.\<close>

definition took ::
    "keystream \<Rightarrow> nat \<Rightarrow> nat \<Rightarrow> byte list \<Rightarrow> recv_ev list \<Rightarrow> nat \<Rightarrow> nat \<Rightarrow> client_base \<Rightarrow> client_base" where
  "took ks A off data evs j r c =
     c\<lparr>cb_sock := (cb_sock c)\<lparr>so_in := evs\<rparr>,
       cb_read := (cb_read c)\<lparr>rd_bufsz := A,
         rd_buf := Some (patch off (fst (evp_update ks (cb_decrypt c) data)) (grow A (rd_buf (cb_read c)))),
         rd_field := j, rd_offset := r\<rparr>,
       cb_decrypt := snd (evp_update ks (cb_decrypt c) data)\<rparr>"

lemma sock_read_chunk:
  "so_in s = Rchunk bs # evs \<Longrightarrow> sock_read n s =
     ((True, min (length bs) n), take n bs,
      s\<lparr>so_in := (if length bs \<le> n then evs else Rchunk (drop n bs) # evs)\<rparr>)"
  by (simp add: sock_read_def sys_read_def)

lemma alloc_size_bound: "n \<le> alloc_size n False"
  by (simp add: alloc_size_def)

lemma fixed_pass_stop:
  assumes "fixed_upto ns v" "v = ns_size ns" "read_at ns v k (cb_read c)"
    and "A = alloc_size (field_off ns v) False"
    and "so_in (cb_sock c) = Rchunk bs # evs" "bs \<noteq> []"
    and "length bs = field_off ns j - field_off ns k + r" "k \<le> j" "j < v" "r < field_sz (ns_fields ns ! j)"
  shows "resume_read_pass B ks c = Inr (Again (took ks A (field_off ns k) bs evs j r c))"
proof -
  let ?R = "field_off ns v - field_off ns k"
  define st1 where "st1 = (cb_read c)\<lparr>rd_bufsz := A, rd_buf := Some (grow A (rd_buf (cb_read c)))\<rparr>"
  have kv: "k < v" using assms(8,9) by simp
  have "field_off ns (Suc j) \<le> field_off ns v" using assms(9) by (intro field_off_mono) simp
  moreover have "field_off ns k \<le> field_off ns j" using assms(8) by (rule field_off_mono)
  ultimately have lt: "length bs < ?R" "field_off ns k + length bs \<le> field_off ns v"
    using assms(7,10) fixed_uptoD(4) [OF assms(1,9)] by simp_all
  have rd: "rd_offset st1 = 0" "rd_field st1 = k" "rd_buf st1 = Some (grow A (rd_buf (cb_read c)))"
      "length (grow A (rd_buf (cb_read c))) = A"
    using assms(3,4) by (simp_all add: st1_def read_at_def)
  have fit: "field_off ns k + length bs \<le> A"
    using lt(2) alloc_size_bound [of "field_off ns v"] assms(4) by simp
  have dec: "decrypt_fields B ks ns bs (field_off ns k) 0 (length bs) st1 (cb_decrypt c) =
      Inr (False, st1\<lparr>rd_buf := Some (patch (field_off ns k) (fst (evp_update ks (cb_decrypt c) bs))
             (grow A (rd_buf (cb_read c)))), rd_field := j, rd_offset := r\<rparr>, snd (evp_update ks (cb_decrypt c) bs))"
    by (rule decrypt_fields_stop [OF assms(1) _ assms(8,9) rd(3,1,2) assms(7,10) _ refl])
      (use assms(2) rd(4) fit in simp_all)
  show ?thesis
    using dec lt(1) by (simp add: fixed_pass [OF assms(1,2,3) kv assms(4) refl st1_def]
        sock_read_chunk [OF assms(5)] took_def st1_def)
qed

lemma fixed_pass_finish:
  assumes "fixed_upto ns v" "v = ns_size ns" "read_at ns v k (cb_read c)" "k < v"
    and "A = alloc_size (field_off ns v) False" "R = field_off ns v - field_off ns k"
    and "so_in (cb_sock c) = Rchunk bs # evs" "R \<le> length bs"
  shows "resume_read_pass B ks c = Inr (Returned True (took ks A (field_off ns k) (take R bs)
    (if length bs = R then evs else Rchunk (drop R bs) # evs) v 0 c))"
proof -
  define st1 where "st1 = (cb_read c)\<lparr>rd_bufsz := A, rd_buf := Some (grow A (rd_buf (cb_read c)))\<rparr>"
  have rd: "rd_offset st1 = 0" "rd_field st1 = k" "rd_buf st1 = Some (grow A (rd_buf (cb_read c)))"
      "length (grow A (rd_buf (cb_read c))) = A"
    using assms(3,5) by (simp_all add: st1_def read_at_def)
  have len: "length (take R bs) = R" using assms(8) by simp
  have fit: "field_off ns k + R \<le> A"
    using alloc_size_bound [of "field_off ns v"] field_off_mono [of k v ns] assms(4,5,6) by simp
  have dec: "decrypt_fields B ks ns (take R bs) (field_off ns k) 0 (length (take R bs)) st1 (cb_decrypt c) =
      Inr (True, st1\<lparr>rd_buf := Some (patch (field_off ns k) (fst (evp_update ks (cb_decrypt c) (take R bs)))
             (grow A (rd_buf (cb_read c)))), rd_field := v, rd_offset := 0\<rparr>,
           snd (evp_update ks (cb_decrypt c) (take R bs)))"
    by (rule decrypt_fields_finish [OF assms(1,2,4) rd(3,1,2) _ _ refl])
      (use len assms(6) rd(4) fit in simp_all)
  show ?thesis
    using dec assms(8) len
    by (simp add: fixed_pass [OF assms(1,2,3,4,5,6) st1_def] sock_read_chunk [OF assms(7)] took_def st1_def
        min_absorb2)
qed

text \<open>Chunks that all end between two fields, the last one possibly longer than needed.\<close>

fun boundary_cuts :: "net_struct \<Rightarrow> nat \<Rightarrow> byte list list \<Rightarrow> nat \<Rightarrow> bool" where
  "boundary_cuts ns k [] j = (k = j)"
| "boundary_cuts ns k (b # bs) j =
     (\<exists>i \<in> set [Suc k ..< ns_size ns]. length b = field_off ns i - field_off ns k \<and> boundary_cuts ns i bs j)"

lemma took_read_at:
  assumes "read_at ns v k (cb_read c)" "A = alloc_size (field_off ns v) False" "j \<le> v"
    and "field_off ns k + length data \<le> A"
  shows "read_at ns v j (cb_read (took ks A (field_off ns k) data evs j 0 c))"
  using assms by (auto simp: read_at_def took_def buf_fits_def)

lemma grow_same: "length m = A \<Longrightarrow> grow A (Some m) = m"
  by (simp add: grow_def)

lemma took_took:
  assumes "buf_fits A (cb_read c)" "off + length as + length bs \<le> A"
  shows "took ks A (off + length as) bs evs' j' r' (took ks A off as evs j r c) =
    took ks A off (as @ bs) evs' j' r' c"
  using assms patch_append [of off "fst (evp_update ks (cb_decrypt c) as)"
      "fst (evp_update ks (snd (evp_update ks (cb_decrypt c) as)) bs)" "grow A (rd_buf (cb_read c))"]
  by (simp add: took_def grow_same evp.out_append evp.state_append)

lemma resume_cuts:
  assumes "fixed_upto ns v" "v = ns_size ns" "A = alloc_size (field_off ns v) False"
  shows "read_at ns v k (cb_read c) \<Longrightarrow> boundary_cuts ns k cs j \<Longrightarrow> cs \<noteq> [] \<Longrightarrow>
    so_in (cb_sock c) = map Rchunk cs @ evs \<Longrightarrow>
    length (concat cs) = field_off ns j - field_off ns k \<and> k < j \<and> j < v \<and>
    resume_read B ks c = resume_read B ks (took ks A (field_off ns k) (concat cs) evs j 0 c)"
proof (induction cs arbitrary: k c)
  case Nil
  then show ?case by simp
next
  case (Cons b bs)
  from Cons.prems(2) obtain i where i: "k < i" "i < v" "length b = field_off ns i - field_off ns k"
      "boundary_cuts ns i bs j"
    using assms(2) by (auto simp: Suc_le_eq)
  have ki: "field_off ns k < field_off ns i" using fixed_upto_off_less [OF assms(1) i(1)] i(2) by simp
  let ?c1 = "took ks A (field_off ns k) b (map Rchunk bs @ evs) i 0 c"
  have iA: "field_off ns i \<le> A"
    using field_off_mono [of i v ns] i(2) alloc_size_bound [of "field_off ns v"] assms(3) by simp
  have pass: "resume_read_pass B ks c = Inr (Again ?c1)"
    by (rule fixed_pass_stop [OF assms(1,2) Cons.prems(1) assms(3)])
      (use Cons.prems(4) i ki fixed_uptoD(3) [OF assms(1) i(2)] in auto)
  have at1: "read_at ns v i (cb_read ?c1)"
    by (rule took_read_at [OF Cons.prems(1) assms(3)]) (use i ki iA in simp_all)
  have res: "resume_read B ks c = resume_read B ks ?c1"
    by (subst resume_read.simps) (simp add: pass)
  have fits: "buf_fits A (cb_read c)" using Cons.prems(1) assms(3) by (simp add: read_at_def)
  show ?case
  proof (cases "bs = []")
    case True
    then show ?thesis using i res by simp
  next
    case False
    have so: "so_in (cb_sock ?c1) = map Rchunk bs @ evs" by (simp add: took_def)
    note IH = Cons.IH [OF at1 i(4) False so]
    then have jA: "field_off ns j \<le> A"
      using field_off_mono [of j v ns] alloc_size_bound [of "field_off ns v"] assms(3) by simp
    have ij: "field_off ns i \<le> field_off ns j" using IH by (intro field_off_mono) simp
    have "took ks A (field_off ns i) (concat bs) evs j 0 ?c1 = took ks A (field_off ns k) (b @ concat bs) evs j 0 c"
      using took_took [OF fits, of "field_off ns k" b "concat bs"] i(3) ki ij IH jA by simp
    then show ?thesis using IH res i ki ij by simp
  qed
qed


text \<open>
  A message whose pieces are cut between fields arrives as sent: the buffer handed to the
  caller starts with the bytes read before and the decrypted rest.
\<close>

lemma resume_delivers:
  assumes "fixed_upto ns v" "v = ns_size ns" "A = alloc_size (field_off ns v) False"
    and "read_at ns v k (cb_read c)" "k < v" "cs = [] \<and> j = k \<or> cs \<noteq> [] \<and> boundary_cuts ns k cs j"
    and "so_in (cb_sock c) = map Rchunk cs @ Rchunk lst # evs"
    and "field_off ns v - field_off ns k = length (concat cs) + n" "n \<le> length lst"
  shows "resume_read B ks c = Some (Inr (True, took ks A (field_off ns k) (concat cs @ take n lst)
    (if length lst = n then evs else Rchunk (drop n lst) # evs) v 0 c))"
proof -
  have kv: "field_off ns k < field_off ns v" using fixed_upto_off_less [OF assms(1,5)] by simp
  have vA: "field_off ns v \<le> A" using alloc_size_bound [of "field_off ns v"] assms(3) by simp
  have fits: "buf_fits A (cb_read c)" using assms(3,4) by (simp add: read_at_def)
  show ?thesis
  proof (cases "cs = []")
    case True
    then show ?thesis
      using fixed_pass_finish [OF assms(1,2,4,5,3) refl, of lst evs B ks] assms(7,8,9)
      by (subst resume_read.simps) simp
  next
    case False
    let ?evs = "Rchunk lst # evs"
    let ?c1 = "took ks A (field_off ns k) (concat cs) ?evs j 0 c"
    have cuts: "boundary_cuts ns k cs j" using False assms(6) by simp
    note r = resume_cuts [OF assms(1,2,3,4) cuts False assms(7), of B ks]
    then have j: "k < j" "j < v" "length (concat cs) = field_off ns j - field_off ns k" by blast+
    have kj: "field_off ns k < field_off ns j" "field_off ns j < field_off ns v"
      using fixed_upto_off_less [OF assms(1)] j by simp_all
    have n: "n = field_off ns v - field_off ns j" using assms(8) j(3) kj by simp
    have at1: "read_at ns v j (cb_read ?c1)"
      by (rule took_read_at [OF assms(4,3)]) (use j kj vA in simp_all)
    have so: "so_in (cb_sock ?c1) = ?evs" by (simp add: took_def)
    have "resume_read B ks ?c1 = Some (Inr (True, took ks A (field_off ns j) (take n lst)
        (if length lst = n then evs else Rchunk (drop n lst) # evs) v 0 ?c1))"
      using fixed_pass_finish [OF assms(1,2) at1 j(2) assms(3) n so assms(9), of B ks]
      by (subst resume_read.simps) simp
    moreover have "took ks A (field_off ns j) (take n lst) evs' v 0 ?c1 =
        took ks A (field_off ns k) (concat cs @ take n lst) evs' v 0 c" for evs'
      using took_took [OF fits, of "field_off ns k" "concat cs" "take n lst" ks evs' v 0 ?evs j 0] j kj n vA assms(9)
      by simp
    ultimately show ?thesis using r by simp
  qed
qed

section \<open>Messages that end in a sized buffer\<close>

lemma sized_tail_off:
  assumes "sized_tail ns v" shows "field_off ns v = field_off ns (v - 1) + 4" "v < ns_size ns" "0 < v"
proof -
  have "Suc (v - 1) = v" "v - 1 < ns_size ns" using assms by (auto simp: sized_tail_def)
  then show "field_off ns v = field_off ns (v - 1) + 4"
    using field_off_Suc [of "v - 1" ns] assms by (simp add: sized_tail_def)
qed (use assms in \<open>auto simp: sized_tail_def\<close>)

text \<open>The size announced by the message in memory.\<close>

definition announced :: "net_struct \<Rightarrow> nat \<Rightarrow> byte list \<Rightarrow> nat" where
  "announced ns v m = tail_count (nf_type (ns_fields ns ! v)) (le_val (take 4 (drop (field_off ns v - 4) m)))"

lemma calc_announced:
  "sized_tail ns v \<Longrightarrow> field_off ns v \<le> length m \<Longrightarrow>
   calc_field_sz B ns v (At m (field_off ns v)) = Inr (True, 0, announced ns v m)"
  using sized_tail_off(1) [of ns v] by (simp add: calc_field_sz_tail announced_def)

lemma announced_prefix:
  assumes "sized_tail ns v" "field_off ns v \<le> length m" "take (field_off ns v) m' = take (field_off ns v) m"
  shows "announced ns v m' = announced ns v m"
proof -
  have "take 4 (drop (field_off ns v - 4) x) = drop (field_off ns v - 4) (take (field_off ns v) x)" for x :: "byte list"
    using sized_tail_off(1) [OF assms(1)] by (simp add: drop_take)
  then show ?thesis using assms(3) by (simp add: announced_def)
qed

lemma tail_prefix_pass:
  assumes "fixed_upto ns v" "sized_tail ns v" "read_at ns v k (cb_read c)" "k < v"
    and "A = alloc_size (field_off ns v) False" "R = field_off ns v - field_off ns k"
    and "so_in (cb_sock c) = Rchunk bs # evs" "R \<le> length bs"
    and "evs' = (if length bs = R then evs else Rchunk (drop R bs) # evs)"
    and "m = patch (field_off ns k) (fst (evp_update ks (cb_decrypt c) (take R bs))) (grow A (rd_buf (cb_read c)))"
  shows "resume_read_pass B ks c = Inr (
    if announced ns v m = 0 then Returned True (took ks A (field_off ns k) (take R bs) evs' (ns_size ns) 0 c)
    else Again (took ks A (field_off ns k) (take R bs) evs' v 0 c))"
proof -
  define st1 where "st1 = (cb_read c)\<lparr>rd_bufsz := A, rd_buf := Some (grow A (rd_buf (cb_read c)))\<rparr>"
  define pt where "pt = evp_update ks (cb_decrypt c) (take R bs)"
  define st2 where "st2 = st1\<lparr>rd_buf := Some m, rd_field := v, rd_offset := 0\<rparr>"
  have m: "m = patch (field_off ns k) (fst pt) (grow A (rd_buf (cb_read c)))" by (simp add: pt_def assms(10))
  have kv: "field_off ns k < field_off ns v" using fixed_upto_off_less [OF assms(1,4)] by simp
  have vA: "field_off ns v \<le> A" using alloc_size_bound [of "field_off ns v"] assms(5) by simp
  have vn: "v < ns_size ns" "Suc v = ns_size ns" using assms(2) by (auto simp: sized_tail_def)
  have rd: "rd_offset st1 = 0" "rd_field st1 = k" "rd_buf st1 = Some (grow A (rd_buf (cb_read c)))"
      "length (grow A (rd_buf (cb_read c))) = A"
    using assms(3,5) by (simp_all add: st1_def read_at_def)
  have lR: "length (take R bs) = R" "0 < R" "field_off ns k + R = field_off ns v"
    using assms(6,8) kv by simp_all
  have lm: "length m = A" using m lR rd(4) vA by (simp add: pt_def)
  have upt: "[k ..< ns_size ns] = [k ..< v] @ [v]"
    using upt_Suc_append [of k v] vn(2) assms(4) by simp
  have left: "sizes_left B ns k (buf_ptr (rd_buf (cb_read c)) (field_off ns k)) [k ..< ns_size ns] True (field_off ns k) 0 =
      Inr (Some (field_off ns v, R))"
    using sizes_left_fixed [OF assms(1), of k k B k "buf_ptr (rd_buf (cb_read c)) (field_off ns k)" "[v]"]
      assms(4,6) kv calc_field_sz_tail_Null [OF assms(2)] unfolding upt by simp
  have run: "decrypt_fields B ks ns (take R bs) (field_off ns k) 0 R st1 (cb_decrypt c) =
      decrypt_fields B ks ns (take R bs) (field_off ns v) R 0 st2 (snd pt)"
    using decrypt_fields_run [OF assms(1) _ _ vn(1) rd(3,1,2) assms(6), of "field_off ns k" R 0 "take R bs" pt ks "cb_decrypt c" B]
      assms(4) lR vA rd(4) by (simp add: pt_def st2_def m)
  have calc: "calc_field_sz B ns (rd_field st2) (buf_ptr (Some m) (field_off ns v)) = Inr (True, 0, announced ns v m)"
    using calc_announced [OF assms(2), of m B] lm vA by (simp add: st2_def buf_ptr_def)
  have stop: "decrypt_fields B ks ns (take R bs) (field_off ns v) R 0 st2 (snd pt) = Inr
      (if announced ns v m = 0 then (True, st2\<lparr>rd_field := ns_size ns, rd_buf := Some m\<rparr>, snd pt)
       else (False, st2\<lparr>rd_offset := 0, rd_buf := Some m\<rparr>, snd pt))"
  proof (cases "announced ns v m = 0")
    case True
    with calc decrypt_fields_last [of B ns st2 m "field_off ns v" 0 0 R "take R bs" _ ks "snd pt", OF _ _ _ _ _ _ refl]
    show ?thesis using vn lR lm vA by (simp add: st2_def evp.upd_Nil)
  next
    case False
    with calc decrypt_fields_partial [of B ns st2 m "field_off ns v" 0 "announced ns v m" 0 R "take R bs" _ ks "snd pt", OF _ _ _ _ _ refl]
    show ?thesis using lR lm vA by (simp add: st2_def evp.upd_Nil)
  qed
  have alloc: "alloc_buf (field_off ns v) False (cb_read c) = Inr st1"
    using alloc_buf_grow [of "field_off ns v" False "cb_read c"] assms(3,5) by (simp add: st1_def read_at_def)
  have sr: "sizes_read B ns (rd_buf (cb_read c)) [0..<k] 0 0 = Inr (field_off ns k, field_off ns k)"
    using sizes_read_fixed [OF assms(1), of k 0] assms(4) by simp
  show ?thesis
    using assms(3,8) run stop left alloc sr lR rd(1)
    by (simp add: resume_read_pass_def read_at_def Let_def sock_read_chunk [OF assms(7)] min_absorb2
        took_def st1_def st2_def m pt_def assms(9))
qed

text \<open>The pass that reads the buffer itself.\<close>

lemma tail_body_pass:
  assumes "fixed_upto ns v" "sized_tail ns v" "A = alloc_size (field_off ns v) False"
    and "rd_struct (cb_read c) = Some ns" "rd_field (cb_read c) = v" "rd_offset (cb_read c) = 0"
    and "rd_buf (cb_read c) = Some m" "rd_bufsz (cb_read c) = A" "length m = A"
    and "n = announced ns v m" "0 < n"
    and "so_in (cb_sock c) = Rchunk bs # evs" "n \<le> length bs"
    and "evs' = (if length bs = n then evs else Rchunk (drop n bs) # evs)"
  shows "resume_read_pass B ks c =
    (if n = size_max then Inr (Returned False (c\<lparr>cb_sock := shut (cb_sock c)\<rparr>))
     else if A < field_off ns v + n then Inl OutOfBounds
     else Inr (Returned True (took ks A (field_off ns v) (take n bs) evs' (ns_size ns) 0 c)))"
proof -
  define pt where "pt = evp_update ks (cb_decrypt c) (take n bs)"
  define st1 where "st1 = (cb_read c)\<lparr>rd_bufsz := A, rd_buf := Some m\<rparr>"
  have vA: "field_off ns v \<le> A" using alloc_size_bound [of "field_off ns v"] assms(3) by simp
  have vn: "v < ns_size ns" "Suc v = ns_size ns" "0 < v" using assms(2) by (auto simp: sized_tail_def)
  have calc: "calc_field_sz B ns v (buf_ptr (Some m) (field_off ns v)) = Inr (True, 0, n)"
    using calc_announced [OF assms(2), of m B] assms(9,10) vA by (simp add: buf_ptr_def)
  have upt: "[v ..< ns_size ns] = [v]" using vn(2) by (simp flip: vn(2))
  have left: "sizes_left B ns v (buf_ptr (Some m) (field_off ns v)) [v ..< ns_size ns] True (field_off ns v) 0 =
      Inr (if n = size_max then None else Some (field_off ns v, n))"
    unfolding upt using calc by simp
  have sr: "sizes_read B ns (Some m) [0..<v] 0 0 = Inr (field_off ns v, field_off ns v)"
    using sizes_read_fixed [OF assms(1), of v 0] by simp
  have "grow A (Some m) = m" using assms(9) by (rule grow_same)
  then have alloc: "alloc_buf (field_off ns v) False (cb_read c) = Inr st1"
    using alloc_buf_grow [of "field_off ns v" False "cb_read c"] assms(3,7,8,9)
    by (simp add: st1_def buf_fits_def)
  have lp: "length (take n bs) = n" "length (fst pt) = n" using assms(13) by (simp_all add: pt_def)
  have dec: "decrypt_fields B ks ns (take n bs) (field_off ns v) 0 n st1 (cb_decrypt c) =
      (if A < field_off ns v + n then Inl OutOfBounds
       else Inr (True, st1\<lparr>rd_field := ns_size ns, rd_buf := Some (patch (field_off ns v) (fst pt) m)\<rparr>, snd pt))"
  proof (cases "A < field_off ns v + n")
    case True
    have "fst pt \<noteq> []" using lp assms(11) by auto
    then show ?thesis
      using True calc lp assms(5,6,9,13)
      by (subst decrypt_fields.simps)
        (simp add: st1_def Let_def mem_write_out min_absorb2 flip: pt_def)
  next
    case False
    with calc decrypt_fields_last [of B ns st1 m "field_off ns v" 0 n 0 "take n bs" pt ks "cb_decrypt c"]
    show ?thesis using vn lp assms(5,6,9) by (simp add: st1_def pt_def)
  qed
  show ?thesis
    using assms(4-7,11,13,14) left alloc sr dec lp(1)
    by (simp add: resume_read_pass_def Let_def sock_read_chunk [OF assms(12)] min_absorb2
        took_def st1_def pt_def grow_same [OF assms(9)])
qed

text \<open>The announced size, read off the decrypted header.\<close>

definition header_count :: "net_struct \<Rightarrow> nat \<Rightarrow> byte list \<Rightarrow> nat" where
  "header_count ns v plain = tail_count (nf_type (ns_fields ns ! v)) (le_val (drop (length plain - 4) plain))"

lemma announced_header:
  assumes "sized_tail ns v" "fixed_upto ns v" "k < v" "length plain = field_off ns v - field_off ns k"
    and "field_off ns v \<le> length g"
  shows "announced ns v (patch (field_off ns k) plain g) = header_count ns v plain"
proof -
  have "field_off ns k \<le> field_off ns (v - 1)" using assms(3) by (intro field_off_mono) simp
  then have len: "4 \<le> length plain" "field_off ns k + length plain = field_off ns v"
    using sized_tail_off(1) [OF assms(1)] assms(4) by simp_all
  have "drop (field_off ns v - 4) (patch (field_off ns k) plain g) =
      drop (length plain - 4) plain @ drop (field_off ns v) g"
    using len(1) assms(5) unfolding len(2) [symmetric] by (simp add: patch_def add.commute)
  then show ?thesis using len by (simp add: announced_def header_count_def)
qed

text \<open>A size over the limit ends the read before anything is allocated.\<close>

lemma tail_too_large_pass:
  assumes "fixed_upto ns v" "sized_tail ns v"
    and "rd_struct (cb_read c) = Some ns" "rd_field (cb_read c) = v"
    and "rd_buf (cb_read c) = Some m" "field_off ns v \<le> length m" "announced ns v m = size_max"
  shows "resume_read_pass B ks c = Inr (Returned False (c\<lparr>cb_sock := shut (cb_sock c)\<rparr>))"
proof -
  have calc: "calc_field_sz B ns v (buf_ptr (Some m) (field_off ns v)) = Inr (True, 0, size_max)"
    using calc_announced [OF assms(2,6), of B] assms(7) by (simp add: buf_ptr_def)
  have vn: "Suc v = ns_size ns" using assms(2) by (auto simp: sized_tail_def)
  have upt: "[v ..< ns_size ns] = [v]" by (simp flip: vn)
  have left: "sizes_left B ns v (buf_ptr (Some m) (field_off ns v)) [v ..< ns_size ns] True (field_off ns v) 0 = Inr None"
    unfolding upt using calc by simp
  have sr: "sizes_read B ns (Some m) [0..<v] 0 0 = Inr (field_off ns v, field_off ns v)"
    using sizes_read_fixed [OF assms(1), of v 0] by simp
  show ?thesis using assms(3-5) left sr by (simp add: resume_read_pass_def Let_def)
qed

text \<open>
  The first pass reads the header; what follows depends on the size the peer announced.
\<close>

lemma resume_tail_header:
  assumes "fixed_upto ns v" "sized_tail ns v" "A = alloc_size (field_off ns v) False"
    and "read_at ns v k (cb_read c)" "k < v" "so_in (cb_sock c) = Rchunk bs # evs"
    and "R = field_off ns v - field_off ns k" "R \<le> length bs"
    and "n = header_count ns v (fst (evp_update ks (cb_decrypt c) (take R bs)))"
    and "evs' = (if length bs = R then evs else Rchunk (drop R bs) # evs)"
    and "c1 = took ks A (field_off ns k) (take R bs) evs' v 0 c"
    and "m = patch (field_off ns k) (fst (evp_update ks (cb_decrypt c) (take R bs))) (grow A (rd_buf (cb_read c)))"
  shows "resume_read B ks c =
    (if n = 0 then Some (Inr (True, took ks A (field_off ns k) (take R bs) evs' (ns_size ns) 0 c))
     else resume_read B ks c1)"
    "length m = A" "announced ns v m = n"
    "rd_struct (cb_read c1) = Some ns" "rd_field (cb_read c1) = v" "rd_offset (cb_read c1) = 0"
    "rd_buf (cb_read c1) = Some m" "rd_bufsz (cb_read c1) = A" "so_in (cb_sock c1) = evs'"
proof -
  have kv: "field_off ns k < field_off ns v" using fixed_upto_off_less [OF assms(1,5)] by simp
  have vA: "field_off ns v \<le> A" using alloc_size_bound [of "field_off ns v"] assms(3) by simp
  have lg: "length (grow A (rd_buf (cb_read c))) = A" using assms(3,4) by (simp add: read_at_def)
  have lp: "length (take R bs) = R" "field_off ns k + R = field_off ns v" using assms(7,8) kv by simp_all
  show lm: "length m = A" using lg lp vA assms(12) by simp
  show ann: "announced ns v m = n"
    unfolding assms(9,12)
    by (rule announced_header [OF assms(2,1,5)]) (use lp assms(7) lg vA in simp_all)
  show "resume_read B ks c =
    (if n = 0 then Some (Inr (True, took ks A (field_off ns k) (take R bs) evs' (ns_size ns) 0 c))
     else resume_read B ks c1)"
    using tail_prefix_pass [OF assms(1,2,4,5,3,7,6,8,10,12), of B] ann assms(11)
    by (subst resume_read.simps) simp
qed (use assms(4) in \<open>simp_all add: assms(11,12) took_def read_at_def\<close>)

lemma resume_tail_delivers:
  assumes "fixed_upto ns v" "sized_tail ns v" "A = alloc_size (field_off ns v) False"
    and "read_at ns v k (cb_read c)" "k < v" "so_in (cb_sock c) = Rchunk bs # evs"
    and "R = field_off ns v - field_off ns k" "R + n \<le> length bs"
    and "n = header_count ns v (fst (evp_update ks (cb_decrypt c) (take R bs)))"
    and "n \<noteq> size_max" "field_off ns v + n \<le> A"
  shows "resume_read B ks c = Some (Inr (True, took ks A (field_off ns k) (take (R + n) bs)
            (if length bs = R + n then evs else Rchunk (drop (R + n) bs) # evs) (ns_size ns) 0 c))"
proof -
  have "R \<le> length bs" using assms(8) by simp
  note h = resume_tail_header [OF assms(1-7) this assms(9) refl refl refl]
  show ?thesis
  proof (cases "n = 0")
    case True
    then show ?thesis using h(1) by simp
  next
    case False
    let ?c1 = "took ks A (field_off ns k) (take R bs) (if length bs = R then evs else Rchunk (drop R bs) # evs) v 0 c"
    let ?evs2 = "if length bs = R + n then evs else Rchunk (drop (R + n) bs) # evs"
    have kv: "field_off ns k < field_off ns v" using fixed_upto_off_less [OF assms(1,5)] by simp
    then have off: "field_off ns k + R = field_off ns v" "length (take R bs) = R" "length (take n (drop R bs)) = n"
      using assms(7,8) by simp_all
    have fits: "buf_fits A (cb_read c)" using assms(3,4) by (simp add: read_at_def)
    have so: "so_in (cb_sock ?c1) = Rchunk (drop R bs) # evs" using h(9) False assms(8) by auto
    have "resume_read_pass B ks ?c1 = Inr (Returned True (took ks A (field_off ns v) (take n (drop R bs)) ?evs2 (ns_size ns) 0 ?c1))"
      using tail_body_pass [OF assms(1-3) h(4,5,6,7,8,2) h(3)[symmetric] _ so _ refl, of B ks] False assms(8,10,11)
      by (auto simp: drop_drop add.commute)
    moreover have "took ks A (field_off ns v) (take n (drop R bs)) ?evs2 (ns_size ns) 0 ?c1 =
        took ks A (field_off ns k) (take (R + n) bs) ?evs2 (ns_size ns) 0 c"
      using took_took [OF fits, of "field_off ns k" "take R bs" "take n (drop R bs)"] off assms(11)
      by (simp only: take_add)
    ultimately show ?thesis using h(1) False by (subst h(1)) (simp add: resume_read.simps)
  qed
qed

lemma resume_tail_overflow:
  assumes "fixed_upto ns v" "sized_tail ns v" "A = alloc_size (field_off ns v) False"
    and "read_at ns v k (cb_read c)" "k < v" "so_in (cb_sock c) = Rchunk bs # evs"
    and "R = field_off ns v - field_off ns k" "R + n \<le> length bs"
    and "n = header_count ns v (fst (evp_update ks (cb_decrypt c) (take R bs)))"
    and "n \<noteq> size_max" "A < field_off ns v + n"
  shows "resume_read B ks c = Some (Inl OutOfBounds)"
proof -
  have le: "R \<le> length bs" using assms(8) by simp
  note h = resume_tail_header [OF assms(1-7) this assms(9) refl refl refl]
  have "field_off ns v \<le> A" using alloc_size_bound [of "field_off ns v"] assms(3) by simp
  then have n0: "0 < n" using assms(11) by simp
  let ?c1 = "took ks A (field_off ns k) (take R bs) (if length bs = R then evs else Rchunk (drop R bs) # evs) v 0 c"
  have so: "so_in (cb_sock ?c1) = Rchunk (drop R bs) # evs" using h(9) n0 assms(8) by auto
  have "resume_read_pass B ks ?c1 = Inl OutOfBounds"
    using tail_body_pass [OF assms(1-3) h(4,5,6,7,8,2) h(3)[symmetric] n0 so _ refl, of B ks] assms(8,10,11) by simp
  then show ?thesis using n0 by (subst h(1)) (simp add: resume_read.simps)
qed

lemma resume_tail_too_large:
  assumes "fixed_upto ns v" "sized_tail ns v" "A = alloc_size (field_off ns v) False"
    and "read_at ns v k (cb_read c)" "k < v" "so_in (cb_sock c) = Rchunk bs # evs"
    and "R = field_off ns v - field_off ns k" "R \<le> length bs"
    and "header_count ns v (fst (evp_update ks (cb_decrypt c) (take R bs))) = size_max"
    and "c1 = took ks A (field_off ns k) (take R bs)
           (if length bs = R then evs else Rchunk (drop R bs) # evs) v 0 c"
  shows "resume_read B ks c = Some (Inr (False, c1\<lparr>cb_sock := shut (cb_sock c1)\<rparr>))"
proof -
  note h = resume_tail_header [OF assms(1-8) assms(9)[symmetric] refl refl refl]
  have "field_off ns v \<le> A" using alloc_size_bound [of "field_off ns v"] assms(3) by simp
  then have "resume_read_pass B ks c1 = Inr (Returned False (c1\<lparr>cb_sock := shut (cb_sock c1)\<rparr>))"
    using tail_too_large_pass [OF assms(1,2) h(4,5,7) _ h(3), of B ks] h(2) assms(10) by simp
  then show ?thesis by (subst h(1)) (simp add: resume_read.simps flip: assms(10))
qed

end
