(* ===== verification/Theme_Read_Splits.thy ===== *)
theory Theme_Read_Splits
  imports Theme_Read_Path
begin

text \<open>
  What \<open>resume_read\<close> does when the network cuts a message inside a field, or ends the
  stream. For messages of fixed size, whatever the socket does: no access is out of bounds
  and no assertion fails (\<open>resume_fixed_safe\<close>), but once a read stopped inside a field the
  message can only complete by taking bytes that belong to the next one
  (\<open>resume_needs_more\<close>), and it does not return at all when it stopped at the end of the last
  field or met the end of the stream.
\<close>

section \<open>Positions inside a fixed-size message\<close>

definition read_pos :: "net_struct \<Rightarrow> nat \<Rightarrow> client_base \<Rightarrow> bool" where
  "read_pos ns v c \<longleftrightarrow> (let st = cb_read c in
     rd_struct st = Some ns \<and> rd_field st < v \<and> field_off ns (rd_field st) + rd_offset st \<le> field_off ns v \<and>
     (rd_buf st = None \<longrightarrow> rd_field st = 0) \<and> buf_fits (alloc_size (field_off ns v) False) st)"

definition pos_of :: "net_struct \<Rightarrow> io_read \<Rightarrow> nat" where
  "pos_of ns st = field_off ns (rd_field st) + rd_offset st"

text \<open>
  What decrypting \<open>n\<close> bytes makes of the read state: the memory stays, and either the message is
  complete, or the read stays in its field (and forgets nothing), or it went on to a later one.
\<close>

definition went_on :: "net_struct \<Rightarrow> nat \<Rightarrow> nat \<Rightarrow> io_read \<Rightarrow> bool \<Rightarrow> io_read \<Rightarrow> bool" where
  "went_on ns v n st complete st' \<longleftrightarrow>
     map_option length (rd_buf st') = map_option length (rd_buf st) \<and> rd_struct st' = rd_struct st \<and> rd_bufsz st' = rd_bufsz st \<and>
     (if complete then field_off ns v = field_off ns (rd_field st) + n
      else rd_field st' < v \<and>
        (rd_field st' = rd_field st \<and> rd_offset st' = rd_offset st + n \<or> pos_of ns st' = field_off ns (rd_field st) + n))"

lemma went_on_step:
  assumes "went_on ns v (n - w) (st\<lparr>rd_buf := Some m', rd_field := Suc (rd_field st), rd_offset := 0\<rparr>) complete st'"
    and "field_off ns (Suc (rd_field st)) = field_off ns (rd_field st) + w" "w \<le> n" "rd_buf st = Some m" "length m' = length m"
  shows "went_on ns v n st complete st'"
  using assms by (auto simp: went_on_def pos_of_def split: if_splits)

text \<open>A whole field of fixed size is decrypted in one step.\<close>

lemma decrypt_fields_whole_any:
  assumes "fixed_upto ns v" "v = ns_size ns" "rd_field st < v" "w = field_sz (ns_fields ns ! rd_field st)"
    and "rd_buf st = Some m" "w \<le> nread" "Suc (rd_field st) = v \<Longrightarrow> nread = w"
    and "mempos + rd_offset st + nread \<le> length m" "wirepos + nread \<le> length data"
  shows "\<exists>m' dec'. length m' = length m \<and>
    decrypt_fields B ks ns data mempos wirepos nread st dec =
     (if Suc (rd_field st) = v then Inr (True, st\<lparr>rd_buf := Some m', rd_field := v\<rparr>, dec')
      else decrypt_fields B ks ns data (mempos + rd_offset st + w) (wirepos + w) (nread - w)
        (st\<lparr>rd_buf := Some m', rd_field := Suc (rd_field st), rd_offset := 0\<rparr>) dec')"
proof -
  let ?pt = "evp_update ks dec (take w (drop wirepos data))" and ?m = "patch (mempos + rd_offset st)"
  have calc: "calc_field_sz B ns (rd_field st) p = Inr (True, w, w)" for p
    using fixed_upto_calc [OF assms(1,3)] assms(4) by simp
  have l: "length (fst ?pt) = w" using assms(6,9) by simp
  have m': "mem_write m (mempos + rd_offset st) (fst ?pt) = Inr (?m (fst ?pt) m)" "length (?m (fst ?pt) m) = length m"
    using assms(6,8) l by (simp_all add: mem_write_in)
  show ?thesis
    using calc assms(2,5-7) m' l
    by (intro exI [of _ "?m (fst ?pt) m"] exI [of _ "snd ?pt"], subst decrypt_fields.simps) (simp add: Let_def min_absorb1 del: length_take)
qed

lemma decrypt_fields_safe:
  assumes "fixed_upto ns v" "v = ns_size ns"
  shows "rd_field st < v \<Longrightarrow> rd_buf st = Some m \<Longrightarrow> mempos + rd_offset st + nread \<le> length m \<Longrightarrow>
    wirepos + nread = length data \<Longrightarrow> nread \<le> field_off ns v - field_off ns (rd_field st) \<Longrightarrow>
    \<exists>complete st' dec'. decrypt_fields B ks ns data mempos wirepos nread st dec = Inr (complete, st', dec') \<and> went_on ns v nread st complete st'"
proof (induction "v - rd_field st" arbitrary: st m mempos nread wirepos dec)
  case (Suc n)
  let ?k = "rd_field st"
  define w where "w = field_sz (ns_fields ns ! ?k)"
  note off = fixed_uptoD(4) [OF assms(1) Suc.prems(1), folded w_def]
  show ?case
  proof (cases "nread < w")
    case True
    have calc: "calc_field_sz B ns ?k p = Inr (True, w, w)" for p
      using assms(1) Suc.prems(1) unfolding w_def by (rule fixed_upto_calc)
    have l: "length (fst (evp_update ks dec (drop wirepos data))) = nread" using Suc.prems(4) by simp
    show ?thesis
      unfolding decrypt_fields_partial [OF calc [of "buf_ptr (Some m) mempos"] Suc.prems(2) True Suc.prems(3,4) refl]
      using Suc.prems l by (intro exI [of _ False]) (simp add: went_on_def)
  next
    case False
    have "nread = w" if "Suc ?k = v" using False Suc.prems(5) off that by simp
    then obtain m1 dec1 where step: "length m1 = length m" "decrypt_fields B ks ns data mempos wirepos nread st dec =
       (if Suc ?k = v then Inr (True, st\<lparr>rd_buf := Some m1, rd_field := v\<rparr>, dec1)
        else decrypt_fields B ks ns data (mempos + rd_offset st + w) (wirepos + w) (nread - w)
          (st\<lparr>rd_buf := Some m1, rd_field := Suc ?k, rd_offset := 0\<rparr>) dec1)"
      using decrypt_fields_whole_any [OF assms Suc.prems(1) w_def Suc.prems(2) _ _ Suc.prems(3), of wirepos data B ks dec]
        False Suc.prems(4) by auto
    show ?thesis
    proof (cases "Suc ?k = v")
      case True
      then have "nread = w" using False Suc.prems(5) off by simp
      then show ?thesis using step off True Suc.prems(2) by (intro exI [of _ True]) (simp add: went_on_def)
    next
      case k: False
      then have sk: "Suc ?k < v" using Suc.prems(1) by simp
      have le: "field_off ns (Suc ?k) \<le> field_off ns v" using sk by (intro field_off_mono) simp
      let ?st = "st\<lparr>rd_buf := Some m1, rd_field := Suc ?k, rd_offset := 0\<rparr>"
      have "\<exists>complete st' dec'. decrypt_fields B ks ns data (mempos + rd_offset st + w) (wirepos + w) (nread - w) ?st dec1 =
          Inr (complete, st', dec') \<and> went_on ns v (nread - w) ?st complete st'"
        by (rule Suc.hyps(1) [where m = m1]) (use Suc.hyps(2) Suc.prems sk step(1) False off le in simp_all)
      then show ?thesis
        using step(2) k went_on_step [OF _ off _ Suc.prems(2) step(1)] False by fastforce
    qed
  qed
qed simp
section \<open>One pass from any position\<close>

abbreviation left_in :: "client_base \<Rightarrow> nat" where
  "left_in c \<equiv> length (incoming (cb_sock c))"

text \<open>
  After a pass either the call returns, with success only when the pass began between two
  fields, or the read goes on: the position grew by at most the bytes taken, and by fewer
  when a field begun earlier was left behind.
\<close>

definition pass_outcome :: "net_struct \<Rightarrow> nat \<Rightarrow> client_base \<Rightarrow> client_base pass \<Rightarrow> bool" where
  "pass_outcome ns v c r =
     (case r of
        Returned b c' \<Rightarrow> b \<longrightarrow> rd_offset (cb_read c) = 0 \<and>
          field_off ns v + left_in c' = pos_of ns (cb_read c) + left_in c
      | Again c' \<Rightarrow> read_pos ns v c' \<and>
          pos_of ns (cb_read c') + left_in c' \<le> pos_of ns (cb_read c) + left_in c \<and>
          (0 < rd_offset (cb_read c) \<longrightarrow> 0 < rd_offset (cb_read c') \<or>
             pos_of ns (cb_read c') + left_in c' < pos_of ns (cb_read c) + left_in c))"

lemma any_pass:
  assumes "fixed_upto ns v" "v = ns_size ns" "read_pos ns v c"
    and "A = alloc_size (field_off ns v) False" "k = rd_field (cb_read c)"
    and "R = field_off ns v - pos_of ns (cb_read c)"
    and "st1 = (cb_read c)\<lparr>rd_bufsz := A, rd_buf := Some (grow A (rd_buf (cb_read c)))\<rparr>"
  shows "resume_read_pass B ks c =
    (if R = 0 then Inr (Again (c\<lparr>cb_read := st1\<rparr>))
     else case sock_read R (cb_sock c) of ((ok, cnt), data, so) \<Rightarrow>
       if \<not> ok then
         Inr (Returned False (c\<lparr>cb_read := st1, cb_sock := (if cnt = size_max then shut so else so)\<rparr>))
       else
         bindE (decrypt_fields B ks ns data (field_off ns k) 0 cnt st1 (cb_decrypt c)) (\<lambda>(complete, st2, dec).
           Inr (if complete then Returned True (c\<lparr>cb_read := st1, cb_sock := so, cb_read := st2, cb_decrypt := dec\<rparr>)
                else Again (c\<lparr>cb_read := st1, cb_sock := so, cb_read := st2, cb_decrypt := dec\<rparr>))))"
proof -
  have st: "rd_struct (cb_read c) = Some ns" "k < v" "buf_fits A (cb_read c)" "rd_field (cb_read c) = k"
    using assms(3,4,5) by (simp_all add: read_pos_def Let_def)
  have left: "sizes_left B ns k (buf_ptr (rd_buf (cb_read c)) (field_off ns k)) [k ..< ns_size ns] True (field_off ns k) 0 =
      Inr (Some (field_off ns v, field_off ns v - field_off ns k))"
    using sizes_left_fixed [OF assms(1), of k k B k "buf_ptr (rd_buf (cb_read c)) (field_off ns k)" "[]"]
      assms(2) st(2) field_off_mono [of k v ns] by simp
  have R: "field_off ns v - field_off ns k - min (field_off ns v - field_off ns k) (rd_offset (cb_read c)) = R"
    using st(4) assms(6) by (simp add: pos_of_def)
  have alloc: "alloc_buf (field_off ns v) False (cb_read c) = Inr st1"
    using alloc_buf_grow [of "field_off ns v" False "cb_read c"] st(3) assms(4,7) by simp
  have sr: "sizes_read B ns (rd_buf (cb_read c)) [0..<k] 0 0 = Inr (field_off ns k, field_off ns k)"
    using sizes_read_fixed [OF assms(1), of k 0] st(2) by simp
  have o1: "rd_offset st1 = rd_offset (cb_read c)" by (simp add: assms(7))
  show ?thesis
    unfolding resume_read_pass_def Let_def st(1,4)
    by (simp only: option.case bindE_Inr sr prod.case left alloc o1 R)
      (simp add: o1 split: prod.splits)
qed

text \<open>What a pass leads to that got bytes and decrypted them.\<close>

lemma went_on_outcome:
  assumes "read_pos ns v c" "A = alloc_size (field_off ns v) False" "went_on ns v (length data) st1 complete st'"
    and "st1 = (cb_read c)\<lparr>rd_bufsz := A, rd_buf := Some (grow A (rd_buf (cb_read c)))\<rparr>"
    and "length data \<le> field_off ns v - pos_of ns (cb_read c)" "left_in c = length data + length (incoming so)"
  shows "pass_outcome ns v c ((if complete then Returned True else Again) (c\<lparr>cb_sock := so, cb_read := st', cb_decrypt := dec'\<rparr>))"
proof -
  let ?st = "cb_read c" and ?n = "length data"
  have le: "pos_of ns ?st \<le> field_off ns v" and g: "length (grow A (rd_buf ?st)) = A"
    using assms(1,2) by (simp_all add: read_pos_def Let_def pos_of_def)
  have buf: "map_option length (rd_buf st') = Some A" "rd_struct st' = Some ns" "rd_bufsz st' = A"
    using assms(1,3,4) g by (simp_all add: went_on_def read_pos_def Let_def)
  show ?thesis
  proof (cases complete)
    case True
    then have "field_off ns v = field_off ns (rd_field ?st) + ?n" using assms(3,4) by (simp add: went_on_def)
    then show ?thesis using True assms(5,6) le by (simp add: pass_outcome_def pos_of_def)
  next
    case False
    then have f: "rd_field st' < v" "rd_field st' = rd_field ?st \<and> rd_offset st' = rd_offset ?st + ?n \<or>
        pos_of ns st' = field_off ns (rd_field ?st) + ?n"
      using assms(3,4) by (simp_all add: went_on_def)
    then have p: "pos_of ns st' = pos_of ns ?st + ?n \<and> rd_offset st' = rd_offset ?st + ?n \<or>
        pos_of ns st' + rd_offset ?st = pos_of ns ?st + ?n"
      by (auto simp: pos_of_def)
    have "pos_of ns st' \<le> field_off ns v" using p assms(5) le by auto
    then have "read_pos ns v (c\<lparr>cb_sock := so, cb_read := st', cb_decrypt := dec'\<rparr>)"
      using f(1) buf assms(2) by (auto simp: read_pos_def Let_def buf_fits_def pos_of_def)
    then show ?thesis using False p assms(6) by (auto simp: pass_outcome_def)
  qed
qed

lemma pass_outcome_holds:
  assumes "fixed_upto ns v" "v = ns_size ns" "read_pos ns v c"
  shows "\<exists>r. resume_read_pass B ks c = Inr r \<and> pass_outcome ns v c r"
proof -
  define A where "A = alloc_size (field_off ns v) False"
  define R where "R = field_off ns v - pos_of ns (cb_read c)"
  define st1 where "st1 = (cb_read c)\<lparr>rd_bufsz := A, rd_buf := Some (grow A (rd_buf (cb_read c)))\<rparr>"
  note pass = any_pass [OF assms A_def refl R_def st1_def]
  have st: "rd_field (cb_read c) < v" "pos_of ns (cb_read c) \<le> field_off ns v" "buf_fits A (cb_read c)" "rd_struct (cb_read c) = Some ns"
    using assms(3) by (simp_all add: read_pos_def Let_def A_def pos_of_def)
  have lg: "length (grow A (rd_buf (cb_read c))) = A" using st(3) by simp
  have vA: "field_off ns v \<le> A" using alloc_size_bound [of "field_off ns v"] by (simp add: A_def)
  obtain ok cnt data so where rd: "sock_read R (cb_sock c) = ((ok, cnt), data, so)" by (metis prod.exhaust)
  consider "R = 0" | "R \<noteq> 0" "\<not> ok" | "R \<noteq> 0" ok by blast
  then show ?thesis
  proof cases
    case 1
    have "read_pos ns v (c\<lparr>cb_read := st1\<rparr>)"
      using st lg by (simp add: read_pos_def Let_def st1_def buf_fits_def A_def pos_of_def)
    moreover have "pos_of ns st1 = pos_of ns (cb_read c)" by (simp add: st1_def pos_of_def)
    ultimately show ?thesis using 1 by (simp add: pass pass_outcome_def st1_def)
  next
    case 2
    then show ?thesis using rd by (simp add: pass pass_outcome_def)
  next
    case 3
    have rd': "sock_read R (cb_sock c) = ((True, cnt), data, so)" using rd 3 by simp
    have d: "cnt = length data" "length data \<le> R" "left_in c = length data + length (incoming so)"
      using kernel_in.rd_count [OF rd'] kernel_in.rd_bound [OF rd'] kernel_in.left_over [OF rd'] by simp_all
    have "\<exists>complete st' dec'. decrypt_fields B ks ns data (field_off ns (rd_field (cb_read c))) 0 cnt st1 (cb_decrypt c) = Inr (complete, st', dec') \<and>
        went_on ns v cnt st1 complete st'"
      by (rule decrypt_fields_safe [OF assms(1,2), where m = "grow A (rd_buf (cb_read c))"]) (use st lg vA d R_def in \<open>simp_all add: st1_def pos_of_def\<close>)
    then obtain complete st' dec' where
      dec: "decrypt_fields B ks ns data (field_off ns (rd_field (cb_read c))) 0 cnt st1 (cb_decrypt c) = Inr (complete, st', dec')"
        "went_on ns v cnt st1 complete st'" by blast
    have "resume_read_pass B ks c = Inr ((if complete then Returned True else Again) (c\<lparr>cb_sock := so, cb_read := st', cb_decrypt := dec'\<rparr>))"
      using 3 rd' dec(1) by (simp add: pass)
    with went_on_outcome [OF assms(3) A_def dec(2) [unfolded d(1)] st1_def _ d(3), of dec'] d(2) show ?thesis by (auto simp: R_def)
  qed
qed

section \<open>Whole reads\<close>

text \<open>An induction rule for facts about a \<open>resume_read\<close> that returned.\<close>

lemma resume_read_induct [consumes 1, case_names fault stop again]:
  assumes ret: "resume_read B ks c = Some res"
    and fault: "\<And>c e. resume_read_pass B ks c = Inl e \<Longrightarrow> P c (Inl e)"
    and stop: "\<And>c b c'. resume_read_pass B ks c = Inr (Returned b c') \<Longrightarrow> P c (Inr (b, c'))"
    and again: "\<And>c c1 r. resume_read_pass B ks c = Inr (Again c1) \<Longrightarrow> P c1 r \<Longrightarrow> P c r"
  shows "P c res"
proof -
  let ?P = "\<lambda>B' ks' c r. B' = B \<longrightarrow> ks' = ks \<longrightarrow> P c r"
  have "?P B ks c res"
  proof (rule resume_read.raw_induct [where P = ?P, OF _ ret])
    fix f :: "build \<Rightarrow> keystream \<Rightarrow> client_base \<Rightarrow> (bool \<times> client_base) res option"
      and B' ks' c r
    assume IH: "\<And>B' ks' c r. f B' ks' c = Some r \<Longrightarrow> ?P B' ks' c r"
      and eq: "(case resume_read_pass B' ks' c of Inl e \<Rightarrow> Some (Inl e)
        | Inr (Returned b c') \<Rightarrow> Some (Inr (b, c')) | Inr (Again c') \<Rightarrow> f B' ks' c') = Some r"
    show "?P B' ks' c r"
    proof (intro impI)
      assume "B' = B" "ks' = ks"
      with eq IH show "P c r"
        by (auto split: sum.splits pass.splits intro: fault stop again)
    qed
  qed
  then show ?thesis by simp
qed

text \<open>No message of fixed size makes a read go out of bounds or fail an assertion.\<close>

lemma resume_fixed_safe:
  assumes "fixed_upto ns v" "v = ns_size ns" "read_pos ns v c"
  shows "resume_read B ks c \<noteq> Some (Inl e)"
proof
  assume "resume_read B ks c = Some (Inl e)"
  then have "read_pos ns v c \<longrightarrow> (\<exists>x. Inl e = (Inr x :: (bool \<times> client_base) res))"
  proof (induction rule: resume_read_induct)
    case (fault c e)
    then show ?case using pass_outcome_holds [OF assms(1,2), of c B ks] by auto
  next
    case (again c c1 r)
    then show ?case using pass_outcome_holds [OF assms(1,2), of c B ks]
      by (auto simp: pass_outcome_def)
  qed simp
  with assms(3) show False by simp
qed

text \<open>
  Bytes it takes to complete a message from a position: what is missing and, when the read
  had stopped inside a field, at least one byte more.
\<close>

lemma resume_needs_more:
  assumes "fixed_upto ns v" "v = ns_size ns" "read_pos ns v c"
    and "resume_read B ks c = Some (Inr (True, c'))"
  shows "field_off ns v + left_in c' \<le> pos_of ns (cb_read c) + left_in c"
    and "0 < rd_offset (cb_read c) \<Longrightarrow> field_off ns v + left_in c' < pos_of ns (cb_read c) + left_in c"
proof -
  let ?le = "\<lambda>c c'. field_off ns v + left_in c' \<le> pos_of ns (cb_read c) + left_in c"
  let ?lt = "\<lambda>c c'. field_off ns v + left_in c' < pos_of ns (cb_read c) + left_in c"
  let ?P = "\<lambda>c r. read_pos ns v c \<longrightarrow> (\<forall>c'. r = Inr (True, c') \<longrightarrow>
    ?le c c' \<and> (0 < rd_offset (cb_read c) \<longrightarrow> ?lt c c'))"
  obtain res where res: "resume_read B ks c = Some res" "res = Inr (True, c')" using assms(4) by blast
  from res(1) have "?P c res"
  proof (induction rule: resume_read_induct)
    case (stop c b c')
    then show ?case using pass_outcome_holds [OF assms(1,2), of c B ks]
      by (cases b) (auto simp: pass_outcome_def)
  next
    case (again c c1 r)
    show ?case
    proof (intro impI allI)
      fix c' assume pos: "read_pos ns v c" and r: "r = Inr (True, c')"
      from pass_outcome_holds [OF assms(1,2) pos, of B ks] again(1)
      have "read_pos ns v c1" and adv: "pos_of ns (cb_read c1) + left_in c1 \<le> pos_of ns (cb_read c) + left_in c"
        "0 < rd_offset (cb_read c) \<Longrightarrow> 0 < rd_offset (cb_read c1) \<or>
           pos_of ns (cb_read c1) + left_in c1 < pos_of ns (cb_read c) + left_in c"
        by (auto simp: pass_outcome_def)
      with again(2) r have "?le c1 c'" "0 < rd_offset (cb_read c1) \<longrightarrow> ?lt c1 c'" by auto
      with adv show "?le c c' \<and> (0 < rd_offset (cb_read c) \<longrightarrow> ?lt c c')" by fastforce
    qed
  qed simp
  with assms(3) res(2) show "?le c c'" "0 < rd_offset (cb_read c) \<Longrightarrow> ?lt c c'" by simp_all
qed

text \<open>A state from which every pass leads to such a state again is a call that never returns.\<close>

lemma resume_diverges:
  assumes "S c" "\<And>c. S c \<Longrightarrow> \<exists>c1. resume_read_pass B ks c = Inr (Again c1) \<and> S c1"
  shows "resume_read B ks c = None"
proof (rule ccontr)
  assume "resume_read B ks c \<noteq> None"
  then obtain res where "resume_read B ks c = Some res" by blast
  then have "\<not> S c"
  proof (induction rule: resume_read_induct)
    case (fault c e)
    then show ?case using assms(2) [of c] by auto
  next
    case (stop c b c')
    then show ?case using assms(2) [of c] by auto
  next
    case (again c c1 r)
    then show ?case using assms(2) [of c] by auto
  qed
  with assms(1) show False by simp
qed

lemma resume_hangs_at_end:
  assumes "fixed_upto ns v" "v = ns_size ns" "read_pos ns v c" "pos_of ns (cb_read c) = field_off ns v"
  shows "resume_read B ks c = None"
proof (rule resume_diverges [where S = "\<lambda>c. read_pos ns v c \<and> pos_of ns (cb_read c) = field_off ns v"])
  fix c assume S: "read_pos ns v c \<and> pos_of ns (cb_read c) = field_off ns v"
  define A where "A = alloc_size (field_off ns v) False"
  define st1 where "st1 = (cb_read c)\<lparr>rd_bufsz := A, rd_buf := Some (grow A (rd_buf (cb_read c)))\<rparr>"
  have pass: "resume_read_pass B ks c = Inr (Again (c\<lparr>cb_read := st1\<rparr>))"
    using any_pass [OF assms(1,2) conjunct1 [OF S] A_def refl refl st1_def, of B ks] S by simp
  moreover have "read_pos ns v (c\<lparr>cb_read := st1\<rparr>)"
    using pass_outcome_holds [OF assms(1,2) conjunct1 [OF S], of B ks] pass by (auto simp: pass_outcome_def)
  moreover have "pos_of ns st1 = field_off ns v" using S by (simp add: st1_def pos_of_def)
  ultimately show "\<exists>c1. resume_read_pass B ks c = Inr (Again c1) \<and>
      read_pos ns v c1 \<and> pos_of ns (cb_read c1) = field_off ns v" by auto
qed (use assms in simp)

lemma resume_hangs_at_eof:
  assumes "fixed_upto ns v" "v = ns_size ns" "read_pos ns v c" "so_in (cb_sock c) = Reof # evs"
  shows "resume_read B ks c = None"
proof (rule resume_diverges [where S = "\<lambda>c. read_pos ns v c \<and> so_in (cb_sock c) = Reof # evs"])
  fix c assume S: "read_pos ns v c \<and> so_in (cb_sock c) = Reof # evs"
  then have eof: "sock_read n (cb_sock c) = ((True, 0), [], cb_sock c)" for n
    by (simp add: sock_read_def sys_read_def)
  have lt: "rd_field (cb_read c) < v" using S by (simp add: read_pos_def Let_def)
  obtain r where r: "resume_read_pass B ks c = Inr r" "pass_outcome ns v c r"
    using pass_outcome_holds [OF assms(1,2) conjunct1 [OF S]] by blast
  define A where "A = alloc_size (field_off ns v) False"
  define st1 where "st1 = (cb_read c)\<lparr>rd_bufsz := A, rd_buf := Some (grow A (rd_buf (cb_read c)))\<rparr>"
  have f: "rd_buf st1 = Some (grow A (rd_buf (cb_read c)))" "rd_field st1 = rd_field (cb_read c)"
      "length (grow A (rd_buf (cb_read c))) = A"
    using S by (simp_all add: st1_def read_pos_def Let_def A_def)
  have le: "field_off ns (rd_field st1) + rd_offset st1 + 0 \<le> A"
    using S alloc_size_bound [of "field_off ns v"] by (simp add: st1_def read_pos_def Let_def A_def)
  have "0 < field_sz (ns_fields ns ! rd_field st1)" using fixed_uptoD(3) [OF assms(1) lt] f(2) by simp
  then have "\<exists>st2 dec. decrypt_fields B ks ns [] (field_off ns (rd_field (cb_read c))) 0 0 st1 (cb_decrypt c) = Inr (False, st2, dec)"
    using decrypt_fields_partial [of B ns st1 _ "field_off ns (rd_field st1)" "field_sz (ns_fields ns ! rd_field st1)"
        "field_sz (ns_fields ns ! rd_field st1)" 0 0 "[]" _ ks "cb_decrypt c", OF _ f(1) _ _ _ refl]
      fixed_upto_calc [OF assms(1)] lt f le by simp
  then have "\<exists>c1. r = Again c1 \<and> so_in (cb_sock c1) = Reof # evs"
    using r(1) S unfolding any_pass [OF assms(1,2) conjunct1 [OF S] A_def refl refl st1_def, of B ks] eof
    by (auto split: if_splits)
  then show "\<exists>c1. resume_read_pass B ks c = Inr (Again c1) \<and>
      read_pos ns v c1 \<and> so_in (cb_sock c1) = Reof # evs"
    using r by (auto simp: pass_outcome_def)
qed (use assms in simp)

section \<open>A sized buffer that arrives in two pieces\<close>

definition inside_tail :: "net_struct \<Rightarrow> nat \<Rightarrow> client_base \<Rightarrow> bool" where
  "inside_tail ns v c \<longleftrightarrow> (let st = cb_read c in
     rd_struct st = Some ns \<and> rd_field st = v \<and>
     (case rd_buf st of None \<Rightarrow> False
      | Some m \<Rightarrow> length m = alloc_size (field_off ns v) False \<and> rd_bufsz st = length m \<and>
          0 < rd_offset st \<and> rd_offset st \<le> announced ns v m \<and> announced ns v m \<noteq> size_max))"

text \<open>What arrives of the buffer is decrypted into its place, if that is inside the memory.\<close>

lemma decrypt_inside_tail:
  assumes "sized_tail ns v" "rd_field s = v" "rd_buf s = Some m" "length m = A" "field_off ns v \<le> A"
    and "n = announced ns v m" "n \<noteq> size_max" "cnt = length data" "0 < rd_offset s" "rd_offset s + cnt \<le> n"
    and "decrypt_fields B ks ns data (field_off ns v) 0 cnt s d = Inr (complete, s', d')"
  shows "\<not> complete \<and> (\<exists>m'. s' = s\<lparr>rd_buf := Some m', rd_offset := rd_offset s + cnt\<rparr> \<and> length m' = A \<and> announced ns v m' = n)"
proof -
  have calc: "calc_field_sz B ns (rd_field s) (buf_ptr (Some m) (field_off ns v)) = Inr (True, 0, n)"
    using calc_announced [OF assms(1), of m B] assms(2,4,5,6,7) by (simp add: buf_ptr_def)
  obtain m' where w: "mem_write m (field_off ns v + rd_offset s) (fst (evp_update ks d data)) = Inr m'"
    using assms(3,8,9,10,11) calc by (subst (asm) decrypt_fields.simps) (auto simp: Let_def min_absorb2 bindE_eq_Inr)
  have "length m' = A" "take (field_off ns v) m' = take (field_off ns v) m"
    using w assms(4,5) by (auto simp: mem_write_def take_patch_before split: if_splits)
  then have m': "length m' = A" "announced ns v m' = n"
    using announced_prefix [OF assms(1), of m m'] assms(4,5,6) by simp_all
  have "cnt < n" using assms(9,10) by simp
  then have "decrypt_fields B ks ns data (field_off ns v) 0 cnt s d =
      Inr (False, s\<lparr>rd_buf := Some m', rd_offset := rd_offset s + cnt\<rparr>, snd (evp_update ks d data))"
    using calc w assms(3,8,10) by (subst decrypt_fields.simps) (simp add: Let_def min_absorb2)
  then show ?thesis using assms(11) m' by auto
qed

text \<open>A pass inside the buffer reads what is left of it, or goes round when nothing is.\<close>

lemma inside_tail_unfold:
  assumes "fixed_upto ns v" "sized_tail ns v" "inside_tail ns v c" "n = announced ns v (the (rd_buf (cb_read c)))"
  shows "resume_read_pass B ks c =
    (if n = rd_offset (cb_read c) then Inr (Again c)
     else case sock_read (n - rd_offset (cb_read c)) (cb_sock c) of ((ok, cnt), data, so) \<Rightarrow>
       if \<not> ok then Inr (Returned False (c\<lparr>cb_sock := (if cnt = size_max then shut so else so)\<rparr>))
       else bindE (decrypt_fields B ks ns data (field_off ns v) 0 cnt (cb_read c) (cb_decrypt c)) (\<lambda>(complete, st2, dec).
           Inr ((if complete then Returned True else Again) (c\<lparr>cb_sock := so, cb_read := st2, cb_decrypt := dec\<rparr>))))"
proof -
  define A where "A = alloc_size (field_off ns v) False"
  obtain m where st: "rd_struct (cb_read c) = Some ns" "rd_field (cb_read c) = v" "rd_buf (cb_read c) = Some m"
      "length m = A" "rd_bufsz (cb_read c) = A" "rd_offset (cb_read c) \<le> n" "n \<noteq> size_max" "n = announced ns v m"
    using assms(3,4) by (auto simp: inside_tail_def Let_def A_def split: option.splits)
  have vA: "field_off ns v \<le> A" using alloc_size_bound [of "field_off ns v"] by (simp add: A_def)
  have vn: "Suc v = ns_size ns" using assms(2) by (auto simp: sized_tail_def)
  have calc: "calc_field_sz B ns v (buf_ptr (Some m) (field_off ns v)) = Inr (True, 0, n)"
    using calc_announced [OF assms(2), of m B] st(4,8) vA by (simp add: buf_ptr_def)
  have upt: "[v ..< ns_size ns] = [v]" by (simp flip: vn)
  have left: "sizes_left B ns v (buf_ptr (Some m) (field_off ns v)) [v ..< ns_size ns] True (field_off ns v) 0 =
      Inr (Some (field_off ns v, n))"
    unfolding upt using calc st(7) by simp
  have sr: "sizes_read B ns (Some m) [0..<v] 0 0 = Inr (field_off ns v, field_off ns v)"
    using sizes_read_fixed [OF assms(1), of v 0] by simp
  have "(cb_read c)\<lparr>rd_bufsz := A, rd_buf := Some m\<rparr> = cb_read c" using st(3,5) by (cases "cb_read c") simp
  then have alloc: "alloc_buf (field_off ns v) False (cb_read c) = Inr (cb_read c)"
    using alloc_buf_grow [of "field_off ns v" False "cb_read c"] grow_same [OF st(4)] st
    by (simp add: buf_fits_def A_def)
  have same: "c\<lparr>cb_read := cb_read c\<rparr> = c" "c\<lparr>cb_read := cb_read c, cb_sock := x\<rparr> = c\<lparr>cb_sock := x\<rparr>" for x by (cases c; simp)+
  show ?thesis
    unfolding resume_read_pass_def Let_def st(1-3) using st(6)
    by (auto simp: sr left alloc same min_absorb2 intro!: bindE_cong split: prod.split)
qed

lemma inside_tail_pass:
  assumes "fixed_upto ns v" "sized_tail ns v" "inside_tail ns v c" "resume_read_pass B ks c = Inr r"
  shows "case r of Returned b c' \<Rightarrow> \<not> b | Again c' \<Rightarrow> inside_tail ns v c'"
proof -
  let ?s = "cb_read c"
  obtain m where st: "rd_struct ?s = Some ns" "rd_field ?s = v" "rd_buf ?s = Some m" "length m = alloc_size (field_off ns v) False"
      "rd_bufsz ?s = length m" "0 < rd_offset ?s" "rd_offset ?s \<le> announced ns v m" "announced ns v m \<noteq> size_max"
    using assms(3) by (auto simp: inside_tail_def Let_def split: option.splits)
  define n where "n = announced ns v m"
  obtain ok cnt data so where rd: "sock_read (n - rd_offset ?s) (cb_sock c) = ((ok, cnt), data, so)"
    by (metis prod.exhaust)
  note u = inside_tail_unfold [OF assms(1-3) refl, of B ks, unfolded st(3) option.sel, folded n_def]
  consider "n = rd_offset ?s" | "n \<noteq> rd_offset ?s" "\<not> ok" | "n \<noteq> rd_offset ?s" ok by blast
  then show ?thesis
  proof cases
    case 3
    have rd': "sock_read (n - rd_offset ?s) (cb_sock c) = ((True, cnt), data, so)" using rd 3 by simp
    have d: "cnt = length data" "rd_offset ?s + cnt \<le> n"
      using kernel_in.rd_count [OF rd'] kernel_in.rd_bound [OF rd'] 3 st(7) by (simp_all add: n_def)
    obtain complete s' dec where dec: "decrypt_fields B ks ns data (field_off ns v) 0 cnt ?s (cb_decrypt c) = Inr (complete, s', dec)"
        "r = (if complete then Returned True else Again) (c\<lparr>cb_sock := so, cb_read := s', cb_decrypt := dec\<rparr>)"
      using assms(4) 3 rd by (auto simp: u bindE_eq_Inr)
    have "field_off ns v \<le> length m" using st(4) alloc_size_bound [of "field_off ns v"] by simp
    from decrypt_inside_tail [OF assms(2) st(2,3) refl this n_def _ d(1) st(6) d(2) dec(1)] show ?thesis
      using st d(2) by (auto simp: dec(2) n_def inside_tail_def Let_def)
  qed (use assms(3,4) rd in \<open>auto simp: u\<close>)
qed

lemma resume_tail_split:
  assumes "fixed_upto ns v" "sized_tail ns v" "inside_tail ns v c"
  shows "resume_read B ks c \<noteq> Some (Inr (True, c'))"
proof
  assume "resume_read B ks c = Some (Inr (True, c'))"
  then obtain res where res: "resume_read B ks c = Some res" "res = Inr (True, c')" by blast
  let ?P = "\<lambda>c r. inside_tail ns v c \<longrightarrow> (\<forall>c'. r \<noteq> Inr (True, c'))"
  from res(1) have "?P c res"
  proof (induction rule: resume_read_induct)
    case (stop c b c')
    then show ?case using inside_tail_pass [OF assms(1,2), of c B ks] by auto
  next
    case (again c c1 r)
    then show ?case using inside_tail_pass [OF assms(1,2), of c B ks] by auto
  qed simp
  with assms(3) res(2) show False by simp
qed

end
