(* ===== verification/Theme_Write_Path.thy ===== *)
theory Theme_Write_Path
  imports Theme_Read_Splits
begin

text \<open>
  \<open>enqueue_write\<close>, \<open>resume_write\<close> and \<open>handle_write\<close> of \<open>client_base.cpp\<close> and \<open>pump_write\<close> of
  \<open>client_common.cpp\<close>: a message is encrypted as a whole into a buffer of its own, sent at once
  if nothing is waiting, and queued otherwise. The specification is a stream: what the kernel
  took, followed by what is queued, only ever grows, by the encryption of whole messages.
\<close>

section \<open>Sending what is left of one message\<close>

definition resume_write :: "io_write \<Rightarrow> sock \<Rightarrow> bool \<times> io_write \<times> sock" where
  "resume_write state s =
     (let sendsz = wr_bufsz state - wr_bufoffs state
      in case sock_write (take sendsz (drop (wr_bufoffs state) (wr_buf state))) s of
           ((ok, cnt), s') \<Rightarrow>
             if \<not> ok then (False, state, if cnt = size_max then shut s' else s')
             else let state' = state\<lparr>wr_bufoffs := wr_bufoffs state + cnt\<rparr>
                  in (wr_bufoffs state' = wr_bufsz state', state', s'))"

section \<open>Queueing a message\<close>

text \<open>
  First loop of \<open>enqueue_write\<close>. It looks at \<open>buf + wiresz\<close>, the position on the wire, where
  the second loop looks at the position in memory.
\<close>

fun write_sizes :: "build \<Rightarrow> net_struct \<Rightarrow> byte list \<Rightarrow> nat list \<Rightarrow> nat \<Rightarrow> nat res" where
  "write_sizes B ns buf [] wiresz = Inr wiresz"
| "write_sizes B ns buf (i # is) wiresz =
     bindE (calc_field_sz B ns i (At buf wiresz)) (\<lambda>(known, alloc, wire).
     bindE (assertd B known) (\<lambda>_.
     write_sizes B ns buf is ((wiresz + wire) mod size_mod)))"

text \<open>
  Second loop: \<open>EVP_EncryptUpdate\<close> reads \<open>wire\<close> bytes at \<open>mem_ptr\<close> and writes as many at
  \<open>wire_ptr\<close>; either may leave its buffer.
\<close>

fun encrypt_fields ::
    "build \<Rightarrow> keystream \<Rightarrow> net_struct \<Rightarrow> byte list \<Rightarrow> nat list \<Rightarrow> nat \<Rightarrow> nat \<Rightarrow> byte list \<Rightarrow> evp
     \<Rightarrow> (byte list \<times> evp) res" where
  "encrypt_fields B ks ns buf [] mem_ptr wire_ptr out enc = Inr (out, enc)"
| "encrypt_fields B ks ns buf (i # is) mem_ptr wire_ptr out enc =
     bindE (calc_field_sz B ns i (At buf mem_ptr)) (\<lambda>(known, alloc, wire).
     bindE (assertd B known) (\<lambda>_.
     bindE (mem_read buf mem_ptr wire) (\<lambda>plain.
     let cipher = fst (evp_update ks enc plain) in
     bindE (mem_write out wire_ptr cipher) (\<lambda>out'.
     bindE (assertd B (length cipher = wire)) (\<lambda>_.
     encrypt_fields B ks ns buf is (mem_ptr + alloc) (wire_ptr + wire) out' (snd (evp_update ks enc plain)))))))"

definition enqueue_write :: "build \<Rightarrow> keystream \<Rightarrow> net_struct \<Rightarrow> byte list \<Rightarrow> client_base \<Rightarrow> client_base res" where
  "enqueue_write B ks ns buf c =
     bindE (write_sizes B ns buf [0 ..< ns_size ns] 0) (\<lambda>wiresz.
     bindE (encrypt_fields B ks ns buf [0 ..< ns_size ns] 0 0 (replicate (alloc_size wiresz True) 0) (cb_encrypt c))
       (\<lambda>(out, enc).
     let state = \<lparr>wr_bufoffs = 0, wr_bufsz = alloc_size wiresz True, wr_buf = out\<rparr>;
         c1 = c\<lparr>cb_encrypt := enc\<rparr>
     in if \<not> has_pending_write c1 then
          (case resume_write state (cb_sock c1) of (complete, state', s') \<Rightarrow>
             let c2 = c1\<lparr>cb_sock := s'\<rparr>
             in Inr (if complete then c2 else c2\<lparr>cb_writes := cb_writes c2 @ [state']\<rparr>))
        else Inr (c1\<lparr>cb_writes := cb_writes c1 @ [state]\<rparr>)))"

section \<open>Working through the queue\<close>

definition handle_write :: "client_base \<Rightarrow> bool \<times> client_base" where
  "handle_write c =
     (case cb_writes c of
        [] \<Rightarrow> (False, c)
      | state # rest \<Rightarrow>
          (case resume_write state (cb_sock c) of (complete, state', s') \<Rightarrow>
             if complete then (True, c\<lparr>cb_sock := s', cb_writes := rest\<rparr>)
             else (False, c\<lparr>cb_sock := s', cb_writes := state' # rest\<rparr>)))"

lemma handle_write_shorter: "handle_write c = (True, c') \<Longrightarrow> length (cb_writes c') < length (cb_writes c)"
  by (auto simp: handle_write_def split: list.splits prod.splits if_splits)

function pump_write :: "client_base \<Rightarrow> client_base" where
  "pump_write c = (case handle_write c of (ok, c') \<Rightarrow> if ok then pump_write c' else c')"
  by pat_completeness auto
termination
  by (relation "measure (\<lambda>c. length (cb_writes c))") (auto dest: handle_write_shorter sym)

declare pump_write.simps [simp del]

section \<open>The outgoing stream\<close>

definition pending :: "io_write \<Rightarrow> byte list" where
  "pending state = drop (wr_bufoffs state) (wr_buf state)"

definition wf_write :: "io_write \<Rightarrow> bool" where
  "wf_write state \<longleftrightarrow> wr_bufsz state = length (wr_buf state) \<and> wr_bufoffs state < wr_bufsz state"

definition wf_writes :: "client_base \<Rightarrow> bool" where
  "wf_writes c \<longleftrightarrow> list_all wf_write (cb_writes c)"

definition queued :: "client_base \<Rightarrow> byte list" where
  "queued c = concat (map pending (cb_writes c))"

definition outgoing :: "client_base \<Rightarrow> byte list" where
  "outgoing c = so_sent (cb_sock c) @ queued c"

lemma shut_so [simp]: "so_sent (shut s) = so_sent s" "so_out (shut s) = so_out s" "so_in (shut s) = so_in s"
  by (simp_all add: sock_shutdown_def)

lemma resume_write_cases:
  assumes "resume_write st s = (b, st', s')" "wr_bufsz st = length (wr_buf st)" "wr_bufoffs st \<le> wr_bufsz st"
  shows "so_sent s' @ pending st' = so_sent s @ pending st"
    "wr_buf st' = wr_buf st" "wr_bufsz st' = wr_bufsz st" "b \<Longrightarrow> pending st' = []"
    "\<not> b \<Longrightarrow> wr_bufoffs st < wr_bufsz st \<Longrightarrow> wf_write st'"
proof -
  obtain ok cnt s1 where w: "sock_write (pending st) s = ((ok, cnt), s1)" by (metis prod.exhaust)
  have t: "take (wr_bufsz st - wr_bufoffs st) (drop (wr_bufoffs st) (wr_buf st)) = pending st"
    using assms(2) by (simp add: pending_def)
  have r: "(b, st', s') = (if \<not> ok then (False, st, if cnt = size_max then shut s1 else s1)
      else (wr_bufoffs st + cnt = wr_bufsz st, st\<lparr>wr_bufoffs := wr_bufoffs st + cnt\<rparr>, s1))"
    using assms(1) w unfolding resume_write_def Let_def t by (cases ok; cases "cnt = size_max") auto
  show "so_sent s' @ pending st' = so_sent s @ pending st"
  proof (cases ok)
    case True
    then have "so_sent s1 @ drop cnt (pending st) = so_sent s @ pending st"
      using kernel_out.stream_kept [of "pending st" s cnt s1] w by simp
    then show ?thesis using r True by (simp add: pending_def add.commute)
  next
    case False
    then show ?thesis using r w kernel_out.wr_fail [of "pending st" s cnt s1] by (auto split: if_splits)
  qed
  have le: "ok \<Longrightarrow> cnt \<le> length (pending st)" using kernel_out.wr_ok [of "pending st" s cnt s1] w by auto
  show "wr_buf st' = wr_buf st" "wr_bufsz st' = wr_bufsz st" using r by (auto split: if_splits)
  show "pending st' = []" if b using r assms(2) that by (auto simp: pending_def split: if_splits)
  show "wf_write st'" if "\<not> b" "wr_bufoffs st < wr_bufsz st"
    using r assms(2,3) that le by (auto simp: wf_write_def pending_def split: if_splits)
qed

lemma handle_write_stream:
  assumes "wf_writes c" "handle_write c = (b, c')"
  shows "outgoing c' = outgoing c" "wf_writes c'"
proof -
  show "outgoing c' = outgoing c"
  proof (cases "cb_writes c")
    case (Cons st rest)
    obtain b1 st1 s1 where r: "resume_write st (cb_sock c) = (b1, st1, s1)" by (metis prod.exhaust)
    have "wf_write st" using assms(1) Cons by (simp add: wf_writes_def)
    then have k: "so_sent s1 @ pending st1 = so_sent (cb_sock c) @ pending st" "b1 \<Longrightarrow> pending st1 = []"
      using resume_write_cases [OF r] by (simp_all add: wf_write_def)
    then show ?thesis
      using assms(2) Cons r by (cases b1) (auto simp: handle_write_def outgoing_def queued_def)
  qed (use assms in \<open>simp add: handle_write_def\<close>)
  show "wf_writes c'"
  proof (cases "cb_writes c")
    case (Cons st rest)
    obtain b1 st1 s1 where r: "resume_write st (cb_sock c) = (b1, st1, s1)" by (metis prod.exhaust)
    have "wf_write st" using assms(1) Cons by (simp add: wf_writes_def)
    then have "\<not> b1 \<Longrightarrow> wf_write st1" using resume_write_cases(5) [OF r] by (simp add: wf_write_def)
    then show ?thesis
      using assms Cons r by (cases b1) (auto simp: handle_write_def wf_writes_def)
  qed (use assms in \<open>simp add: handle_write_def\<close>)
qed

lemma pump_write_keeps: "wf_writes c \<Longrightarrow> outgoing (pump_write c) = outgoing c \<and> wf_writes (pump_write c)"
proof (induction c rule: pump_write.induct)
  case (1 c)
  obtain b c' where h: "handle_write c = (b, c')" by (metis prod.exhaust)
  show ?case
    using 1 h handle_write_stream [OF 1(2) h] by (subst (1 2) pump_write.simps) (auto split: if_splits)
qed

section \<open>What one message adds to the stream\<close>

text \<open>
  All fields but the last have a fixed size: the shape of every message of the program.
  Such a message goes out as one contiguous prefix of its buffer.
\<close>

definition fixed_but_last :: "net_struct \<Rightarrow> nat \<Rightarrow> bool" where
  "fixed_but_last ns v \<longleftrightarrow> Suc v = ns_size ns \<and> field_off ns v < size_max \<and>
     (\<forall>i<v. fixed_field (ns_fields ns ! i))"

lemma fixed_but_last_calc:
  "fixed_but_last ns v \<Longrightarrow> i < v \<Longrightarrow> calc_field_sz B ns i p =
     Inr (True, field_sz (ns_fields ns ! i), field_sz (ns_fields ns ! i))"
  by (simp add: fixed_but_last_def calc_field_sz_fixed)

lemma write_sizes_run:
  assumes "fixed_but_last ns v" "i \<le> v"
  shows "write_sizes B ns buf ([i ..< v] @ is) (field_off ns i) = write_sizes B ns buf is (field_off ns v)"
  using assms(2)
proof (induction "v - i" arbitrary: i)
  case (Suc n)
  then have iv: "i < v" "i < ns_size ns" using assms(1) by (auto simp: fixed_but_last_def)
  then have "field_off ns (Suc i) \<le> field_off ns v" by (intro field_off_mono) simp
  then have small: "field_off ns (Suc i) < size_mod"
    using assms(1) by (simp add: fixed_but_last_def)
  have "[i ..< v] = i # [Suc i ..< v]" using iv by (simp add: upt_conv_Cons)
  then show ?case
    using Suc(1) [of "Suc i"] Suc(2) iv small fixed_but_last_calc [OF assms(1) iv(1)]
    by (simp add: field_off_Suc)
qed simp

lemma encrypt_fields_run:
  assumes "fixed_but_last ns v" "i \<le> v" "field_off ns v \<le> length buf" "field_off ns v \<le> length out"
    and "pt = evp_update ks enc (take (field_off ns v - field_off ns i) (drop (field_off ns i) buf))"
  shows "encrypt_fields B ks ns buf ([i ..< v] @ is) (field_off ns i) (field_off ns i) out enc =
    encrypt_fields B ks ns buf is (field_off ns v) (field_off ns v) (patch (field_off ns i) (fst pt) out) (snd pt)"
  using assms(2,4,5)
proof (induction "v - i" arbitrary: i out enc pt)
  case 0
  then show ?case by (simp add: evp.upd_Nil)
next
  case (Suc n)
  let ?w = "field_sz (ns_fields ns ! i)"
  let ?p1 = "evp_update ks enc (take ?w (drop (field_off ns i) buf))"
  let ?D = "field_off ns v - field_off ns (Suc i)"
  let ?p2 = "evp_update ks (snd ?p1) (take ?D (drop (field_off ns (Suc i)) buf))"
  have iv: "i < v" "i < ns_size ns" using Suc(2) assms(1) by (auto simp: fixed_but_last_def)
  have off: "field_off ns (Suc i) = field_off ns i + ?w" using iv(2) by (rule field_off_Suc)
  have le: "field_off ns (Suc i) \<le> field_off ns v" using iv by (intro field_off_mono) simp
  have fits: "field_off ns i + ?w \<le> length buf" "field_off ns i + ?w \<le> length out"
    using off le assms(3) Suc(4) by simp_all
  have l1: "length (fst ?p1) = ?w" using fits by simp
  have "[i ..< v] = i # [Suc i ..< v]" using iv by (simp add: upt_conv_Cons)
  then have step: "encrypt_fields B ks ns buf ([i ..< v] @ is) (field_off ns i) (field_off ns i) out enc =
      encrypt_fields B ks ns buf ([Suc i ..< v] @ is) (field_off ns (Suc i)) (field_off ns (Suc i))
        (patch (field_off ns i) (fst ?p1) out) (snd ?p1)"
    using fixed_but_last_calc [OF assms(1) iv(1)] fits l1 off
    by (simp add: mem_read_in mem_write_in Let_def)
  have run: "encrypt_fields B ks ns buf ([Suc i ..< v] @ is) (field_off ns (Suc i)) (field_off ns (Suc i))
        (patch (field_off ns i) (fst ?p1) out) (snd ?p1) =
      encrypt_fields B ks ns buf is (field_off ns v) (field_off ns v)
        (patch (field_off ns (Suc i)) (fst ?p2) (patch (field_off ns i) (fst ?p1) out)) (snd ?p2)"
    by (rule Suc(1)) (use Suc(2,4) iv fits l1 in simp_all)
  have split: "take (field_off ns v - field_off ns i) (drop (field_off ns i) buf) =
      take ?w (drop (field_off ns i) buf) @ take ?D (drop (field_off ns (Suc i)) buf)"
    using le off take_add [of ?w ?D "drop (field_off ns i) buf"] by (simp add: add.commute)
  have pt: "fst pt = fst ?p1 @ fst ?p2" "snd pt = snd ?p2"
    by (simp_all only: Suc(5) split evp.out_append evp.state_append)
  have "length (fst ?p2) = ?D" using assms(3) le by simp
  then have "patch (field_off ns (Suc i)) (fst ?p2) (patch (field_off ns i) (fst ?p1) out) =
      patch (field_off ns i) (fst pt) out"
    using patch_append [of "field_off ns i" "fst ?p1" "fst ?p2" out] l1 off le Suc(4) pt(1) by simp
  then show ?case using step run pt(2) by simp
qed

text \<open>The state of the client after a message was handed over, in one piece.\<close>

definition after_write :: "byte list \<Rightarrow> client_base \<Rightarrow> client_base" where
  "after_write bs c =
     (let state = \<lparr>wr_bufoffs = 0, wr_bufsz = length bs, wr_buf = bs\<rparr>
      in if cb_writes c \<noteq> [] then c\<lparr>cb_writes := cb_writes c @ [state]\<rparr>
         else case resume_write state (cb_sock c) of (complete, state', s') \<Rightarrow>
           if complete then c\<lparr>cb_sock := s'\<rparr> else c\<lparr>cb_sock := s', cb_writes := [state']\<rparr>)"

lemma enqueue_write_eq:
  assumes "fixed_but_last ns v" "calc_field_sz B ns v (At buf (field_off ns v)) = Inr (True, msz, w)"
    and "field_off ns v + w \<le> length buf" "field_off ns v + w < size_mod"
    and "pt = evp_update ks (cb_encrypt c) (take (field_off ns v + w) buf)"
  shows "enqueue_write B ks ns buf c = Inr (after_write (fst pt) (c\<lparr>cb_encrypt := snd pt\<rparr>))"
proof -
  let ?o = "field_off ns v"
  let ?p1 = "evp_update ks (cb_encrypt c) (take ?o buf)"
  let ?p2 = "evp_update ks (snd ?p1) (take w (drop ?o buf))"
  have upt: "[0 ..< ns_size ns] = [0 ..< v] @ [v]" using assms(1) by (simp add: fixed_but_last_def flip: upt_Suc_append)
  have sizes: "write_sizes B ns buf [0 ..< ns_size ns] 0 = Inr (?o + w)"
    using write_sizes_run [OF assms(1), of 0 B buf "[v]"] assms(2,4) unfolding upt by simp
  have pt: "fst pt = fst ?p1 @ fst ?p2" "snd pt = snd ?p2"
    by (simp_all only: assms(5) take_add evp.out_append evp.state_append)
  have l: "length (fst ?p1) = ?o" "length (fst ?p2) = w" using assms(3) by simp_all
  let ?z = "replicate (?o + w) (0 :: byte)"
  have "patch ?o (fst ?p2) (patch 0 (fst ?p1) ?z) = patch 0 (fst pt) ?z"
    using patch_append [of 0 "fst ?p1" "fst ?p2" ?z] l pt(1) by simp
  also have "\<dots> = fst pt" using l pt(1) by (simp add: patch_def)
  finally have whole: "patch ?o (fst ?p2) (patch 0 (fst ?p1) ?z) = fst pt" .
  have enc: "encrypt_fields B ks ns buf [0 ..< ns_size ns] 0 0 ?z (cb_encrypt c) = Inr (fst pt, snd pt)"
    using encrypt_fields_run [OF assms(1), of 0 buf ?z ?p1 ks "cb_encrypt c" B "[v]"] assms(2,3) l whole pt(2)
    unfolding upt by (simp add: mem_read_in mem_write_in Let_def)
  have len: "length (fst pt) = ?o + w" using l pt(1) by simp
  show ?thesis
    by (auto simp: enqueue_write_def sizes alloc_size_def enc after_write_def Let_def has_pending_write_def len
        split: prod.splits)
qed

lemma after_write_stream:
  assumes "wf_writes c" "bs \<noteq> []"
  shows "outgoing (after_write bs c) = outgoing c @ bs" "wf_writes (after_write bs c)"
proof -
  let ?st = "\<lparr>wr_bufoffs = 0, wr_bufsz = length bs, wr_buf = bs\<rparr>"
  obtain b st' s' where r: "resume_write ?st (cb_sock c) = (b, st', s')" by (metis prod.exhaust)
  have k: "so_sent s' @ pending st' = so_sent (cb_sock c) @ bs" "b \<Longrightarrow> pending st' = []" "\<not> b \<Longrightarrow> wf_write st'"
    using resume_write_cases [OF r] assms(2) by (simp_all add: pending_def)
  have wf: "wf_write ?st" using assms(2) by (simp add: wf_write_def)
  have p: "pending ?st = bs" by (simp add: pending_def)
  show "outgoing (after_write bs c) = outgoing c @ bs"
    using k r by (cases b) (auto simp: after_write_def Let_def outgoing_def queued_def p)
  show "wf_writes (after_write bs c)"
    using assms(1) k r wf by (cases b) (auto simp: after_write_def Let_def wf_writes_def)
qed

lemma enqueue_write_stream:
  assumes "wf_writes c" "fixed_but_last ns v"
    and "calc_field_sz B ns v (At buf (field_off ns v)) = Inr (True, msz, w)"
    and "field_off ns v + w \<le> length buf" "field_off ns v + w < size_mod" "0 < field_off ns v + w"
  shows "\<exists>c'. enqueue_write B ks ns buf c = Inr c' \<and> wf_writes c' \<and>
    outgoing c' = outgoing c @ fst (evp_update ks (cb_encrypt c) (take (field_off ns v + w) buf)) \<and>
    cb_encrypt c' = snd (evp_update ks (cb_encrypt c) (take (field_off ns v + w) buf))"
proof -
  let ?pt = "evp_update ks (cb_encrypt c) (take (field_off ns v + w) buf)"
  have e: "enqueue_write B ks ns buf c = Inr (after_write (fst ?pt) (c\<lparr>cb_encrypt := snd ?pt\<rparr>))"
    by (rule enqueue_write_eq [OF assms(2-5) refl])
  have "length (fst ?pt) = field_off ns v + w" using assms(4) by simp
  then have ne: "fst ?pt \<noteq> []" using assms(6) by (metis less_nat_zero_code list.size(3))
  have wf: "wf_writes (c\<lparr>cb_encrypt := snd ?pt\<rparr>)" using assms(1) by (simp add: wf_writes_def)
  have out: "outgoing (c\<lparr>cb_encrypt := snd ?pt\<rparr>) = outgoing c" by (simp add: outgoing_def queued_def)
  have "cb_encrypt (after_write (fst ?pt) (c\<lparr>cb_encrypt := snd ?pt\<rparr>)) = snd ?pt"
    by (auto simp: after_write_def Let_def split: prod.splits)
  then show ?thesis using e after_write_stream [OF wf ne] out by simp
qed


section \<open>The queue drains\<close>

text \<open>A peer that keeps up: every call to \<open>write\<close> takes something, and there are enough calls.\<close>

definition takes_some :: "send_ev \<Rightarrow> bool" where
  "takes_some e = (case e of Waccept k \<Rightarrow> 0 < k | Wfail e \<Rightarrow> False)"

definition keeps_up :: "client_base \<Rightarrow> bool" where
  "keeps_up c \<longleftrightarrow> list_all takes_some (so_out (cb_sock c)) \<and> length (queued c) \<le> length (so_out (cb_sock c))"

lemma wf_queued: "wf_writes c \<Longrightarrow> queued c = [] \<longleftrightarrow> cb_writes c = []"
  by (cases "cb_writes c") (auto simp: queued_def wf_writes_def wf_write_def pending_def)

lemma handle_write_progress:
  assumes "wf_writes c" "keeps_up c" "cb_writes c \<noteq> []" "handle_write c = (b, c')"
  shows "keeps_up c'" "length (queued c') < length (queued c)"
proof -
  obtain st rest where w: "cb_writes c = st # rest" using assms(3) by (cases "cb_writes c") auto
  have wf: "wf_write st" using assms(1) w by (simp add: wf_writes_def)
  have q: "queued c = pending st @ concat (map pending rest)" by (simp add: queued_def w)
  have ne: "pending st \<noteq> []" using wf by (simp add: wf_write_def pending_def)
  with assms(2) q obtain e evs where o: "so_out (cb_sock c) = e # evs" "takes_some e" "list_all takes_some evs"
    by (cases "so_out (cb_sock c)") (auto simp: keeps_up_def)
  then obtain k where k: "e = Waccept k" "0 < k" by (auto simp: takes_some_def split: send_ev.splits)
  define n where "n = min k (length (pending st))"
  have n: "0 < n" "n \<le> length (pending st)" using k ne by (auto simp: n_def)
  have full: "take (wr_bufsz st - wr_bufoffs st) (drop (wr_bufoffs st) (wr_buf st)) = pending st"
    using wf by (simp add: pending_def wf_write_def)
  define s' where "s' = (cb_sock c)\<lparr>so_out := evs, so_sent := so_sent (cb_sock c) @ take n (pending st)\<rparr>"
  have "sock_write (pending st) (cb_sock c) = ((True, n), s')"
    using o k by (simp add: sock_write_def sys_write_def Let_def s'_def n_def)
  then have r: "resume_write st (cb_sock c) =
      (wr_bufoffs st + n = wr_bufsz st, st\<lparr>wr_bufoffs := wr_bufoffs st + n\<rparr>, s')"
    unfolding resume_write_def Let_def full by simp
  let ?rest = "if wr_bufoffs st + n = wr_bufsz st then rest else st\<lparr>wr_bufoffs := wr_bufoffs st + n\<rparr> # rest"
  have c': "c' = c\<lparr>cb_sock := s', cb_writes := ?rest\<rparr>"
    using assms(4) r w by (auto simp: handle_write_def)
  have q': "length (queued c') = length (queued c) - n"
    using wf n q by (auto simp: c' queued_def pending_def wf_write_def)
  have "length (queued c) \<le> Suc (length evs)" using assms(2) o by (simp add: keeps_up_def)
  then show "keeps_up c'" using q' n o by (auto simp: keeps_up_def c' s'_def)
  show "length (queued c') < length (queued c)" using q' n q by simp
qed

lemma pump_write_progress:
  "wf_writes c \<Longrightarrow> keeps_up c \<Longrightarrow>
   keeps_up (pump_write c) \<and> length (queued (pump_write c)) \<le> length (queued c) - 1"
proof (induction c rule: pump_write.induct)
  case (1 c)
  obtain b c' where h: "handle_write c = (b, c')" by (metis prod.exhaust)
  show ?case
  proof (cases "cb_writes c = []")
    case True
    then have "handle_write c = (False, c)" by (simp add: handle_write_def)
    then show ?thesis using 1 True by (subst (1 2) pump_write.simps) (simp add: queued_def)
  next
    case False
    note p = handle_write_progress [OF 1(2,3) False h]
    show ?thesis
    proof (cases b)
      case True
      then have "keeps_up (pump_write c') \<and> length (queued (pump_write c')) \<le> length (queued c') - 1"
        using 1 h p handle_write_stream(2) [OF 1(2) h] by simp
      then show ?thesis using p h True by (subst (1 2) pump_write.simps) auto
    next
      case False
      then show ?thesis using p h by (subst (1 2) pump_write.simps) auto
    qed
  qed
qed

lemma pump_write_drains:
  "wf_writes c \<Longrightarrow> keeps_up c \<Longrightarrow> length (queued c) \<le> n \<Longrightarrow>
   cb_writes ((pump_write ^^ n) c) = [] \<and> so_sent (cb_sock ((pump_write ^^ n) c)) = outgoing c"
proof (induction n arbitrary: c)
  case 0
  then show ?case by (simp add: wf_queued outgoing_def)
next
  case (Suc n)
  have k: "outgoing (pump_write c) = outgoing c" "wf_writes (pump_write c)"
    using pump_write_keeps [OF Suc(2)] by auto
  have p: "keeps_up (pump_write c)" "length (queued (pump_write c)) \<le> n"
    using pump_write_progress [OF Suc(2,3)] Suc(4) by auto
  show ?case using Suc(1) [OF k(2) p] k(1) by (simp only: funpow_Suc_right comp_apply)
qed

section \<open>From one end to the other\<close>

text \<open>
  A message of fixed-size fields that one client object writes is what another one, whose
  decryption context is in step with the writer's encryption context, reads.
\<close>

lemma fixed_write_delivered:
  assumes "fixed_upto ns n" "n = ns_size ns" "0 < n" "field_off ns n \<le> length buf"
    and "pt = evp_update ks (cb_encrypt c) (take (field_off ns n) buf)"
    and "read_at ns n 0 (cb_read d)" "rd_buf (cb_read d) = None" "cb_decrypt d = cb_encrypt c"
    and "so_in (cb_sock d) = Rchunk (fst pt) # evs"
  shows "\<exists>d'. handle_read B ks d = Some (Inr (Some (take (field_off ns n) buf @
      replicate (alloc_size (field_off ns n) False - field_off ns n) 0), d')) \<and>
      \<not> has_pending_read d' \<and> cb_decrypt d' = snd pt \<and> so_in (cb_sock d') = evs"
proof -
  let ?A = "alloc_size (field_off ns n) False"
  have l: "length (fst pt) = field_off ns n" using assms(4,5) by simp
  have "resume_read B ks d = Some (Inr (True, took ks ?A (field_off ns 0) (concat [] @ take (field_off ns n) (fst pt))
      (if length (fst pt) = field_off ns n then evs else Rchunk (drop (field_off ns n) (fst pt)) # evs) n 0 d))"
    by (rule resume_delivers [OF assms(1,2) refl assms(6)]) (use assms(3,9) l in simp_all)
  then have r: "resume_read B ks d = Some (Inr (True, took ks ?A 0 (fst pt) evs n 0 d))" using l by simp
  have dec: "fst (evp_update ks (cb_decrypt d) (fst pt)) = take (field_off ns n) buf"
      "snd (evp_update ks (cb_decrypt d) (fst pt)) = snd pt"
    using assms(5,8) evp.undo evp.keep_step by auto
  have "patch 0 (take (field_off ns n) buf) (replicate ?A 0) = take (field_off ns n) buf @ replicate (?A - field_off ns n) 0"
    using assms(4) by (simp add: patch_def min_absorb2)
  then show ?thesis
    using r dec assms(7) by (simp add: handle_read_def took_def grow_def has_pending_read_def)
qed

end
