(* ===== verification/Theme_Uru_Crypt.thy ===== *)
theory Theme_Uru_Crypt
  imports Theme_Errors
begin

text \<open>
  \<open>src/src/io/uru_crypt.cpp\<close>: the Diffie-Hellman exchange that keys a connection. OpenSSL's
  \<open>BIGNUM\<close> is a natural number; its conversions and \<open>BN_mod_exp\<close> are written out as documented.
  What OpenSSL chooses (primes, random bytes) and the base-64 coding of the string library
  are parameters, and so is \<open>junk\<close>, the bytes an uninitialised stack array starts with.
\<close>

definition kKeySize :: nat where "kKeySize = 64"

section \<open>BIGNUM\<close>

fun bn_num_bytes :: "nat \<Rightarrow> nat" where
  "bn_num_bytes n = (if n = 0 then 0 else Suc (bn_num_bytes (n div 256)))"

declare bn_num_bytes.simps [simp del]

definition bn_lebin2bn :: "byte list \<Rightarrow> nat" where "bn_lebin2bn bs = le_val bs"
definition bn_bin2bn :: "byte list \<Rightarrow> nat" where "bn_bin2bn bs = le_val (rev bs)"
definition bn_bn2bin :: "nat \<Rightarrow> byte list" where "bn_bn2bin n = rev (le_bytes (bn_num_bytes n) n)"

text \<open>
  \<open>BN_bn2lebinpad\<close> into an array that holds \<open>old\<close>: nothing is written when the number does
  not fit. \<open>BN_mod_exp\<close> fails on a zero modulus and leaves the fresh result at zero.
\<close>

definition bn_bn2lebinpad :: "nat \<Rightarrow> nat \<Rightarrow> byte list \<Rightarrow> byte list" where
  "bn_bn2lebinpad n tolen old = (if bn_num_bytes n \<le> tolen then le_bytes tolen n else old)"

definition bn_mod_exp :: "nat \<Rightarrow> nat \<Rightarrow> nat \<Rightarrow> nat" where
  "bn_mod_exp a p m = (if m = 0 then 0 else a ^ p mod m)"

section \<open>The operations\<close>

text \<open>The constructor may run once only: \<open>init\<close> is the static flag.\<close>

definition crypto_new :: "bool \<Rightarrow> bool \<Rightarrow> bool res" where
  "crypto_new init rand_poll_ok =
     bindE (assertr (\<not> init)) (\<lambda>_. bindE (assertr rand_poll_ok) (\<lambda>_. Inr True))"

text \<open>
  \<open>generate_keys\<close>: \<open>prime_k\<close> and \<open>prime_n\<close> are what \<open>BN_generate_prime_ex\<close> found. The three arrays
  start with junk; \<open>BN_bn2bin\<close> writes the bytes of the number at their front.
\<close>

definition prime_result :: "build \<Rightarrow> nat option \<Rightarrow> nat res" where
  "prime_result B r = (case r of Some p \<Rightarrow> Inr p | None \<Rightarrow> bindE (assertd B False) (\<lambda>_. Inr 0))"

definition generate_keys ::
    "build \<Rightarrow> (byte list \<Rightarrow> string) \<Rightarrow> nat option \<Rightarrow> nat option \<Rightarrow> byte list \<times> byte list \<times> byte list \<Rightarrow> u32
     \<Rightarrow> (string \<times> string \<times> string) res" where
  "generate_keys B base64_encode prime_k prime_n junk g_value =
     bindE (prime_result B prime_k) (\<lambda>k.
     bindE (prime_result B prime_n) (\<lambda>n.
     let x = bn_mod_exp (unat g_value) k n in
     bindE (mem_write (fst junk) 0 (bn_bn2bin k)) (\<lambda>k_key.
     bindE (mem_write (fst (snd junk)) 0 (bn_bn2bin n)) (\<lambda>n_key.
     bindE (mem_write (snd (snd junk)) 0 (bn_bn2bin x)) (\<lambda>x_key.
     Inr (base64_encode k_key, base64_encode n_key, base64_encode x_key))))))"

text \<open>
  \<open>load_key\<close>: \<open>base64_decode key size\<close> is \<open>None\<close> for a string that does not decode into so many
  bytes; nothing is written then.
\<close>

definition load_key ::
    "build \<Rightarrow> (string \<Rightarrow> nat \<Rightarrow> byte list option) \<Rightarrow> byte list \<Rightarrow> string \<Rightarrow> nat res" where
  "load_key B base64_decode junk key =
     (case base64_decode key kKeySize of
        None \<Rightarrow> bindE (assertd B False) (\<lambda>_. Inr (bn_bin2bn junk))
      | Some bs \<Rightarrow>
          bindE (mem_write junk 0 bs) (\<lambda>key_bytes.
          bindE (assertd B (length bs = kKeySize)) (\<lambda>_.
          Inr (bn_bin2bn key_bytes))))"

text \<open>\<open>make_server_key\<close>: \<open>rand\<close> is what \<open>RAND_bytes\<close> leaves in \<open>srv_seed\<close>; \<open>None\<close> is \<open>false\<close>.\<close>

definition make_server_key ::
    "nat \<Rightarrow> nat \<Rightarrow> nat \<Rightarrow> byte list \<Rightarrow> nat \<Rightarrow> byte list \<Rightarrow> byte list \<Rightarrow> (byte list \<times> byte list) option res" where
  "make_server_key k n cli_seedsz y_data keysz rand junk =
     (if cli_seedsz < keysz then Inr None
      else
        bindE (mem_read y_data 0 cli_seedsz) (\<lambda>ys.
        let seed = bn_mod_exp (bn_lebin2bn ys) k n;
            cli_seed = bn_bn2lebinpad seed kKeySize junk;
            srv_seed = take keysz rand
        in bindE (mem_read cli_seed 0 keysz) (\<lambda>cs. Inr (Some (srv_seed, map2 (XOR) cs srv_seed)))))"

section \<open>Numbers and their bytes\<close>

lemma bn_num_bytes_le: "n < 256 ^ m \<longleftrightarrow> bn_num_bytes n \<le> m"
proof (induction m arbitrary: n)
  case 0
  then show ?case by (subst bn_num_bytes.simps) auto
next
  case (Suc m)
  have "n < 256 ^ Suc m \<longleftrightarrow> n div 256 < 256 ^ m" by (simp add: div_less_iff_less_mult mult.commute)
  then show ?case using Suc [of "n div 256"] by (subst bn_num_bytes.simps) auto
qed

lemma le_val_fit: "n < 256 ^ m \<Longrightarrow> le_val (le_bytes m n) = n"
  by (simp add: le_val_bytes)

lemma bn_bin2bn_bn2bin [simp]: "bn_bin2bn (bn_bn2bin n) = n"
  by (simp add: bn_bin2bn_def bn_bn2bin_def le_val_fit bn_num_bytes_le)

lemma le_val_append: "le_val (as @ bs) = le_val as + 256 ^ length as * le_val bs"
  by (induction as) (simp_all add: algebra_simps)

lemma bn_bin2bn_append: "bn_bin2bn (as @ bs) = bn_bin2bn as * 256 ^ length bs + bn_bin2bn bs"
  by (simp add: bn_bin2bn_def le_val_append)

lemma bn_mod_exp_less: "0 < m \<Longrightarrow> bn_mod_exp a p m < m"
  by (simp add: bn_mod_exp_def)

text \<open>Both sides of the exchange compute one number.\<close>

lemma bn_mod_exp_commute: "bn_mod_exp (bn_mod_exp g a n) b n = bn_mod_exp (bn_mod_exp g b n) a n"
  by (simp add: bn_mod_exp_def power_mod power_mult [symmetric] mult.commute)

section \<open>Keys are stored and loaded\<close>

text \<open>
  What an array of 64 bytes holds after \<open>BN_bn2bin\<close> wrote \<open>x\<close> at its front is the number \<open>x\<close>
  only when \<open>x\<close> fills the array.
\<close>

lemma stored_full:
  assumes "length junk = kKeySize" "bn_num_bytes x = kKeySize"
  shows "mem_write junk 0 (bn_bn2bin x) = Inr (bn_bn2bin x)"
  using assms by (simp add: mem_write_in patch_def bn_bn2bin_def)

lemma stored_short:
  assumes "length junk = kKeySize" "0 < x" "bn_num_bytes x < kKeySize"
  shows "\<exists>a. mem_write junk 0 (bn_bn2bin x) = Inr a \<and> bn_bin2bn a \<noteq> x \<and> length a = kKeySize"
proof -
  let ?bs = "bn_bn2bin x" and ?r = "drop (bn_num_bytes x) junk"
  have l: "length ?bs = bn_num_bytes x" by (simp add: bn_bn2bin_def)
  have w: "mem_write junk 0 ?bs = Inr (?bs @ ?r)" using assms l by (simp add: mem_write_in patch_def)
  have "0 < length ?r" using assms by simp
  then have "(1 :: nat) < 256 ^ length ?r" by (intro one_less_power) simp_all
  then have "x < x * 256 ^ length ?r" using assms(2) by simp
  then have "x < x * 256 ^ length ?r + bn_bin2bn ?r" by (rule trans_less_add1)
  then have "bn_bin2bn (?bs @ ?r) \<noteq> x" by (simp only: bn_bin2bn_append bn_bin2bn_bn2bin)
  then show ?thesis using w l assms by simp
qed

lemma load_key_encoded:
  assumes "base64_decode (base64_encode bs) kKeySize = Some bs" "length bs = kKeySize" "length junk = kKeySize"
  shows "load_key B base64_decode junk (base64_encode bs) = Inr (bn_bin2bn bs)"
  using assms by (simp add: load_key_def mem_write_in patch_def)

lemma generate_keys_eq:
  assumes "length jk = kKeySize" "length jn = kKeySize" "length jx = kKeySize"
    and "bn_num_bytes k = kKeySize" "bn_num_bytes n = kKeySize" "x = bn_mod_exp (unat g) k n"
  shows "\<exists>x_key. mem_write jx 0 (bn_bn2bin x) = Inr x_key \<and> length x_key = kKeySize \<and>
    generate_keys B enc (Some k) (Some n) (jk, jn, jx) g =
      Inr (enc (bn_bn2bin k), enc (bn_bn2bin n), enc x_key)"
proof -
  have "0 < n" using assms(5) by (auto simp: kKeySize_def bn_num_bytes.simps [of n] split: if_splits)
  then have "x < n" unfolding assms(6) by (rule bn_mod_exp_less)
  then have "bn_num_bytes x \<le> kKeySize"
    using assms(5) bn_num_bytes_le [of n kKeySize] bn_num_bytes_le [of x kKeySize] by simp
  then have "length (bn_bn2bin x) \<le> length jx" using assms(3) by (simp add: bn_bn2bin_def)
  then have w: "mem_write jx 0 (bn_bn2bin x) = Inr (patch 0 (bn_bn2bin x) jx)" "length (patch 0 (bn_bn2bin x) jx) = kKeySize"
    using assms(3) by (simp_all add: mem_write_in)
  then show ?thesis
    using stored_full [OF assms(1,4)] stored_full [OF assms(2,5)] assms(6)
    by (simp add: generate_keys_def prime_result_def)
qed

section \<open>The exchange\<close>

text \<open>
  The client, which is not part of this program, knows \<open>X = g ^ K mod N\<close>, picks \<open>b\<close>, sends
  \<open>g ^ b mod N\<close> and computes \<open>X ^ b mod N\<close>.
\<close>

lemma make_server_key_agrees:
  assumes "0 < n" "n < 256 ^ kKeySize" "X = bn_mod_exp g k n"
    and "y_data = le_bytes kKeySize (bn_mod_exp g b n) @ rest" "keysz \<le> kKeySize" "length rand = keysz"
  shows "make_server_key k n kKeySize y_data keysz rand junk =
    Inr (Some (rand, map2 (XOR) (take keysz (le_bytes kKeySize (bn_mod_exp X b n))) rand))"
proof -
  have lt: "bn_mod_exp a p n < 256 ^ kKeySize" for a p
    using bn_mod_exp_less [OF assms(1), of a p] assms(2) by simp
  have pad: "bn_bn2lebinpad (bn_mod_exp a p n) kKeySize junk = le_bytes kKeySize (bn_mod_exp a p n)" for a p
    using lt by (simp add: bn_bn2lebinpad_def bn_num_bytes_le)
  have "mem_read y_data 0 kKeySize = Inr (le_bytes kKeySize (bn_mod_exp g b n))"
    by (simp add: assms(4) mem_read_in)
  then show ?thesis
    using assms(5,6) lt
    by (simp add: make_server_key_def Let_def bn_lebin2bn_def le_val_fit bn_mod_exp_commute [of g b] pad assms(3)
        mem_read_in)
qed

lemma make_server_key_short: "cli_seedsz < keysz \<Longrightarrow>
  make_server_key k n cli_seedsz y_data keysz rand junk = Inr None"
  by (simp add: make_server_key_def)

end
