(* ===== verification/Theme_Client.thy ===== *)
theory Theme_Client
  imports Theme_Write_Path Theme_Uru_Crypt
begin

text \<open>
  \<open>src/src/daemon/client.h\<close> and \<open>client_common.cpp\<close>: a connected client, the handler of its
  first packet (\<open>incoming_client\<close>) and the key exchange all encrypted services share
  (\<open>encrypted_handler\<close>). A message handler gets the buffer of one complete message and answers
  whether to go on; accesses to the buffer are checked. Log lines are not modelled.
\<close>

section \<open>State\<close>

definition e_polling :: u32 where "e_polling = 1"
definition e_encrypted :: u32 where "e_encrypted = 2"
definition e_wantClientSeed :: u32 where "e_wantClientSeed = 4"
definition e_wantMsgHeader :: u32 where "e_wantMsgHeader = 8"

lemmas flag_defs = e_polling_def e_encrypted_def e_wantClientSeed_def e_wantMsgHeader_def

text \<open>The handler object: a gatekeeper owns the count of its variable-length field.\<close>

datatype handler = Incoming_Handler | Gatekeeper_Handler nat

record client =
  cl_base :: client_base
  cl_flags :: u32
  cl_handler :: handler

text \<open>
  What a handler takes from around it: the build, OpenSSL's key stream and random bytes, the
  bytes stack memory starts with (an uninitialised reply of \<open>n\<close> bytes, an uninitialised seed
  array), and the gatekeeper daemon's configuration and keys.
\<close>

record gatekeeper_daemon =
  gd_authsrv :: "u16 list"
  gd_filesrv :: "u16 list"
  gd_cryptK :: nat
  gd_cryptN :: nat

record env =
  en_build :: build
  en_ks :: keystream
  en_rand :: "byte list"
  en_stack :: "nat \<Rightarrow> byte list"
  en_seed_junk :: "byte list"
  en_gate :: gatekeeper_daemon

definition wf_env :: "env \<Rightarrow> bool" where
  "wf_env E \<longleftrightarrow> (\<forall>n. length (en_stack E n) = n) \<and> length (en_rand E) = 7 \<and> length (en_seed_junk E) = kKeySize"

definition has_flag :: "u32 \<Rightarrow> client \<Rightarrow> bool" where
  "has_flag f cl \<longleftrightarrow> cl_flags cl AND f \<noteq> 0"

definition set_flag :: "u32 \<Rightarrow> client \<Rightarrow> client" where
  "set_flag f cl = cl\<lparr>cl_flags := cl_flags cl OR f\<rparr>"

definition clear_flag :: "u32 \<Rightarrow> client \<Rightarrow> client" where
  "clear_flag f cl = cl\<lparr>cl_flags := cl_flags cl AND NOT f\<rparr>"

abbreviation on_base :: "(client_base \<Rightarrow> client_base) \<Rightarrow> client \<Rightarrow> client" where
  "on_base f cl \<equiv> cl\<lparr>cl_base := f (cl_base cl)\<rparr>"

definition cli_read :: "net_struct \<Rightarrow> client \<Rightarrow> client" where
  "cli_read ns = on_base (read_struct ns)"

definition cli_write :: "env \<Rightarrow> net_struct \<Rightarrow> byte list \<Rightarrow> client \<Rightarrow> client res" where
  "cli_write E ns buf cl =
     bindE (enqueue_write (en_build E) (en_ks E) ns buf (cl_base cl)) (\<lambda>b. Inr (cl\<lparr>cl_base := b\<rparr>))"

text \<open>The constructor; \<open>polled\<close> is the result of \<open>add_fd\<close>.\<close>

definition client_new :: "sock \<Rightarrow> bool \<Rightarrow> client" where
  "client_new s polled =
     cli_read common_connection_header
       \<lparr>cl_base = client_base_new s, cl_flags = (if polled then e_polling else 0),
        cl_handler = Incoming_Handler\<rparr>"

section \<open>The first packet\<close>

text \<open>
  \<open>encrypted_handler\<close>'s constructor sets up the read; \<open>create_gate\<close> makes a \<open>gatekeeper_server\<close>,
  which runs it, and the first packet's handler installs the result.
\<close>

definition encrypted_handler_new :: "client \<Rightarrow> client" where
  [simp]: "encrypted_handler_new cl = cli_read common_encrypt_header cl"

definition create_gate :: "client \<Rightarrow> client" where
  "create_gate cl = (encrypted_handler_new cl)\<lparr>cl_handler := Gatekeeper_Handler 0\<rparr>"

definition incoming_read :: "byte list \<Rightarrow> client \<Rightarrow> (bool \<times> client) res" where
  "incoming_read buf cl =
     bindE (mem_read buf 0 1) (\<lambda>_.
     if get_uint8 0 buf = e_protocolCli2Gate then Inr (True, create_gate cl)
     else Inr (False, cl))"

section \<open>The key exchange\<close>

text \<open>The private struct of \<open>encrypted_handler\<close>, once its field's count is set.\<close>

definition encryptMsg :: "nat \<Rightarrow> net_struct" where
  "encryptMsg count =
     \<lparr>ns_name = ''m_encryptMsg'',
      ns_fields = [\<lparr>nf_type = e_blob, nf_name = ''buffer'', nf_elementsz = 1, nf_count = count\<rparr>]\<rparr>"

definition handle_handshake :: "build \<Rightarrow> byte list \<Rightarrow> client \<Rightarrow> (bool \<times> client) res" where
  "handle_handshake B buf cl =
     bindE (mem_read buf 0 2) (\<lambda>_.
     if get_uint8 0 buf \<noteq> e_c2s_connect then Inr (False, cl)
     else let bufsz = get_uint8 1 buf in
       if bufsz \<noteq> 2 \<and> bufsz \<noteq> 66 then Inr (False, cl)
       else if bufsz = 2 then
         (if allow_decrypted B then Inr (True, set_flag e_encrypted cl) else Inr (False, cl))
       else
         let count = unat bufsz - 2
         in Inr (True, set_flag e_wantClientSeed
                   (cli_read (encryptMsg count) (cl\<lparr>cl_handler := Gatekeeper_Handler count\<rparr>))))"

text \<open>
  \<open>handle_ydata\<close> with the two virtual calls as arguments. The reply is a packed struct of nine
  bytes on the stack; it is written before the key is set, so it goes out in the clear.
\<close>

definition sizeof_encrypt_s2c :: nat where "sizeof_encrypt_s2c = 9"
definition sizeof_srvSeed :: nat where "sizeof_srvSeed = 7"

definition handle_ydata ::
    "env \<Rightarrow> (client \<Rightarrow> nat \<times> nat) \<Rightarrow> (client \<Rightarrow> bool \<times> client) \<Rightarrow> nat \<Rightarrow> byte list \<Rightarrow> client
     \<Rightarrow> (bool \<times> client) res" where
  "handle_ydata E get_keys handle_encryption count buf cl =
     (let keys = get_keys cl;
          reply = set_uint8 1 (word_of_nat sizeof_encrypt_s2c)
                    (set_uint8 0 e_s2c_encrypt (en_stack E sizeof_encrypt_s2c))
      in bindE (make_server_key (fst keys) (snd keys) count buf sizeof_srvSeed (en_rand E) (en_seed_junk E))
         (\<lambda>result.
            case result of
              None \<Rightarrow> Inr (False, cl)
            | Some (srv_seed, key) \<Rightarrow>
                bindE (cli_write E common_encrypt_s2c (patch 2 srv_seed reply) cl) (\<lambda>cl1.
                Inr (handle_encryption
                  (set_flag e_encrypted (on_base (set_crypt_key sizeof_srvSeed key) cl1))))))"

definition encrypted_read ::
    "env \<Rightarrow> (client \<Rightarrow> nat \<times> nat) \<Rightarrow> (client \<Rightarrow> bool \<times> client) \<Rightarrow> nat \<Rightarrow> byte list \<Rightarrow> client
     \<Rightarrow> (bool \<times> client) res" where
  "encrypted_read E get_keys handle_encryption count buf cl =
     bindE (assertd (en_build E) (\<not> has_flag e_encrypted cl)) (\<lambda>_.
     if \<not> has_flag e_wantClientSeed cl then handle_handshake (en_build E) buf cl
     else handle_ydata E get_keys handle_encryption count buf (clear_flag e_wantClientSeed cl))"

section \<open>Facts about flags\<close>

lemma flag_updates [simp]:
  "has_flag f (set_flag f cl) \<longleftrightarrow> f \<noteq> 0" "\<not> has_flag f (clear_flag f cl)"
  "cl_base (set_flag f cl) = cl_base cl" "cl_base (clear_flag f cl) = cl_base cl"
  "cl_handler (set_flag f cl) = cl_handler cl" "cl_handler (clear_flag f cl) = cl_handler cl"
  by (simp_all add: has_flag_def set_flag_def clear_flag_def bit.conj_disj_distrib2 and.assoc)

lemma other_flags [simp]:
  "f AND g = 0 \<Longrightarrow> has_flag f (set_flag g cl) = has_flag f cl"
  "f AND g = 0 \<Longrightarrow> has_flag f (clear_flag g cl) = has_flag f cl"
proof -
  assume fg: "f AND g = 0"
  have gf: "g AND f = 0" using fg by (simp add: and.commute)
  then show "has_flag f (set_flag g cl) = has_flag f cl"
    by (simp add: has_flag_def set_flag_def bit.conj_disj_distrib2)
  have "NOT g AND f = f"
  proof (rule bit_eqI)
    fix n show "bit (NOT g AND f) n = bit f n"
      using fg [THEN arg_cong [where f = "\<lambda>w. bit w n"]] by (auto simp: bit_simps dest: bit_imp_le_length)
  qed
  then show "has_flag f (clear_flag g cl) = has_flag f cl"
    by (simp add: has_flag_def clear_flag_def and.assoc)
qed

lemma flags_disjoint [simp]:
  "e_polling AND e_encrypted = 0" "e_polling AND e_wantClientSeed = 0" "e_polling AND e_wantMsgHeader = 0"
  "e_encrypted AND e_polling = 0" "e_encrypted AND e_wantClientSeed = 0" "e_encrypted AND e_wantMsgHeader = 0"
  "e_wantClientSeed AND e_polling = 0" "e_wantClientSeed AND e_encrypted = 0"
  "e_wantClientSeed AND e_wantMsgHeader = 0" "e_wantMsgHeader AND e_polling = 0"
  "e_wantMsgHeader AND e_encrypted = 0" "e_wantMsgHeader AND e_wantClientSeed = 0"
  "e_polling \<noteq> 0" "e_encrypted \<noteq> 0" "e_wantClientSeed \<noteq> 0" "e_wantMsgHeader \<noteq> 0"
  by (simp_all add: flag_defs)

lemma has_flag_other [simp]:
  "has_flag f (cli_read ns cl) = has_flag f cl" "has_flag f (cl\<lparr>cl_handler := h\<rparr>) = has_flag f cl"
  "has_flag f (cl\<lparr>cl_base := b\<rparr>) = has_flag f cl" "has_flag f (create_gate cl) = has_flag f cl"
  by (simp_all add: has_flag_def cli_read_def create_gate_def)

end
