(* ===== verification/Theme_Messages.thy ===== *)
theory Theme_Messages
  imports Theme_Write_Path
begin

text \<open>
  The messages of \<open>src/src/protocol\<close> in the terms of the read and write paths: which of them
  have a fixed size or end in a sized buffer, what their accessors store, and which prefix
  of a packed struct goes out.
\<close>

section \<open>Shapes\<close>

lemma fixed_struct_upto:
  assumes "fixed_struct ns" "field_off ns (ns_size ns) < size_max"
  shows "fixed_upto ns (ns_size ns)" "0 < ns_size ns"
  using assms fixed_structD [OF assms(1)] by (auto simp: fixed_upto_def fixed_struct_def)

lemma message_sizes:
  "field_off common_encrypt_header (ns_size common_encrypt_header) = 2"
  "field_off common_encrypt_s2c (ns_size common_encrypt_s2c) = 9"
  "field_off common_msg_std_header (ns_size common_msg_std_header) = 2"
  "field_off common_msg_size_header (ns_size common_msg_size_header) = 4"
  "field_off gatekeeper_fileSrvRequest (ns_size gatekeeper_fileSrvRequest) = 7"
  "field_off gatekeeper_authSrvRequest (ns_size gatekeeper_authSrvRequest) = 6"
  "field_off gatekeeper_fileSrvReply (ns_size gatekeeper_fileSrvReply) = 56"
  "field_off gatekeeper_authSrvReply (ns_size gatekeeper_authSrvReply) = 56"
  "field_off common_connection_header 7 = 35"
  "field_off gatekeeper_pingRequest 4 = 14"
  "field_off gatekeeper_pingReply 4 = 14"
  by (simp_all add: field_off_def message_defs NET_FIELD_defs)

lemma fixed_messages:
  "fixed_struct common_encrypt_header" "fixed_struct common_encrypt_s2c"
  "fixed_struct common_msg_std_header" "fixed_struct common_msg_size_header"
  "fixed_struct gatekeeper_fileSrvRequest" "fixed_struct gatekeeper_authSrvRequest"
  by (simp_all add: fixed_struct_def message_defs NET_FIELD_defs fixed_field_def fixed_type_def)

lemma all_nth_take: "v \<le> length xs \<Longrightarrow> (\<forall>i<v. P (xs ! i)) = list_all P (take v xs)"
  by (simp add: list_all_length)

lemma fixed_uptoI:
  "v \<le> ns_size ns \<Longrightarrow> field_off ns v < size_max \<Longrightarrow>
   list_all (\<lambda>f. fixed_field f \<and> 0 < field_sz f) (take v (ns_fields ns)) \<Longrightarrow> fixed_upto ns v"
  by (simp add: fixed_upto_def all_nth_take [where P = "\<lambda>f. fixed_field f \<and> 0 < field_sz f", simplified])

lemma fixed_but_lastI:
  "Suc v = ns_size ns \<Longrightarrow> field_off ns v < size_max \<Longrightarrow> list_all fixed_field (take v (ns_fields ns)) \<Longrightarrow>
   fixed_but_last ns v"
  by (simp add: fixed_but_last_def all_nth_take)

lemmas shape_defs = message_defs NET_FIELD_defs fixed_field_def fixed_type_def field_off_def

lemma tails_fixed:
  "fixed_upto common_connection_header 7" "fixed_upto gatekeeper_pingRequest 4" "fixed_upto gatekeeper_pingReply 4"
  by (rule fixed_uptoI; simp add: shape_defs)+

lemma tails_sized:
  "sized_tail common_connection_header 7" "sized_tail gatekeeper_pingRequest 4" "sized_tail gatekeeper_pingReply 4"
  by (simp_all add: sized_tail_def message_defs NET_FIELD_defs)

lemma written_messages:
  "fixed_but_last common_encrypt_s2c 2" "fixed_but_last gatekeeper_pingReply 4"
  "fixed_but_last gatekeeper_fileSrvReply 3" "fixed_but_last gatekeeper_authSrvReply 3"
  by (rule fixed_but_lastI; simp add: shape_defs)+

text \<open>The string that ends a reply: its size is counted in code units.\<close>

lemma calc_reply_string:
  assumes "ns_fields ns = ns_fields gatekeeper_fileSrvReply" "8 \<le> length m"
    and "le_val (take 2 (drop 6 m)) = n" "n \<le> 1024"
  shows "calc_field_sz B ns 3 (At m 8) = Inr (True, 48, 2 * n)"
proof -
  have "ns_size ns = 4" "ns_fields ns ! 3 = \<lparr>nf_type = e_string_utf16, nf_name = ''address'', nf_elementsz = 2, nf_count = 24\<rparr>"
    "ns_fields ns ! 2 = \<lparr>nf_type = e_buffer_size, nf_name = ''addresssz'', nf_elementsz = 2, nf_count = 1\<rparr>"
    by (simp_all add: assms(1) message_defs NET_FIELD_defs)
  moreover have "mem_read m 6 2 = Inr (take 2 (drop 6 m))" using assms(2) by (simp add: mem_read_in)
  ultimately show ?thesis
    using assms(2-4)
    by (simp add: calc_field_sz_def extract_elementcount_def extract_integer_def unat_load16
        kMaxBufCount_def fixed_type_def)
qed

section \<open>Strings\<close>

lemma length_chars_store [simp]: "length (chars_store B cs) = 2 * length cs"
  by (induction cs) (simp_all add: chars_store_def)

lemma chars_store_append: "chars_store B (xs @ ys) = chars_store B xs @ chars_store B ys"
  by (simp add: chars_store_def)

lemma chars_load_store: "chars_load B (length cs) (chars_store B cs @ m) = cs"
proof (induction cs)
  case (Cons c cs)
  have "native_load B (native_store B 2 (unat c)) = unat c"
    using unat_u16_less [of c] by (rule native_load_store)
  with Cons show ?case by (simp add: chars_store_def)
qed simp

text \<open>
  What the setter stores of a string: all of it when it is shorter than the member, and
  otherwise \<open>szval\<close> code units of which the last is overwritten with the terminator.
\<close>

definition stored_string :: "nat \<Rightarrow> u16 list \<Rightarrow> u16 list" where
  "stored_string szval value = (if length value < szval then value else take (szval - 1) value @ [0])"

lemma length_stored_string: "0 < szval \<Longrightarrow> length (stored_string szval value) = min szval (length value)"
  by (auto simp: stored_string_def)

lemma length_set_string:
  "off + 2 + 2 * szval \<le> length m \<Longrightarrow> 0 < szval \<Longrightarrow> length (set_string B off szval value m) = length m"
  by (simp add: set_string_def Let_def)

text \<open>The characters and the terminator a setter writes.\<close>

lemma string_text_written:
  assumes "off + 2 + 2 * szval \<le> length m" "0 < szval" "sz = min szval (length value)"
    and "m1 = patch (off + 2) (chars_store B (take sz value)) m"
    and "m2 = patch (off + 2 + 2 * min (szval - 1) (length value)) (native_store B 2 0) m1"
  shows "take (off + 2 + 2 * sz) m2 = take (off + 2) m @ chars_store B (stored_string szval value)" "length m2 = length m"
proof -
  define cs where "cs = chars_store B (take sz value)"
  define p where "p = off + 2 + 2 * min (szval - 1) (length value)"
  have l: "length cs = 2 * sz" "length m1 = length m" "p + 2 \<le> length m"
    using assms(1-4) by (auto simp: cs_def p_def min_def)
  show "length m2 = length m" using l by (simp add: assms(5) p_def)
  have cs: "take (off + 2 + 2 * sz) m1 = take (off + 2) m @ cs"
    using take_patch_upto [of "off + 2" cs m] l assms by (simp add: cs_def)
  show "take (off + 2 + 2 * sz) m2 = take (off + 2) m @ chars_store B (stored_string szval value)"
  proof (cases "length value < szval")
    case True
    then have sz: "sz = length value" "p = off + 2 + 2 * sz" using assms(3) by (auto simp: p_def)
    then have "take (off + 2 + 2 * sz) m2 = take (off + 2 + 2 * sz) m1"
      using l unfolding assms(5) p_def [symmetric] by (intro take_patch_before) simp_all
    then show ?thesis using cs sz True by (simp add: cs_def stored_string_def)
  next
    case False
    then have sz: "sz = szval" "p = off + 2 + 2 * (szval - 1)" using assms(3) by (auto simp: p_def)
    have pe: "p + 2 = off + 2 + 2 * sz" using sz assms(2) by simp
    have "take sz value = take (szval - 1) value @ take 1 (drop (szval - 1) value)"
      using sz(1) assms(2) take_add [of "szval - 1" 1 "value"] by simp
    moreover have "length (chars_store B (take (szval - 1) value)) = 2 * (szval - 1)" using False by simp
    ultimately have "take (2 * (szval - 1)) cs = chars_store B (take (szval - 1) value)" by (simp add: cs_def chars_store_append)
    moreover have "take p m1 = take p (take (off + 2) m @ cs)" unfolding cs [symmetric] using pe by (simp add: min_def)
    ultimately have t1: "take p m1 = take (off + 2) m @ chars_store B (take (szval - 1) value)" using l sz(2) assms(1) by simp
    have "take (p + 2) m2 = take p m1 @ native_store B 2 0"
      using take_patch_upto [of p "native_store B 2 0" m1] l by (simp add: assms(5) p_def)
    then show ?thesis using False t1 pe by (simp add: stored_string_def chars_store_append) (simp add: chars_store_def)
  qed
qed

lemma take_set_string:
  assumes "off + 2 + 2 * szval \<le> length m" "0 < szval" "sz = min szval (length value)"
  shows "take (off + 2 + 2 * sz) (set_string B off szval value m) =
    take off m @ store16 B (word_of_nat sz) @ chars_store B (stored_string szval value)"
proof -
  define m1 where "m1 = patch (off + 2) (chars_store B (take sz value)) m"
  define m2 where "m2 = patch (off + 2 + 2 * min (szval - 1) (length value)) (native_store B 2 0) m1"
  note tx = string_text_written [OF assms m1_def m2_def]
  have ss: "set_string B off szval value m = patch off (store16 B (word_of_nat sz)) m2"
    by (simp add: set_string_def store16_def Let_def m2_def m1_def assms(3))
  have l16: "length (store16 B (word_of_nat sz)) = 2" by simp
  have "take off m2 = take off (take (off + 2 + 2 * sz) m2)" by simp
  then have o: "take off m2 = take off m" unfolding tx(1) using assms(1) by simp
  have "take (2 * sz) (drop (off + 2) m2) = drop (off + 2) (take (off + 2 + 2 * sz) m2)"
    by (simp add: drop_take)
  then have d: "take (2 * sz) (drop (off + 2) m2) = chars_store B (stored_string szval value)"
    unfolding tx(1) using assms(1) by simp
  show ?thesis
    unfolding ss using tx(2) l16 assms o d by (simp add: patch_def min_absorb2)
qed

text \<open>Reading a stored string back, on a little-endian host.\<close>

lemma get_set_string:
  assumes "off + 2 + 2 * szval \<le> length m" "0 < szval" "szval < 2 ^ 16" "\<not> big_endian B"
  shows "get_string B off (set_string B off szval value m) = stored_string szval value"
proof -
  let ?sz = "min szval (length value)" and ?m = "set_string B off szval value m"
  let ?h = "take off m @ store16 B (word_of_nat ?sz)"
  have "take (off + 2 + 2 * ?sz) ?m = ?h @ chars_store B (stored_string szval value)"
    using take_set_string [OF assms(1,2) refl, of "value" B] by simp
  then obtain r where m: "?m = ?h @ chars_store B (stored_string szval value) @ r"
    by (metis append_take_drop_id append.assoc)
  have l: "length (take off m) = off" "length (store16 B (word_of_nat ?sz)) = 2" using assms(1) by simp_all
  have "native_load B (store16 B (word_of_nat ?sz)) = ?sz"
    using assms(3,4) by (simp add: native_load_def store16_le le_val_bytes unat_of_nat)
  moreover have "length (stored_string szval value) = ?sz" using assms(2) by (rule length_stored_string)
  ultimately show ?thesis
    unfolding get_string_def m using l chars_load_store [of B "stored_string szval value" r] by simp
qed

end
