(* ===== verification/Theme_Gatekeeper.thy ===== *)
theory Theme_Gatekeeper
  imports Theme_Client Theme_Messages
begin

text \<open>
  \<open>src/src/daemon/gatekeeper.cpp\<close>: the service that tells clients where the file and auth
  servers are. Its handler first lets \<open>encrypted_handler\<close> exchange keys, then alternates
  between reading a message's type and reading and answering the message.
\<close>

section \<open>The handler\<close>

definition get_keys :: "env \<Rightarrow> client \<Rightarrow> nat \<times> nat" where
  "get_keys E cl = (gd_cryptK (en_gate E), gd_cryptN (en_gate E))"

text \<open>A ping is answered with its own bytes.\<close>

definition handle_ping :: "env \<Rightarrow> byte list \<Rightarrow> client \<Rightarrow> (bool \<times> client) res" where
  "handle_ping E buf cl = bindE (cli_write E gatekeeper_pingReply buf cl) (\<lambda>cl1. Inr (True, cl1))"

text \<open>
  Both requests are answered with a \<open>gatekeeper_fileSrvReply\<close>, 56 packed bytes on the stack:
  type at 0, transaction at 2, the string's size at 6 and its 24 code units at 8.
\<close>

definition sizeof_fileSrvReply :: nat where "sizeof_fileSrvReply = 56"

definition handle_fileSrvReq :: "env \<Rightarrow> byte list \<Rightarrow> client \<Rightarrow> (bool \<times> client) res" where
  "handle_fileSrvReq E buf cl =
     bindE (mem_read buf 2 4) (\<lambda>_.
     let B = en_build E;
         reply = set_string B 6 24 (gd_filesrv (en_gate E))
                   (set_uint32 B 2 (get_uint32 B 2 buf)
                     (set_uint16 B 0 e_fileSrvReply (en_stack E sizeof_fileSrvReply)))
     in bindE (cli_write E gatekeeper_fileSrvReply reply cl) (\<lambda>cl1. Inr (True, cl1)))"

definition handle_authSrvReq :: "env \<Rightarrow> byte list \<Rightarrow> client \<Rightarrow> (bool \<times> client) res" where
  "handle_authSrvReq E buf cl =
     bindE (mem_read buf 2 4) (\<lambda>_.
     let B = en_build E;
         reply = set_string B 6 24 (gd_authsrv (en_gate E))
                   (set_uint32 B 2 (get_uint32 B 2 buf)
                     (set_uint16 B 0 e_fileSrvReply (en_stack E sizeof_fileSrvReply)))
     in bindE (cli_write E gatekeeper_fileSrvReply reply cl) (\<lambda>cl1. Inr (True, cl1)))"

definition handle_encryption :: "client \<Rightarrow> bool \<times> client" where
  "handle_encryption cl = (True, cli_read common_msg_std_header (set_flag e_wantMsgHeader cl))"

definition dispatch_msg :: "env \<Rightarrow> byte list \<Rightarrow> client \<Rightarrow> (bool \<times> client) res" where
  "dispatch_msg E buf cl =
     bindE (mem_read buf 0 2) (\<lambda>_.
     let type = get_uint16 (en_build E) 0 buf in
     if type = e_pingRequest then handle_ping E buf cl
     else if type = e_fileSrvRequest then handle_fileSrvReq E buf cl
     else if type = e_authSrvRequest then handle_authSrvReq E buf cl
     else Inr (False, cl))"

definition read_msg :: "build \<Rightarrow> byte list \<Rightarrow> client \<Rightarrow> (bool \<times> client) res" where
  "read_msg B buf cl =
     bindE (mem_read buf 0 2) (\<lambda>_.
     let type = get_uint16 B 0 buf;
         go = (\<lambda>ns. Inr (True, on_base (read_resume ns 1 (Some buf)) cl))
     in if type = e_pingRequest then go gatekeeper_pingRequest
        else if type = e_fileSrvRequest then go gatekeeper_fileSrvRequest
        else if type = e_authSrvRequest then go gatekeeper_authSrvRequest
        else Inr (False, cl))"

definition gatekeeper_read :: "env \<Rightarrow> nat \<Rightarrow> byte list \<Rightarrow> client \<Rightarrow> (bool \<times> client) res" where
  "gatekeeper_read E count buf cl =
     (if \<not> has_flag e_encrypted cl then
        encrypted_read E (get_keys E) handle_encryption count buf cl
      else if has_flag e_wantMsgHeader cl then
        read_msg (en_build E) buf (clear_flag e_wantMsgHeader cl)
      else
        dispatch_msg E buf (cli_read common_msg_std_header (set_flag e_wantMsgHeader cl)))"

text \<open>The virtual call in \<open>pump_read\<close>.\<close>

definition handler_read :: "env \<Rightarrow> byte list \<Rightarrow> client \<Rightarrow> (bool \<times> client) res" where
  "handler_read E buf cl =
     (case cl_handler cl of
        Incoming_Handler \<Rightarrow> incoming_read buf cl
      | Gatekeeper_Handler count \<Rightarrow> gatekeeper_read E count buf cl)"

section \<open>What the replies look like on the wire\<close>

definition srv_reply_wire :: "build \<Rightarrow> u16 \<Rightarrow> u32 \<Rightarrow> u16 list \<Rightarrow> byte list" where
  "srv_reply_wire B type transId addr =
     le_bytes 2 (unat type) @ le_bytes 4 (unat transId) @ le_bytes 2 (min 24 (length addr)) @
     chars_store B (stored_string 24 addr)"

lemma reply_buffer:
  assumes "length stack = 56" "sz = min 24 (length addr)"
    and "reply = set_string B 6 24 addr (set_uint32 B 2 transId (set_uint16 B 0 type stack))"
  shows "length reply = 56" "take (8 + 2 * sz) reply = srv_reply_wire B type transId addr"
    "take 2 (drop 6 reply) = le_bytes 2 sz"
proof -
  let ?m = "set_uint32 B 2 transId (set_uint16 B 0 type stack)"
  have l: "length ?m = 56" using assms(1) by (simp add: set_uint32_def set_uint16_def)
  then show "length reply = 56" unfolding assms(3) by (subst length_set_string) simp_all
  have u: "unat (word_of_nat sz :: u16) = sz" using assms(2) by (simp add: unat_of_nat)
  have m: "take 6 ?m = le_bytes 2 (unat type) @ le_bytes 4 (unat transId)"
    using assms(1) by (simp add: set_uint32_def set_uint16_def patch_def wire_stores)
  have t: "take (6 + 2 + 2 * sz) reply = take 6 ?m @ store16 B (word_of_nat sz) @ chars_store B (stored_string 24 addr)"
    unfolding assms(3) by (rule take_set_string [OF _ _ assms(2)]) (simp_all add: l)
  then show w: "take (8 + 2 * sz) reply = srv_reply_wire B type transId addr"
    by (simp add: m srv_reply_wire_def store16_le u flip: assms(2))
  have "take 2 (drop 6 reply) = take 2 (drop 6 (take (8 + 2 * sz) reply))" by (simp add: drop_take min_def)
  also have "\<dots> = le_bytes 2 sz" by (simp add: w srv_reply_wire_def flip: assms(2))
  finally show "take 2 (drop 6 reply) = le_bytes 2 sz" .
qed

lemma cli_write_stream:
  assumes "wf_writes (cl_base cl)" "fixed_but_last ns v"
    and "calc_field_sz (en_build E) ns v (At buf (field_off ns v)) = Inr (True, msz, w)"
    and "field_off ns v + w \<le> length buf" "length buf < size_mod" "0 < field_off ns v + w"
    and "pt = evp_update (en_ks E) (cb_encrypt (cl_base cl)) (take (field_off ns v + w) buf)"
  shows "\<exists>b. cli_write E ns buf cl = Inr (cl\<lparr>cl_base := b\<rparr>) \<and> b = after_write (fst pt) ((cl_base cl)\<lparr>cb_encrypt := snd pt\<rparr>) \<and>
    wf_writes b \<and> outgoing b = outgoing (cl_base cl) @ fst pt \<and> cb_encrypt b = snd pt"
proof -
  have "enqueue_write (en_build E) (en_ks E) ns buf (cl_base cl) =
      Inr (after_write (fst pt) ((cl_base cl)\<lparr>cb_encrypt := snd pt\<rparr>))"
    by (rule enqueue_write_eq [OF assms(2,3,4) _ assms(7)]) (use assms(4,5) in linarith)
  moreover obtain b where "enqueue_write (en_build E) (en_ks E) ns buf (cl_base cl) = Inr b" "wf_writes b"
    "outgoing b = outgoing (cl_base cl) @ fst pt" "cb_encrypt b = snd pt"
    using enqueue_write_stream [OF assms(1,2,3,4) _ assms(6), of "en_ks E"] assms(4,5,7) by auto
  ultimately show ?thesis by (simp add: cli_write_def)
qed

lemma after_write_keeps [simp]:
  "cb_read (after_write bs c) = cb_read c" "cb_decrypt (after_write bs c) = cb_decrypt c"
  "cb_encrypt (after_write bs c) = cb_encrypt c"
  by (auto simp: after_write_def Let_def split: prod.splits)

text \<open>One lemma for the two requests that are answered with an address.\<close>

lemma srv_reply_sent:
  assumes "wf_env E" "wf_writes (cl_base cl)"
    and "reply = set_string (en_build E) 6 24 addr (set_uint32 (en_build E) 2 transId
                   (set_uint16 (en_build E) 0 type (en_stack E sizeof_fileSrvReply)))"
    and "pt = evp_update (en_ks E) (cb_encrypt (cl_base cl)) (srv_reply_wire (en_build E) type transId addr)"
  shows "\<exists>b. cli_write E gatekeeper_fileSrvReply reply cl = Inr (cl\<lparr>cl_base := b\<rparr>) \<and>
    b = after_write (fst pt) ((cl_base cl)\<lparr>cb_encrypt := snd pt\<rparr>) \<and> wf_writes b \<and>
    outgoing b = outgoing (cl_base cl) @ fst pt \<and> cb_encrypt b = snd pt"
proof -
  define sz where "sz = min 24 (length addr)"
  have "length (en_stack E sizeof_fileSrvReply) = 56" using assms(1) by (simp add: wf_env_def sizeof_fileSrvReply_def)
  note r = reply_buffer [OF this sz_def assms(3)]
  have o3: "field_off gatekeeper_fileSrvReply 3 = 8" by (simp add: shape_defs)
  have "calc_field_sz (en_build E) gatekeeper_fileSrvReply 3 (At reply 8) = Inr (True, 48, 2 * sz)"
    by (rule calc_reply_string) (simp_all add: r le_val_bytes sz_def)
  then have "calc_field_sz (en_build E) gatekeeper_fileSrvReply 3 (At reply (field_off gatekeeper_fileSrvReply 3)) =
      Inr (True, 48, 2 * sz)" by (simp only: o3)
  from cli_write_stream [OF assms(2) written_messages(3) this _ _ _ refl]
  show ?thesis unfolding o3 r(2) assms(4) using r(1) by (simp add: sz_def)
qed

end
