(* ===== verification/Theme_Poll.thy ===== *)
theory Theme_Poll
  imports Theme_Errors
begin

text \<open>
  \<open>src/src/io/poll.h\<close> and \<open>epoll.cpp\<close>: the dispatcher. Every watched descriptor has a node in
  the callback map, and the kernel holds the address of that node; a node's address is a
  number that is never used again, so that following the address of an erased node is the
  fault \<open>UseAfterFree\<close>. The results of the system calls are arguments; callbacks are run by
  an argument too, and may change the dispatcher.
\<close>

section \<open>Event masks\<close>

definition ev_read :: u32 where "ev_read = 1"
definition ev_write :: u32 where "ev_write = 2"
definition ev_hup :: u32 where "ev_hup = 4"

definition EPOLLIN :: u32 where "EPOLLIN = 0x001"
definition EPOLLOUT :: u32 where "EPOLLOUT = 0x004"
definition EPOLLHUP :: u32 where "EPOLLHUP = 0x010"
definition EPOLLRDHUP :: u32 where "EPOLLRDHUP = 0x2000"
definition EPOLLET :: u32 where "EPOLLET = 0x80000000"

lemmas mask_defs = ev_read_def ev_write_def ev_hup_def EPOLLIN_def EPOLLOUT_def EPOLLHUP_def EPOLLRDHUP_def EPOLLET_def

definition xlate_mask_to_epoll :: "u32 \<Rightarrow> u32" where
  "xlate_mask_to_epoll evmask =
     (let e0 = EPOLLET;
          e1 = (if evmask AND ev_read \<noteq> 0 then e0 OR EPOLLIN else e0);
          e2 = (if evmask AND ev_write \<noteq> 0 then e1 OR EPOLLOUT else e1)
      in if evmask AND ev_hup \<noteq> 0 then e2 OR (EPOLLRDHUP OR EPOLLHUP) else e2)"

definition xlate_epoll_to_mask :: "u32 \<Rightarrow> u32" where
  "xlate_epoll_to_mask events =
     (let m0 = 0;
          m1 = (if events AND EPOLLIN \<noteq> 0 then m0 OR ev_read else m0);
          m2 = (if events AND EPOLLOUT \<noteq> 0 then m1 OR ev_write else m1)
      in if events AND EPOLLRDHUP \<noteq> 0 \<or> events AND EPOLLHUP \<noteq> 0 then m2 OR ev_hup else m2)"

lemma and_pow2: "x AND 2 ^ n = (if bit x n then 2 ^ n else 0)" for x :: u32
  by (rule bit_word_eqI) (auto simp: bit_simps)

lemma mask_bits:
  "x AND ev_read = (if bit x 0 then 1 else 0)" "x AND ev_write = (if bit x 1 then 2 else 0)"
  "x AND ev_hup = (if bit x 2 then 4 else 0)"
  using and_pow2 [of x 0] and_pow2 [of x 1] and_pow2 [of x 2] by (simp_all add: mask_defs)

lemma and_7: "x AND 7 = (if bit x 0 then 1 else 0) + ((if bit x 1 then 2 else 0) + (if bit x 2 then 4 else 0))" for x :: u32
proof -
  have "x AND 7 = (x AND 1) OR ((x AND 2) OR (x AND 4))"
    using bit.conj_disj_distrib [of x 1 "2 OR 4"] bit.conj_disj_distrib [of x 2 4] by simp
  also have "\<dots> = (if bit x 0 then 1 else 0) + ((if bit x 1 then 2 else 0) + (if bit x 2 then 4 else 0))"
    using mask_bits [of x] by (simp add: mask_defs)
  finally show ?thesis .
qed

lemma xlate_round_trip: "xlate_epoll_to_mask (xlate_mask_to_epoll evmask) = evmask AND 7"
  unfolding and_7 xlate_epoll_to_mask_def xlate_mask_to_epoll_def Let_def mask_bits
  by (simp add: mask_defs)

lemma read_reported: "xlate_epoll_to_mask ev AND ev_read = 0 \<longleftrightarrow> ev AND EPOLLIN = 0"
  by (auto simp: xlate_epoll_to_mask_def Let_def mask_bits bit_or_iff mask_defs)

section \<open>The dispatcher\<close>

record 'cb poll =
  pl_callbacks :: "int \<Rightarrow> nat option"
  pl_nodes :: "nat \<Rightarrow> (int \<times> 'cb option) option"
  pl_kernel :: "int \<Rightarrow> (u32 \<times> nat) option"
  pl_next :: nat

text \<open>\<open>epoll_create1\<close> must succeed.\<close>

definition epoll_new :: "bool \<Rightarrow> 'cb poll res" where
  "epoll_new created =
     bindE (assertr created) (\<lambda>_.
     Inr \<lparr>pl_callbacks = (\<lambda>_. None), pl_nodes = (\<lambda>_. None), pl_kernel = (\<lambda>_. None), pl_next = 0\<rparr>)"

text \<open>\<open>poll_dispatch::create\<close> makes the one kind of dispatcher there is.\<close>

definition poll_create :: "bool \<Rightarrow> 'cb poll res" where
  [simp]: "poll_create created = epoll_new created"

definition epoll_destroy :: "build \<Rightarrow> bool \<Rightarrow> 'cb poll \<Rightarrow> unit res" where
  "epoll_destroy B close_ok p = assertd B close_ok"

definition erase_node :: "nat \<Rightarrow> 'cb poll \<Rightarrow> 'cb poll" where
  "erase_node n p =
     (case pl_nodes p n of
        None \<Rightarrow> p
      | Some (fd, _) \<Rightarrow> p\<lparr>pl_callbacks := (pl_callbacks p)(fd := None), pl_nodes := (pl_nodes p)(n := None)\<rparr>)"

definition add_fd :: "bool \<Rightarrow> int \<Rightarrow> u32 \<Rightarrow> 'cb option \<Rightarrow> 'cb poll \<Rightarrow> bool \<times> 'cb poll" where
  "add_fd ctl_ok fd evmask cb p =
     (case pl_callbacks p fd of
        Some _ \<Rightarrow> (False, p)
      | None \<Rightarrow>
          (let n = pl_next p;
               p1 = p\<lparr>pl_callbacks := (pl_callbacks p)(fd := Some n), pl_nodes := (pl_nodes p)(n := Some (fd, cb)),
                      pl_next := Suc n\<rparr>
           in if \<not> ctl_ok then (False, erase_node n p1)
              else (True, p1\<lparr>pl_kernel := (pl_kernel p1)(fd := Some (xlate_mask_to_epoll evmask, n))\<rparr>)))"

definition remove_fd :: "bool \<Rightarrow> int \<Rightarrow> 'cb poll \<Rightarrow> bool \<times> 'cb poll" where
  "remove_fd ctl_ok fd p =
     (if \<not> ctl_ok then (False, p)
      else
        (let p1 = p\<lparr>pl_kernel := (pl_kernel p)(fd := None)\<rparr>
         in (True, case pl_callbacks p1 fd of Some n \<Rightarrow> erase_node n p1 | None \<Rightarrow> p1)))"

text \<open>
  One event: the kernel's copy of the node's address, its mask and, for a hang-up, whether
  \<open>EPOLL_CTL_DEL\<close> succeeded. \<open>run\<close> calls a callback in a world \<open>'w\<close>. After the callback of a
  hang-up the node is erased through its own iterator.
\<close>

definition dispatch_event ::
    "('cb \<Rightarrow> int \<Rightarrow> u32 \<Rightarrow> 'cb poll \<times> 'w \<Rightarrow> 'cb poll \<times> 'w) \<Rightarrow> u32 \<times> nat \<times> bool \<Rightarrow> 'cb poll \<times> 'w
     \<Rightarrow> ('cb poll \<times> 'w) res" where
  "dispatch_event run event s =
     (case event of (events, n, del_ok) \<Rightarrow>
      let events_mask = xlate_epoll_to_mask events; hup = (events_mask AND ev_hup \<noteq> 0) in
      case pl_nodes (fst s) n of
        None \<Rightarrow> Inl UseAfterFree
      | Some (fd, cb) \<Rightarrow>
          (let s1 = (if hup \<and> del_ok then ((fst s)\<lparr>pl_kernel := (pl_kernel (fst s))(fd := None)\<rparr>, snd s) else s);
               s2 = (case cb of Some f \<Rightarrow> run f fd events_mask s1 | None \<Rightarrow> s1)
           in if \<not> hup then Inr s2
              else case pl_nodes (fst s2) n of
                  None \<Rightarrow> Inl UseAfterFree
                | Some _ \<Rightarrow> Inr (erase_node n (fst s2), snd s2)))"

fun dispatch_events ::
    "('cb \<Rightarrow> int \<Rightarrow> u32 \<Rightarrow> 'cb poll \<times> 'w \<Rightarrow> 'cb poll \<times> 'w) \<Rightarrow> (u32 \<times> nat \<times> bool) list \<Rightarrow> 'cb poll \<times> 'w
     \<Rightarrow> ('cb poll \<times> 'w) res" where
  "dispatch_events run [] s = Inr s"
| "dispatch_events run (e # es) s = bindE (dispatch_event run e s) (dispatch_events run es)"

datatype wait = Interrupted | WaitFailed | Events "(u32 \<times> nat \<times> bool) list"

definition poll_dispatch ::
    "('cb \<Rightarrow> int \<Rightarrow> u32 \<Rightarrow> 'cb poll \<times> 'w \<Rightarrow> 'cb poll \<times> 'w) \<Rightarrow> wait \<Rightarrow> 'cb poll \<times> 'w \<Rightarrow> (bool \<times> 'cb poll \<times> 'w) res" where
  "poll_dispatch run w s =
     (case w of
        Interrupted \<Rightarrow> Inr (False, s)
      | WaitFailed \<Rightarrow> bindE (assertr False) (\<lambda>_. Inr (False, s))
      | Events es \<Rightarrow> bindE (dispatch_events run es s) (\<lambda>s'. Inr (True, s')))"

section \<open>The interface of a dispatcher\<close>

text \<open>What \<open>poll_dispatch\<close> promises the server and its clients about the watched descriptors.\<close>

locale watch_set =
  fixes watched :: "'p \<Rightarrow> int set"
    and valid :: "'p \<Rightarrow> bool"
    and add :: "bool \<Rightarrow> int \<Rightarrow> u32 \<Rightarrow> 'cb option \<Rightarrow> 'p \<Rightarrow> bool \<times> 'p"
    and remove :: "bool \<Rightarrow> int \<Rightarrow> 'p \<Rightarrow> bool \<times> 'p"
  assumes add_ok: "valid p \<Longrightarrow> add ok fd m cb p = (True, p') \<Longrightarrow>
      fd \<notin> watched p \<and> watched p' = insert fd (watched p) \<and> valid p'"
    and add_fails: "valid p \<Longrightarrow> add ok fd m cb p = (False, p') \<Longrightarrow> watched p' = watched p \<and> valid p'"
    and remove_ok: "valid p \<Longrightarrow> remove ok fd p = (True, p') \<Longrightarrow> watched p' = watched p - {fd} \<and> valid p'"
    and remove_fails: "valid p \<Longrightarrow> remove ok fd p = (False, p') \<Longrightarrow> p' = p"
begin

text \<open>A client that polls in its constructor and stops in its destructor leaves no trace.\<close>

lemma add_remove:
  assumes "valid p" "add ok fd m cb p = (True, p1)" "remove ok' fd p1 = (True, p2)"
  shows "watched p2 = watched p"
  using add_ok [OF assms(1,2)] remove_ok [OF _ assms(3)] by auto

end

text \<open>
  A consistent dispatcher: the map and the nodes mirror each other, and every address the
  kernel holds is that of the node of its descriptor.
\<close>

definition wf_poll :: "'cb poll \<Rightarrow> bool" where
  "wf_poll p \<longleftrightarrow>
     (\<forall>fd n. pl_callbacks p fd = Some n \<longleftrightarrow> (\<exists>cb. pl_nodes p n = Some (fd, cb))) \<and>
     (\<forall>n. pl_nodes p n \<noteq> None \<longrightarrow> n < pl_next p) \<and>
     (\<forall>fd m n. pl_kernel p fd = Some (m, n) \<longrightarrow> pl_callbacks p fd = Some n)"

definition watched_fds :: "'cb poll \<Rightarrow> int set" where
  "watched_fds p = {fd. pl_callbacks p fd \<noteq> None}"

lemma wf_pollD:
  assumes "wf_poll p"
  shows "pl_callbacks p fd = Some n \<Longrightarrow> \<exists>cb. pl_nodes p n = Some (fd, cb)"
    "pl_nodes p n = Some (fd, cb) \<Longrightarrow> pl_callbacks p fd = Some n"
    "pl_nodes p n \<noteq> None \<Longrightarrow> n < pl_next p"
    "pl_kernel p fd = Some (m, n) \<Longrightarrow> pl_callbacks p fd = Some n"
  using assms unfolding wf_poll_def by blast+

lemma fresh_node: "wf_poll p \<Longrightarrow> pl_nodes p (pl_next p) = None"
  using wf_pollD(3) [of p "pl_next p"] by (metis less_irrefl)

lemma erase_node_wf:
  assumes "wf_poll p" "\<And>fd cb m. pl_nodes p n = Some (fd, cb) \<Longrightarrow> pl_kernel p fd = None"
  shows "wf_poll (erase_node n p)"
proof (cases "pl_nodes p n")
  case None
  then show ?thesis using assms(1) by (simp add: erase_node_def)
next
  case (Some q)
  obtain fd cb where q: "pl_nodes p n = Some (fd, cb)" using Some by (cases q) auto
  have k: "pl_kernel p fd = None" using assms(2) [OF q] .
  have inj: "pl_nodes p n' = Some (fd, cb') \<Longrightarrow> n' = n" for n' cb'
    using wf_pollD(2) [OF assms(1)] q by (metis option.inject)
  have fun1: "pl_callbacks p fd' = Some n \<Longrightarrow> fd' = fd" for fd'
    using wf_pollD(1) [OF assms(1), of fd' n] q by auto
  let ?p = "erase_node n p"
  have c: "pl_callbacks ?p = (pl_callbacks p)(fd := None)" "pl_nodes ?p = (pl_nodes p)(n := None)"
      "pl_kernel ?p = pl_kernel p" "pl_next ?p = pl_next p"
    by (simp_all add: erase_node_def q)
  have "pl_callbacks ?p fd' = Some n' \<longleftrightarrow> (\<exists>cb. pl_nodes ?p n' = Some (fd', cb))" for fd' n'
  proof (cases "fd' = fd")
    case True
    then show ?thesis using inj by (auto simp: c)
  next
    case False
    then show ?thesis using wf_pollD(1) [OF assms(1), of fd' n'] wf_pollD(2) [OF assms(1), of n' fd'] fun1 q
      by (auto simp: c)
  qed
  moreover have "pl_nodes ?p n' \<noteq> None \<Longrightarrow> n' < pl_next ?p" for n'
    using wf_pollD(3) [OF assms(1), of n'] by (auto simp: c split: if_splits)
  moreover have "pl_kernel ?p fd' = Some (m, n') \<Longrightarrow> pl_callbacks ?p fd' = Some n'" for fd' m n'
    using wf_pollD(4) [OF assms(1), of fd' m n'] k by (auto simp: c)
  ultimately show ?thesis unfolding wf_poll_def by blast
qed

lemma kernel_entry_dropped_wf: "wf_poll p \<Longrightarrow> wf_poll (p\<lparr>pl_kernel := (pl_kernel p)(fd := None)\<rparr>)"
proof -
  assume wf: "wf_poll p"
  have "((pl_kernel p)(fd := None)) fd' = Some (m, n) \<Longrightarrow> pl_callbacks p fd' = Some n" for fd' m n
    using wf_pollD(4) [OF wf, of fd' m n] by (simp split: if_splits)
  then show ?thesis using wf unfolding wf_poll_def by simp
qed

lemma kernel_entry_added_wf:
  assumes "wf_poll p" "pl_callbacks p fd = Some k"
  shows "wf_poll (p\<lparr>pl_kernel := (pl_kernel p)(fd := Some (m, k))\<rparr>)"
proof -
  have "((pl_kernel p)(fd := Some (m, k))) fd' = Some (m', n) \<Longrightarrow> pl_callbacks p fd' = Some n" for fd' m' n
    using wf_pollD(4) [OF assms(1), of fd' m' n] assms(2) by (simp split: if_splits)
  then show ?thesis using assms(1) unfolding wf_poll_def by simp
qed

lemma insert_node_wf:
  assumes "wf_poll p" "pl_callbacks p fd = None"
  shows "wf_poll (p\<lparr>pl_callbacks := (pl_callbacks p)(fd := Some (pl_next p)),
    pl_nodes := (pl_nodes p)(pl_next p := Some (fd, cb)), pl_next := Suc (pl_next p)\<rparr>)"
proof -
  let ?n = "pl_next p"
  have fresh: "pl_nodes p ?n = None" by (rule fresh_node [OF assms(1)])
  have nocb: "pl_callbacks p fd' \<noteq> Some ?n" for fd' using wf_pollD(1) [OF assms(1), of fd' ?n] fresh by auto
  have nofd: "pl_nodes p n \<noteq> Some (fd, cb')" for n cb' using wf_pollD(2) [OF assms(1), of n fd cb'] assms(2) by auto
  have nok: "pl_kernel p fd = None"
    using wf_pollD(4) [OF assms(1), of fd] assms(2) by (cases "pl_kernel p fd") auto
  have lt: "pl_nodes p n \<noteq> None \<Longrightarrow> n < Suc ?n" for n using wf_pollD(3) [OF assms(1), of n] by simp
  show ?thesis
    using assms(1) fresh nocb nofd nok lt unfolding wf_poll_def by auto
qed

lemma add_fd_wf:
  assumes "wf_poll p" "add_fd ok fd m cb p = (b, p')"
  shows "wf_poll p'" "watched_fds p' = (if b then insert fd (watched_fds p) else watched_fds p)"
    "b \<Longrightarrow> fd \<notin> watched_fds p" "pl_nodes p n = Some x \<Longrightarrow> pl_nodes p' n = Some x"
    "fd' \<in> watched_fds p \<Longrightarrow> pl_kernel p' fd' = pl_kernel p fd'"
proof -
  have "wf_poll p' \<and> watched_fds p' = (if b then insert fd (watched_fds p) else watched_fds p) \<and>
    (b \<longrightarrow> fd \<notin> watched_fds p) \<and> (\<forall>n x. pl_nodes p n = Some x \<longrightarrow> pl_nodes p' n = Some x) \<and>
    (\<forall>fd'. fd' \<in> watched_fds p \<longrightarrow> pl_kernel p' fd' = pl_kernel p fd')"
  proof (cases "pl_callbacks p fd")
    case (Some n)
    then show ?thesis using assms by (simp add: add_fd_def)
  next
    case None
    let ?n = "pl_next p"
    let ?p1 = "p\<lparr>pl_callbacks := (pl_callbacks p)(fd := Some ?n), pl_nodes := (pl_nodes p)(?n := Some (fd, cb)), pl_next := Suc ?n\<rparr>"
    have wf1: "wf_poll ?p1" by (rule insert_node_wf [OF assms(1) None])
    have fresh: "pl_nodes p ?n = None" by (rule fresh_node [OF assms(1)])
    have nok: "pl_kernel p fd = None"
      using wf_pollD(4) [OF assms(1), of fd] None by (cases "pl_kernel p fd") auto
    show ?thesis
    proof (cases ok)
      case True
      then have p': "b" "p' = ?p1\<lparr>pl_kernel := (pl_kernel p)(fd := Some (xlate_mask_to_epoll m, ?n))\<rparr>"
        using assms(2) None by (simp_all add: add_fd_def Let_def)
      have "wf_poll p'" using kernel_entry_added_wf [OF wf1, of fd ?n "xlate_mask_to_epoll m"] by (simp add: p'(2))
      then show ?thesis using p' None fresh by (auto simp: watched_fds_def)
    next
      case False
      then have p': "\<not> b" "p' = erase_node ?n ?p1" using assms(2) None by (simp_all add: add_fd_def Let_def)
      have "wf_poll p'" unfolding p'(2) by (rule erase_node_wf [OF wf1]) (use nok in auto)
      then show ?thesis using p' None fresh by (auto simp: watched_fds_def erase_node_def)
    qed
  qed
  then show "wf_poll p'" "watched_fds p' = (if b then insert fd (watched_fds p) else watched_fds p)"
    "b \<Longrightarrow> fd \<notin> watched_fds p" "pl_nodes p n = Some x \<Longrightarrow> pl_nodes p' n = Some x"
    "fd' \<in> watched_fds p \<Longrightarrow> pl_kernel p' fd' = pl_kernel p fd'" by blast+
qed

lemma remove_fd_wf:
  assumes "wf_poll p" "remove_fd ok fd p = (b, p')"
  shows "wf_poll p'" "watched_fds p' = (if b then watched_fds p - {fd} else watched_fds p)" "\<not> b \<Longrightarrow> p' = p"
proof -
  let ?p1 = "p\<lparr>pl_kernel := (pl_kernel p)(fd := None)\<rparr>"
  have wf1: "wf_poll ?p1" by (rule kernel_entry_dropped_wf [OF assms(1)])
  have "wf_poll p' \<and> watched_fds p' = (if b then watched_fds p - {fd} else watched_fds p) \<and> (\<not> b \<longrightarrow> p' = p)"
  proof (cases "ok \<and> pl_callbacks p fd \<noteq> None")
    case True
    then obtain n cb where n: "pl_callbacks p fd = Some n" "pl_nodes p n = Some (fd, cb)"
      using wf_pollD(1) [OF assms(1)] by blast
    have p': "b" "p' = erase_node n ?p1" using assms(2) True n by (simp_all add: remove_fd_def Let_def)
    have "wf_poll p'" unfolding p'(2) by (rule erase_node_wf [OF wf1]) (use n in auto)
    then show ?thesis using p' n by (auto simp: watched_fds_def erase_node_def)
  next
    case False
    then show ?thesis using assms wf1 by (auto simp: remove_fd_def Let_def watched_fds_def split: option.splits if_splits)
  qed
  then show "wf_poll p'" "watched_fds p' = (if b then watched_fds p - {fd} else watched_fds p)" "\<not> b \<Longrightarrow> p' = p" by auto
qed

interpretation epoll: watch_set watched_fds wf_poll add_fd remove_fd
proof unfold_locales
  fix p p' :: "'cb poll" and ok fd m cb
  assume "wf_poll p" "add_fd ok fd m cb p = (True, p')"
  then show "fd \<notin> watched_fds p \<and> watched_fds p' = insert fd (watched_fds p) \<and> wf_poll p'"
    using add_fd_wf [of p ok fd m cb True p'] by simp
next
  fix p p' :: "'cb poll" and ok fd m cb
  assume "wf_poll p" "add_fd ok fd m cb p = (False, p')"
  then show "watched_fds p' = watched_fds p \<and> wf_poll p'"
    using add_fd_wf [of p ok fd m cb False p'] by simp
next
  fix p p' :: "'cb poll" and ok fd
  assume "wf_poll p" "remove_fd ok fd p = (True, p')"
  then show "watched_fds p' = watched_fds p - {fd} \<and> wf_poll p'" using remove_fd_wf [of p ok fd True p'] by simp
next
  fix p p' :: "'cb poll" and ok fd
  assume "wf_poll p" "remove_fd ok fd p = (False, p')"
  then show "p' = p" using remove_fd_wf(3) [of p ok fd False p'] by simp
qed

text \<open>Adding and removing leaves the watched set as it was; a watched descriptor is not added twice.\<close>

lemma add_then_remove:
  assumes "wf_poll p" "add_fd ok fd m cb p = (True, p1)" "remove_fd ok' fd p1 = (True, p2)"
  shows "watched_fds p2 = watched_fds p \<and> wf_poll p2 \<and> add_fd ok'' fd m'' cb'' p1 = (False, p1)"
proof -
  note a = add_fd_wf(1,2) [OF assms(1,2)]
  have "pl_callbacks p1 fd \<noteq> None" using a(2) by (auto simp: watched_fds_def)
  then have "add_fd ok'' fd m'' cb'' p1 = (False, p1)" by (auto simp: add_fd_def)
  then show ?thesis using epoll.add_remove [OF assms] remove_fd_wf(1) [OF a(1) assms(3)] by blast
qed

section \<open>Dispatching never follows a stale address\<close>

text \<open>
  What the program's callbacks do to the dispatcher: they may watch more descriptors, and
  leave the nodes that are there alone.
\<close>

definition only_adds :: "('cb \<Rightarrow> int \<Rightarrow> u32 \<Rightarrow> 'cb poll \<times> 'w \<Rightarrow> 'cb poll \<times> 'w) \<Rightarrow> bool" where
  "only_adds run \<longleftrightarrow> (\<forall>f fd m s. wf_poll (fst s) \<longrightarrow>
     wf_poll (fst (run f fd m s)) \<and>
     (\<forall>n x. pl_nodes (fst s) n = Some x \<longrightarrow> pl_nodes (fst (run f fd m s)) n = Some x) \<and>
     (\<forall>fd' \<in> watched_fds (fst s). pl_kernel (fst (run f fd m s)) fd' = pl_kernel (fst s) fd'))"

definition is_hup :: "u32 \<Rightarrow> bool" where
  "is_hup events \<longleftrightarrow> xlate_epoll_to_mask events AND ev_hup \<noteq> 0"

lemma only_addsD:
  assumes "only_adds run" "wf_poll (fst s)"
  shows "wf_poll (fst (run f fd m s))" "pl_nodes (fst s) n = Some x \<Longrightarrow> pl_nodes (fst (run f fd m s)) n = Some x"
    "fd' \<in> watched_fds (fst s) \<Longrightarrow> pl_kernel (fst (run f fd m s)) fd' = pl_kernel (fst s) fd'"
  using assms unfolding only_adds_def by blast+

lemma dispatch_event_safe:
  assumes "wf_poll (fst s)" "only_adds run" "pl_nodes (fst s) n = Some (fd, cb)" "is_hup ev \<longrightarrow> del_ok"
  shows "\<exists>s'. dispatch_event run (ev, n, del_ok) s = Inr s' \<and> wf_poll (fst s') \<and>
    (\<forall>n' x. n' \<noteq> n \<longrightarrow> pl_nodes (fst s) n' = Some x \<longrightarrow> pl_nodes (fst s') n' = Some x) \<and>
    (is_hup ev \<longrightarrow> pl_nodes (fst s') n = None \<and> pl_kernel (fst s') fd = None)"
proof -
  define s1 where "s1 = (if is_hup ev \<and> del_ok then ((fst s)\<lparr>pl_kernel := (pl_kernel (fst s))(fd := None)\<rparr>, snd s) else s)"
  define s2 where "s2 = (case cb of Some f \<Rightarrow> run f fd (xlate_epoll_to_mask ev) s1 | None \<Rightarrow> s1)"
  have wf1: "wf_poll (fst s1)" "pl_nodes (fst s1) = pl_nodes (fst s)"
    using assms(1) kernel_entry_dropped_wf by (auto simp: s1_def)
  have w: "fd \<in> watched_fds (fst s1)"
    using wf_pollD(2) [OF wf1(1), of n fd cb] assms(3) by (simp add: wf1(2) watched_fds_def)
  have s2: "wf_poll (fst s2)" "\<forall>n x. pl_nodes (fst s1) n = Some x \<longrightarrow> pl_nodes (fst s2) n = Some x"
      "pl_kernel (fst s2) fd = pl_kernel (fst s1) fd"
    using only_addsD [OF assms(2) wf1(1)] wf1(1) w by (cases cb; simp add: s2_def)+
  have n2: "pl_nodes (fst s2) n = Some (fd, cb)" using s2(2) assms(3) wf1(2) by simp
  show ?thesis
  proof (cases "is_hup ev")
    case False
    then have "s1 = s" by (simp add: s1_def)
    then have "dispatch_event run (ev, n, del_ok) s = Inr s2"
      using assms(3) False by (cases cb) (simp_all add: dispatch_event_def Let_def s2_def is_hup_def)
    then show ?thesis using s2 wf1(2) False by auto
  next
    case True
    then have k: "pl_kernel (fst s2) fd = None" using s2(3) assms(4) by (simp add: s1_def)
    have "s1 = ((fst s)\<lparr>pl_kernel := (pl_kernel (fst s))(fd := None)\<rparr>, snd s)" using True assms(4) by (simp add: s1_def)
    then have d: "dispatch_event run (ev, n, del_ok) s = Inr (erase_node n (fst s2), snd s2)"
      using True assms(3,4) n2 by (cases cb) (simp_all add: dispatch_event_def Let_def s2_def is_hup_def)
    have "wf_poll (erase_node n (fst s2))" by (rule erase_node_wf [OF s2(1)]) (use n2 k in auto)
    moreover have "\<forall>n' x. n' \<noteq> n \<longrightarrow> pl_nodes (fst s) n' = Some x \<longrightarrow> pl_nodes (erase_node n (fst s2)) n' = Some x"
      using s2(2) wf1(2) by (auto simp: erase_node_def split: option.splits)
    ultimately show ?thesis using d n2 k True by (auto simp: erase_node_def)
  qed
qed

lemma dispatch_events_safe:
  assumes "only_adds run"
  shows "wf_poll (fst s) \<Longrightarrow> distinct (map (\<lambda>(ev, n, ok). n) es) \<Longrightarrow>
    list_all (\<lambda>(ev, n, ok). pl_nodes (fst s) n \<noteq> None \<and> (is_hup ev \<longrightarrow> ok)) es \<Longrightarrow>
    \<exists>s'. dispatch_events run es s = Inr s' \<and> wf_poll (fst s')"
proof (induction es arbitrary: s)
  case (Cons e es)
  obtain ev n ok where e: "e = (ev, n, ok)" by (metis prod_cases3)
  obtain fd cb where n: "pl_nodes (fst s) n = Some (fd, cb)" "is_hup ev \<longrightarrow> ok" using Cons.prems(3) by (auto simp: e)
  obtain s1 where s1: "dispatch_event run e s = Inr s1" "wf_poll (fst s1)"
      "\<forall>n' x. n' \<noteq> n \<longrightarrow> pl_nodes (fst s) n' = Some x \<longrightarrow> pl_nodes (fst s1) n' = Some x"
    using dispatch_event_safe [OF Cons.prems(1) assms n] by (auto simp: e)
  have "list_all (\<lambda>(ev, n, ok). pl_nodes (fst s1) n \<noteq> None \<and> (is_hup ev \<longrightarrow> ok)) es"
    unfolding list_all_iff
  proof
    fix e' assume e': "e' \<in> set es"
    obtain ev' n' ok' where q: "e' = (ev', n', ok')" by (metis prod_cases3)
    have "n' \<noteq> n" using Cons.prems(2) e' q by (auto simp: e image_iff)
    moreover have "pl_nodes (fst s) n' \<noteq> None" "is_hup ev' \<longrightarrow> ok'" using Cons.prems(3) e' q by (auto simp: list_all_iff)
    ultimately show "case e' of (ev, n, ok) \<Rightarrow> pl_nodes (fst s1) n \<noteq> None \<and> (is_hup ev \<longrightarrow> ok)"
      using s1(3) by (auto simp: q)
  qed
  moreover have "distinct (map (\<lambda>(ev, n, ok). n) es)" using Cons.prems(2) by simp
  ultimately show ?case using Cons.IH [OF s1(2)] s1(1) by simp
qed simp

end
