(* ===== verification/Theme_Pump.thy ===== *)
theory Theme_Pump
  imports Theme_Gatekeeper Theme_Poll
begin

text \<open>
  \<open>pump_read\<close> and \<open>handle_dispatch\<close> of \<open>client_common.cpp\<close>: the loop that turns completed messages
  into handler calls, and the reaction to poll events. The locale states what the loop needs
  of a message handler; the program's handlers satisfy it, which makes the state machine of a
  connection an invariant.
\<close>

section \<open>The loop\<close>

definition cli_shutdown :: "client \<Rightarrow> client" where
  "cli_shutdown = on_base (\<lambda>b. b\<lparr>cb_sock := shut (cb_sock b)\<rparr>)"

text \<open>\<open>hread\<close> is the virtual \<open>m_handler->read\<close>; \<open>None\<close> is a call that does not return.\<close>

partial_function (option) pump_read ::
    "build \<Rightarrow> keystream \<Rightarrow> (byte list \<Rightarrow> client \<Rightarrow> (bool \<times> client) res) \<Rightarrow> client \<Rightarrow> client res option" where
  "pump_read B ks hread cl =
     (case handle_read B ks (cl_base cl) of
        None \<Rightarrow> None
      | Some (Inl e) \<Rightarrow> Some (Inl e)
      | Some (Inr (None, b)) \<Rightarrow> Some (Inr (cl\<lparr>cl_base := b\<rparr>))
      | Some (Inr (Some buf, b)) \<Rightarrow>
          (case hread buf (cl\<lparr>cl_base := b\<rparr>) of
             Inl e \<Rightarrow> Some (Inl e)
           | Inr (ok, cl1) \<Rightarrow>
               if \<not> ok then Some (Inr (cli_shutdown cl1))
               else if \<not> has_pending_read (cl_base cl1) then Some (Inr (cli_shutdown cl1))
               else pump_read B ks hread cl1))"

declare pump_read.simps [code]

text \<open>An induction rule for facts about a \<open>pump_read\<close> that returned.\<close>

lemma pump_read_induct [consumes 1, case_names read_fault handler_fault wait refused starved again]:
  assumes ret: "pump_read B ks hread cl = Some res"
    and read_fault: "\<And>cl e. handle_read B ks (cl_base cl) = Some (Inl e) \<Longrightarrow> P cl (Inl e)"
    and handler_fault: "\<And>cl buf b e. handle_read B ks (cl_base cl) = Some (Inr (Some buf, b)) \<Longrightarrow>
      hread buf (cl\<lparr>cl_base := b\<rparr>) = Inl e \<Longrightarrow> P cl (Inl e)"
    and wait: "\<And>cl b. handle_read B ks (cl_base cl) = Some (Inr (None, b)) \<Longrightarrow> P cl (Inr (cl\<lparr>cl_base := b\<rparr>))"
    and refused: "\<And>cl buf b cl1. handle_read B ks (cl_base cl) = Some (Inr (Some buf, b)) \<Longrightarrow>
      hread buf (cl\<lparr>cl_base := b\<rparr>) = Inr (False, cl1) \<Longrightarrow> P cl (Inr (cli_shutdown cl1))"
    and starved: "\<And>cl buf b cl1. handle_read B ks (cl_base cl) = Some (Inr (Some buf, b)) \<Longrightarrow>
      hread buf (cl\<lparr>cl_base := b\<rparr>) = Inr (True, cl1) \<Longrightarrow> \<not> has_pending_read (cl_base cl1) \<Longrightarrow> P cl (Inr (cli_shutdown cl1))"
    and again: "\<And>cl buf b cl1 r. handle_read B ks (cl_base cl) = Some (Inr (Some buf, b)) \<Longrightarrow>
      hread buf (cl\<lparr>cl_base := b\<rparr>) = Inr (True, cl1) \<Longrightarrow> has_pending_read (cl_base cl1) \<Longrightarrow> P cl1 r \<Longrightarrow> P cl r"
  shows "P cl res"
proof -
  let ?P = "\<lambda>B' ks' h cl r. B' = B \<longrightarrow> ks' = ks \<longrightarrow> h = hread \<longrightarrow> P cl r"
  have "?P B ks hread cl res"
  proof (rule pump_read.raw_induct [where P = ?P, OF _ ret], intro impI)
    fix f :: "build \<Rightarrow> keystream \<Rightarrow> (byte list \<Rightarrow> client \<Rightarrow> (bool \<times> client) res) \<Rightarrow> client \<Rightarrow> client res option"
      and B' ks' h cl r
    assume IH: "\<And>B' ks' h cl r. f B' ks' h cl = Some r \<Longrightarrow> ?P B' ks' h cl r"
      and eq: "(case handle_read B' ks' (cl_base cl) of None \<Rightarrow> None | Some (Inl e) \<Rightarrow> Some (Inl e)
        | Some (Inr (None, b)) \<Rightarrow> Some (Inr (cl\<lparr>cl_base := b\<rparr>))
        | Some (Inr (Some buf, b)) \<Rightarrow> (case h buf (cl\<lparr>cl_base := b\<rparr>) of Inl e \<Rightarrow> Some (Inl e)
           | Inr (ok, cl1) \<Rightarrow> if \<not> ok then Some (Inr (cli_shutdown cl1))
               else if \<not> has_pending_read (cl_base cl1) then Some (Inr (cli_shutdown cl1))
               else f B' ks' h cl1)) = Some r"
      and same: "B' = B" "ks' = ks" "h = hread"
    show "P cl r"
    proof (cases "handle_read B ks (cl_base cl)")
      case (Some q)
      show ?thesis
      proof (cases q)
        case (Inl e)
        then have "r = Inl e" using eq Some same by simp
        then show ?thesis using Inl Some read_fault by simp
      next
        case (Inr x)
        obtain ob b where x: "x = (ob, b)" by (cases x)
        show ?thesis
        proof (cases ob)
          case None
          then have "r = Inr (cl\<lparr>cl_base := b\<rparr>)" using eq \<open>handle_read B ks (cl_base cl) = Some q\<close> Inr x same by simp
          then show ?thesis using None \<open>handle_read B ks (cl_base cl) = Some q\<close> Inr x wait [of cl b] by simp
        next
          case (Some buf)
          note hr = \<open>handle_read B ks (cl_base cl) = Some q\<close> [unfolded Inr x Some]
          show ?thesis
            using eq hr same handler_fault [OF hr] refused [OF hr] starved [OF hr] again [OF hr] IH [of B ks hread _ r]
            by (auto split: sum.splits if_splits)
        qed
      qed
    qed (use eq same in simp)
  qed
  then show ?thesis by simp
qed

definition cli_pump_write :: "client \<Rightarrow> client" where
  "cli_pump_write = on_base pump_write"

text \<open>
  \<open>handle_dispatch\<close>: a hang-up ends the client. Its handler cleans itself up and the client is
  erased from the server's list, with the polling flag gone so that the destructor leaves the
  poll alone.
\<close>

datatype fate = Erased client | Alive client

definition handle_dispatch :: "env \<Rightarrow> u32 \<Rightarrow> client \<Rightarrow> fate res option" where
  "handle_dispatch E events cl =
     (if events AND ev_hup \<noteq> 0 then Some (Inr (Erased (clear_flag e_polling cl)))
      else
        let cl1 = (if events AND ev_write \<noteq> 0 then cli_pump_write cl else cl)
        in if events AND ev_read \<noteq> 0 then
             (case pump_read (en_build E) (en_ks E) (handler_read E) cl1 of
                None \<Rightarrow> None
              | Some (Inl e) \<Rightarrow> Some (Inl e)
              | Some (Inr cl2) \<Rightarrow> Some (Inr (Alive cl2)))
           else Some (Inr (Alive cl1)))"

text \<open>The destructor takes the descriptor out of the poll if it is still in; the result says so.\<close>

definition client_destroy :: "client \<Rightarrow> bool" where
  "client_destroy cl = has_flag e_polling cl"

section \<open>What reading leaves alone\<close>

fun same_cipher :: "evp \<Rightarrow> evp \<Rightarrow> bool" where
  "same_cipher EvpNull EvpNull = True"
| "same_cipher (EvpRc4 k p) (EvpRc4 k' p') = (k = k')"
| "same_cipher _ _ = False"

lemma same_cipher_refl [simp]: "same_cipher e e"
  by (cases e) simp_all

lemma same_cipher_trans: "same_cipher a b \<Longrightarrow> same_cipher b c \<Longrightarrow> same_cipher a c"
  by (cases a; cases b; cases c) simp_all

lemma same_cipher_update [simp]: "same_cipher e (snd (evp_update ks e bs))"
  by (cases e) simp_all

definition read_frame :: "client_base \<Rightarrow> client_base \<Rightarrow> bool" where
  "read_frame c c' \<longleftrightarrow> cb_writes c' = cb_writes c \<and> cb_encrypt c' = cb_encrypt c \<and>
     same_cipher (cb_decrypt c) (cb_decrypt c') \<and> rd_struct (cb_read c') = rd_struct (cb_read c) \<and>
     so_sent (cb_sock c') = so_sent (cb_sock c) \<and> (so_shut (cb_sock c) \<longrightarrow> so_shut (cb_sock c'))"

lemma read_frame_refl [simp]: "read_frame c c"
  by (simp add: read_frame_def)

lemma read_frame_trans: "read_frame a b \<Longrightarrow> read_frame b c \<Longrightarrow> read_frame a c"
  by (auto simp: read_frame_def intro: same_cipher_trans)

lemma alloc_buf_struct: "alloc_buf n e st = Inr st' \<Longrightarrow> rd_struct st' = rd_struct st"
  by (auto simp: alloc_buf_def Let_def bindE_eq_Inr split: option.splits)

lemma decrypt_fields_frame:
  "decrypt_fields B ks ns data mempos wirepos nread st dec = Inr (b, st', dec') \<Longrightarrow>
   rd_struct st' = rd_struct st \<and> same_cipher dec dec' \<and> rd_buf st' \<noteq> None"
proof (induction "ns_size ns - rd_field st" arbitrary: mempos wirepos nread st dec rule: less_induct)
  case less
  obtain known msz w where calc: "calc_field_sz B ns (rd_field st) (buf_ptr (rd_buf st) mempos) = Inr (known, msz, w)"
    using less(2) by (subst (asm) decrypt_fields.simps) (auto simp: bindE_eq_Inr)
  define pt where "pt = evp_update ks dec (take (min w nread) (drop wirepos data))"
  let ?go = "\<lambda>m'. decrypt_fields B ks ns data (mempos + rd_offset st + msz) (wirepos + min w nread) (nread - min w nread)
        (st\<lparr>rd_buf := Some m', rd_field := Suc (rd_field st), rd_offset := 0\<rparr>) (snd pt)"
  have "\<exists>m'. dec' = snd pt \<and> (st' = st\<lparr>rd_buf := Some m', rd_offset := rd_offset st + min w nread\<rparr> \<or>
      st' = st\<lparr>rd_buf := Some m', rd_field := Suc (rd_field st)\<rparr>) \<or> ?go m' = Inr (b, st', dec')"
    using less(2) unfolding pt_def
    by (subst (asm) decrypt_fields.simps) (auto simp: bindE_eq_Inr calc Let_def split: if_splits)
  then obtain m' where m': "dec' = snd pt \<and> (st' = st\<lparr>rd_buf := Some m', rd_offset := rd_offset st + min w nread\<rparr> \<or>
      st' = st\<lparr>rd_buf := Some m', rd_field := Suc (rd_field st)\<rparr>) \<or> ?go m' = Inr (b, st', dec')" ..
  have lt: "rd_field st < ns_size ns" using calc by (rule calc_field_sz_in_range)
  show ?case
  proof (cases "?go m' = Inr (b, st', dec')")
    case True
    from less(1) [OF _ this] lt have "rd_struct st' = rd_struct st \<and> same_cipher (snd pt) dec' \<and> rd_buf st' \<noteq> None"
      by auto
    then show ?thesis using same_cipher_trans [of dec "snd pt" dec'] by (simp add: pt_def)
  next
    case False
    then show ?thesis using m' by (auto simp: pt_def)
  qed
qed

definition pass_frame :: "client_base \<Rightarrow> client_base pass \<Rightarrow> bool" where
  "pass_frame c r \<longleftrightarrow> (case r of Returned b c' \<Rightarrow> read_frame c c' \<and> (b \<longrightarrow> rd_buf (cb_read c') \<noteq> None)
     | Again c' \<Rightarrow> read_frame c c')"

lemma sock_read_frame:
  "sock_read n s = (r, data, s') \<Longrightarrow> so_sent s' = so_sent s \<and> so_shut s' = so_shut s"
  by (auto simp: sock_read_def sys_read_def split: list.splits recv_ev.splits if_splits)

text \<open>The ways a pass over the socket can end, faults apart.\<close>

lemma resume_read_pass_cases:
  assumes "resume_read_pass B ks c = Inr p"
  obtains (too_large) "p = Returned False (c\<lparr>cb_sock := shut (cb_sock c)\<rparr>)"
    | (nothing) st1 where "rd_struct st1 = rd_struct (cb_read c)" "p = Again (c\<lparr>cb_read := st1\<rparr>)"
    | (refused) st1 n cnt data so where "rd_struct st1 = rd_struct (cb_read c)" "sock_read n (cb_sock c) = ((False, cnt), data, so)"
        "p = Returned False (c\<lparr>cb_read := st1, cb_sock := (if cnt = size_max then shut so else so)\<rparr>)"
    | (got) st1 n cnt data so ns memsz complete st2 dec where "rd_struct st1 = rd_struct (cb_read c)"
        "sock_read n (cb_sock c) = ((True, cnt), data, so)"
        "decrypt_fields B ks ns data memsz 0 cnt st1 (cb_decrypt c) = Inr (complete, st2, dec)"
        "p = (if complete then Returned True else Again) (c\<lparr>cb_read := st2, cb_sock := so, cb_decrypt := dec\<rparr>)"
proof -
  obtain ns memsz wiresz sizes where sizes: "rd_struct (cb_read c) = Some ns"
    "sizes_left B ns (rd_field (cb_read c)) (buf_ptr (rd_buf (cb_read c)) memsz) [rd_field (cb_read c) ..< ns_size ns] True memsz 0 = Inr sizes"
    "sizes_read B ns (rd_buf (cb_read c)) [0 ..< rd_field (cb_read c)] 0 0 = Inr (memsz, wiresz)"
    using assms by (auto simp: resume_read_pass_def Let_def bindE_eq_Inr split: option.splits)
  note pass = assms [unfolded resume_read_pass_def Let_def sizes option.case bindE_Inr prod.case]
  show thesis
  proof (cases sizes)
    case None
    then show ?thesis using pass too_large by simp
  next
    case (Some ar)
    obtain allocsz readsz0 where ar: "ar = (allocsz, readsz0)" by (cases ar)
    obtain st1 where alloc: "alloc_buf allocsz False (cb_read c) = Inr st1"
      using pass by (auto simp: Some ar elim: bindE_InrE)
    note st1 = alloc_buf_struct [OF alloc]
    let ?n = "readsz0 - min readsz0 (rd_offset st1)"
    obtain ok cnt data so where rd: "sock_read ?n (cb_sock c) = ((ok, cnt), data, so)" by (metis prod.exhaust)
    note pass = pass [unfolded Some ar option.case prod.case alloc bindE_Inr, simplified]
    show ?thesis
    proof (cases "?n = 0")
      case True
      then have "p = Again (c\<lparr>cb_read := st1\<rparr>)" using pass by simp
      show ?thesis by (rule nothing) fact+
    next
      case False
      then show ?thesis using pass rd refused [OF st1, of ?n cnt data so] got [OF st1, of ?n cnt data so ns memsz]
        by (cases ok) (auto elim!: bindE_InrE)
    qed
  qed
qed

lemma read_pass_frame:
  assumes "resume_read_pass B ks c = Inr p" shows "pass_frame c p"
  using assms
proof (cases rule: resume_read_pass_cases)
  case (refused st1 n cnt data so)
  then show ?thesis using sock_read_frame [OF refused(2)] by (simp add: pass_frame_def read_frame_def sock_shutdown_def)
next
  case (got st1 n cnt data so ns memsz complete st2 dec)
  then show ?thesis using sock_read_frame [OF got(2)] decrypt_fields_frame [OF got(3)]
    by (simp add: pass_frame_def read_frame_def)
qed (simp_all add: pass_frame_def read_frame_def sock_shutdown_def)

lemma resume_read_frame:
  assumes "resume_read B ks c = Some (Inr (b, c'))"
  shows "read_frame c c' \<and> (b \<longrightarrow> rd_buf (cb_read c') \<noteq> None)"
proof -
  obtain res where res: "resume_read B ks c = Some res" "res = Inr (b, c')" using assms by blast
  from res(1) have "\<forall>b c'. res = Inr (b, c') \<longrightarrow> read_frame c c' \<and> (b \<longrightarrow> rd_buf (cb_read c') \<noteq> None)"
  proof (induction rule: resume_read_induct)
    case (stop c b c')
    then show ?case using read_pass_frame [of B ks c] by (auto simp: pass_frame_def)
  next
    case (again c c1 r)
    then have "read_frame c c1" using read_pass_frame [of B ks c] by (auto simp: pass_frame_def)
    then show ?case using again(2) read_frame_trans by blast
  qed simp
  then show ?thesis using res(2) by blast
qed

lemma handle_read_frame:
  assumes "handle_read B ks c = Some (Inr (buf, c'))"
  shows "cb_writes c' = cb_writes c \<and> cb_encrypt c' = cb_encrypt c \<and> same_cipher (cb_decrypt c) (cb_decrypt c') \<and>
    so_sent (cb_sock c') = so_sent (cb_sock c) \<and> (so_shut (cb_sock c) \<longrightarrow> so_shut (cb_sock c')) \<and>
    rd_struct (cb_read c') = (if buf = None then rd_struct (cb_read c) else None)"
proof -
  obtain b c1 where r: "resume_read B ks c = Some (Inr (b, c1))"
    using assms by (auto simp: handle_read_def split: option.splits sum.splits if_splits)
  show ?thesis using resume_read_frame [OF r] assms r
    by (cases b) (auto simp: handle_read_def read_frame_def)
qed

section \<open>The interface of a message handler\<close>

text \<open>
  \<open>phase\<close> is what a handler knows about its connection between messages, \<open>expects\<close> the messages
  it may be waiting for. A handler that says go on either registers one of those or none; in
  the latter case the loop ends the connection.
\<close>

locale message_handler =
  fixes hread :: "byte list \<Rightarrow> client \<Rightarrow> (bool \<times> client) res"
    and phase :: "client \<Rightarrow> bool"
    and expects :: "client \<Rightarrow> net_struct \<Rightarrow> bool"
  assumes phase_frame: "phase cl \<Longrightarrow> cb_encrypt b = cb_encrypt (cl_base cl) \<Longrightarrow>
      same_cipher (cb_decrypt (cl_base cl)) (cb_decrypt b) \<Longrightarrow> phase (cl\<lparr>cl_base := b\<rparr>)"
    and phase_step: "phase cl \<Longrightarrow> hread buf cl = Inr (ok, cl') \<Longrightarrow> phase cl'"
    and expects_frame: "expects (cl\<lparr>cl_base := b\<rparr>) ns = expects cl ns"
    and registers: "phase cl \<Longrightarrow> rd_struct (cb_read (cl_base cl)) = None \<Longrightarrow> hread buf cl = Inr (ok, cl') \<Longrightarrow>
      rd_struct (cb_read (cl_base cl')) = Some ns \<Longrightarrow> expects cl' ns"
begin

definition idle :: "client \<Rightarrow> bool" where
  "idle cl \<longleftrightarrow> phase cl \<and> (case rd_struct (cb_read (cl_base cl)) of
     None \<Rightarrow> so_shut (cb_sock (cl_base cl)) | Some ns \<Rightarrow> expects cl ns)"

lemma idle_shutdown: "phase cl \<Longrightarrow> (\<And>ns. rd_struct (cb_read (cl_base cl)) = Some ns \<Longrightarrow> expects cl ns) \<Longrightarrow> idle (cli_shutdown cl)"
  using phase_frame [of cl "(cl_base cl)\<lparr>cb_sock := shut (cb_sock (cl_base cl))\<rparr>"]
  by (auto simp: idle_def cli_shutdown_def sock_shutdown_def expects_frame split: option.splits)

lemma delivered_idle:
  assumes "idle cl" "handle_read B ks (cl_base cl) = Some (Inr (Some buf, b))" "hread buf (cl\<lparr>cl_base := b\<rparr>) = Inr (ok, cl1)"
  shows "phase cl1" "rd_struct (cb_read (cl_base cl1)) = Some ns \<Longrightarrow> expects cl1 ns"
    "has_pending_read (cl_base cl1) \<Longrightarrow> idle cl1"
proof -
  note fr = handle_read_frame [OF assms(2)]
  have ph: "phase (cl\<lparr>cl_base := b\<rparr>)" using assms(1) fr phase_frame by (simp add: idle_def)
  have none: "rd_struct (cb_read (cl_base (cl\<lparr>cl_base := b\<rparr>))) = None" using fr by simp
  show p: "phase cl1" by (rule phase_step [OF ph assms(3)])
  show x: "expects cl1 ns" if "rd_struct (cb_read (cl_base cl1)) = Some ns" for ns
    by (rule registers [OF ph none assms(3) that])
  show "has_pending_read (cl_base cl1) \<Longrightarrow> idle cl1"
    using p x by (auto simp: idle_def has_pending_read_def)
qed

lemma pump_read_idle:
  assumes "pump_read B ks hread cl = Some (Inr cl')" "idle cl"
  shows "idle cl'"
proof -
  obtain r where r: "pump_read B ks hread cl = Some r" "r = Inr cl'" using assms(1) by blast
  from r(1) have "idle cl \<longrightarrow> (\<forall>cl'. r = Inr cl' \<longrightarrow> idle cl')"
  proof (induction rule: pump_read_induct)
    case (wait cl b)
    then show ?case using handle_read_frame [OF wait] phase_frame [of cl b] by (auto simp: idle_def expects_frame split: option.splits)
  next
    case (refused cl buf b cl1)
    then show ?case using delivered_idle(1,2) [OF _ refused] by (auto intro: idle_shutdown)
  next
    case (starved cl buf b cl1)
    then show ?case using delivered_idle(1,2) [OF _ starved(1,2)] by (auto intro: idle_shutdown)
  next
    case (again cl buf b cl1 r)
    then show ?case using delivered_idle(3) [OF _ again(1,2)] by blast
  qed simp_all
  then show ?thesis using r(2) assms(2) by simp
qed

end


section \<open>The program's handlers\<close>

definition enc :: "client \<Rightarrow> bool" where "enc = has_flag e_encrypted"
definition seed :: "client \<Rightarrow> bool" where "seed = has_flag e_wantClientSeed"
definition hdr :: "client \<Rightarrow> bool" where "hdr = has_flag e_wantMsgHeader"

lemmas phase_flags = enc_def seed_def hdr_def

text \<open>
  Before the key exchange ends both ciphers are null; after it they run on one key of seven
  bytes, unless the build allows clients to do without.
\<close>

definition keyed :: "build \<Rightarrow> client_base \<Rightarrow> bool" where
  "keyed B b \<longleftrightarrow>
     (case (cb_encrypt b, cb_decrypt b) of
        (EvpRc4 k p, EvpRc4 k' q) \<Rightarrow> k = k' \<and> length k = 7
      | (EvpNull, EvpNull) \<Rightarrow> allow_decrypted B
      | _ \<Rightarrow> False)"

definition conn_phase :: "build \<Rightarrow> client \<Rightarrow> bool" where
  "conn_phase B cl \<longleftrightarrow>
     (cl_handler cl = Incoming_Handler \<longrightarrow> \<not> enc cl \<and> \<not> seed cl) \<and>
     (seed cl \<longrightarrow> \<not> enc cl \<and> cl_handler cl = Gatekeeper_Handler 64) \<and>
     (hdr cl \<longrightarrow> enc cl) \<and>
     (if enc cl then keyed B (cl_base cl) else cb_encrypt (cl_base cl) = EvpNull \<and> cb_decrypt (cl_base cl) = EvpNull)"

definition conn_expects :: "client \<Rightarrow> net_struct \<Rightarrow> bool" where
  "conn_expects cl ns \<longleftrightarrow>
     (if cl_handler cl = Incoming_Handler then ns = common_connection_header
      else if seed cl then ns = encryptMsg 64
      else if \<not> enc cl then ns = common_encrypt_header
      else if hdr cl then ns = common_msg_std_header
      else ns \<in> {gatekeeper_pingRequest, gatekeeper_fileSrvRequest, gatekeeper_authSrvRequest})"

lemma encrypt_fields_cipher:
  "encrypt_fields B ks ns buf is mp wp out e = Inr (out', e') \<Longrightarrow> same_cipher e e'"
proof (induction "is" arbitrary: mp wp out e)
  case (Cons i "is")
  from Cons(2) obtain bs mp' wp' o' where
    "encrypt_fields B ks ns buf is mp' wp' o' (snd (evp_update ks e bs)) = Inr (out', e')"
    by (auto simp: bindE_eq_Inr Let_def)
  from Cons(1) [OF this] show ?case using same_cipher_trans [of e "snd (evp_update ks e bs)" e'] by simp
qed simp

lemma cli_write_frame:
  assumes "cli_write E ns buf cl = Inr cl'"
  shows "cl_flags cl' = cl_flags cl \<and> cl_handler cl' = cl_handler cl \<and> cb_read (cl_base cl') = cb_read (cl_base cl) \<and>
    cb_decrypt (cl_base cl') = cb_decrypt (cl_base cl) \<and> same_cipher (cb_encrypt (cl_base cl)) (cb_encrypt (cl_base cl'))"
  using assms by (auto simp: cli_write_def enqueue_write_def bindE_eq_Inr Let_def dest!: encrypt_fields_cipher
      split: if_splits prod.splits)

lemma keyed_frame:
  "keyed B b \<Longrightarrow> same_cipher (cb_encrypt b) (cb_encrypt b') \<Longrightarrow> same_cipher (cb_decrypt b) (cb_decrypt b') \<Longrightarrow> keyed B b'"
  by (cases "cb_encrypt b"; cases "cb_decrypt b"; cases "cb_encrypt b'"; cases "cb_decrypt b'") (auto simp: keyed_def)

lemma same_cipher_Null: "same_cipher EvpNull e \<longleftrightarrow> e = EvpNull"
  by (cases e) simp_all

lemma conn_phase_frame:
  assumes "conn_phase B cl" "cl_flags cl' = cl_flags cl" "cl_handler cl' = cl_handler cl"
    and "same_cipher (cb_encrypt (cl_base cl)) (cb_encrypt (cl_base cl'))"
    and "same_cipher (cb_decrypt (cl_base cl)) (cb_decrypt (cl_base cl'))"
  shows "conn_phase B cl'"
  using assms keyed_frame [OF _ assms(4,5), of B]
  by (auto simp: conn_phase_def phase_flags has_flag_def same_cipher_Null split: if_splits)


lemma make_server_key_length:
  "make_server_key k n sz y 7 rand junk = Inr (Some (s, key)) \<Longrightarrow> length rand = 7 \<Longrightarrow> length key = 7"
  by (auto simp: make_server_key_def Let_def bindE_eq_Inr dest: mem_read_length split: if_splits)

lemma read_msg_cases:
  assumes "read_msg B buf cl = Inr (ok, cl')"
  shows "ok \<and> (\<exists>ns \<in> {gatekeeper_pingRequest, gatekeeper_fileSrvRequest, gatekeeper_authSrvRequest}.
      cl' = on_base (read_resume ns 1 (Some buf)) cl) \<or> \<not> ok \<and> cl' = cl"
  using assms by (auto simp: read_msg_def bindE_eq_Inr Let_def split: if_splits)

lemma dispatch_msg_frame:
  assumes "dispatch_msg E buf cl = Inr (ok, cl')"
  shows "cl_flags cl' = cl_flags cl \<and> cl_handler cl' = cl_handler cl \<and> cb_read (cl_base cl') = cb_read (cl_base cl) \<and>
    cb_decrypt (cl_base cl') = cb_decrypt (cl_base cl) \<and> same_cipher (cb_encrypt (cl_base cl)) (cb_encrypt (cl_base cl'))"
  using assms
  by (auto simp: dispatch_msg_def handle_ping_def handle_fileSrvReq_def handle_authSrvReq_def Let_def bindE_eq_Inr
      dest!: cli_write_frame split: if_splits)

lemma handle_ydata_cases:
  assumes "handle_ydata E keys handle_encryption count buf cl = Inr (ok, cl')" "wf_env E"
  shows "\<not> ok \<and> cl' = cl \<or>
    ok \<and> (\<exists>key cl1. length key = 7 \<and> (\<forall>f. has_flag f cl1 = has_flag f cl) \<and> cl_handler cl1 = cl_handler cl \<and>
      cl' = cli_read common_msg_std_header (set_flag e_wantMsgHeader
              (set_flag e_encrypted (on_base (set_crypt_key 7 key) cl1))))"
proof (cases ok)
  case True
  then obtain sd key cl1 ns reply where
    k: "make_server_key (fst (keys cl)) (snd (keys cl)) count buf 7 (en_rand E) (en_seed_junk E) = Inr (Some (sd, key))" and
    w: "cli_write E ns reply cl = Inr cl1" and
    cl': "cl' = cli_read common_msg_std_header (set_flag e_wantMsgHeader
              (set_flag e_encrypted (on_base (set_crypt_key 7 key) cl1)))"
    using assms(1)
    by (auto simp: handle_ydata_def Let_def bindE_eq_Inr handle_encryption_def sizeof_srvSeed_def split: option.splits)
  have "length key = 7" using make_server_key_length [OF k] assms(2) by (simp add: wf_env_def)
  moreover have "has_flag f cl1 = has_flag f cl" for f using cli_write_frame [OF w] by (simp add: has_flag_def)
  ultimately show ?thesis using True cl' cli_write_frame [OF w] by (intro disjI2) auto
next
  case False
  then show ?thesis
    using assms by (auto simp: handle_ydata_def Let_def bindE_eq_Inr handle_encryption_def split: option.splits)
qed

lemma keyed_simps:
  "keyed B (b\<lparr>cb_read := r\<rparr>) = keyed B b"
  "length key = 7 \<Longrightarrow> keyed B (b\<lparr>cb_encrypt := EvpRc4 key p, cb_decrypt := EvpRc4 key q\<rparr>)"
  "length key = 7 \<Longrightarrow> keyed B (b\<lparr>cb_encrypt := EvpRc4 key p, cb_decrypt := EvpRc4 key q, cb_read := r\<rparr>)"
  "cb_encrypt b = EvpNull \<Longrightarrow> cb_decrypt b = EvpNull \<Longrightarrow> keyed B b = allow_decrypted B"
  by (simp_all add: keyed_def)

lemmas handler_simps = phase_flags cli_read_def read_struct_def read_resume_def Let_def keyed_simps set_crypt_key_def

lemma handshake_cases:
  assumes "handle_handshake B buf cl = Inr (ok, cl')"
  shows "\<not> ok \<and> cl' = cl \<or>
    ok \<and> allow_decrypted B \<and> cl' = set_flag e_encrypted cl \<or>
    ok \<and> cl' = set_flag e_wantClientSeed (cli_read (encryptMsg 64) (cl\<lparr>cl_handler := Gatekeeper_Handler 64\<rparr>))"
  using assms by (auto simp: handle_handshake_def bindE_eq_Inr Let_def split: if_splits)

lemma gatekeeper_read_cases:
  assumes "gatekeeper_read E n buf cl = Inr (ok, cl')"
  obtains (handshake) "\<not> enc cl" "\<not> seed cl" "handle_handshake (en_build E) buf cl = Inr (ok, cl')"
    | (ydata) "\<not> enc cl" "seed cl"
        "handle_ydata E (get_keys E) handle_encryption n buf (clear_flag e_wantClientSeed cl) = Inr (ok, cl')"
    | (header) "enc cl" "hdr cl" "read_msg (en_build E) buf (clear_flag e_wantMsgHeader cl) = Inr (ok, cl')"
    | (message) "enc cl" "\<not> hdr cl"
        "dispatch_msg E buf (cli_read common_msg_std_header (set_flag e_wantMsgHeader cl)) = Inr (ok, cl')"
  using assms by (auto simp: gatekeeper_read_def encrypted_read_def phase_flags split: if_splits)

lemma gatekeeper_phase:
  assumes "wf_env E" "conn_phase (en_build E) cl" "cl_handler cl = Gatekeeper_Handler n"
    and "gatekeeper_read E n buf cl = Inr (ok, cl')"
  shows "conn_phase (en_build E) cl'"
  using assms(4)
proof (cases rule: gatekeeper_read_cases)
  case handshake
  then show ?thesis using handshake_cases [OF handshake(3)] assms(2,3)
    by (auto simp: conn_phase_def handler_simps)
next
  case ydata
  then show ?thesis using handle_ydata_cases [OF ydata(3) assms(1)] assms(2,3)
    by (auto simp: conn_phase_def handler_simps)
next
  case header
  then show ?thesis using read_msg_cases [OF header(3)] assms(2,3)
    by (auto simp: conn_phase_def handler_simps)
next
  case message
  let ?cl = "cli_read common_msg_std_header (set_flag e_wantMsgHeader cl)"
  have "conn_phase (en_build E) ?cl"
    using assms(2,3) message by (auto simp: conn_phase_def handler_simps)
  then show ?thesis using dispatch_msg_frame [OF message(3)]
    by (auto intro: conn_phase_frame [of _ ?cl])
qed

lemma gatekeeper_expects:
  assumes "wf_env E" "conn_phase (en_build E) cl" "cl_handler cl = Gatekeeper_Handler n"
    and "gatekeeper_read E n buf cl = Inr (ok, cl')"
    and "rd_struct (cb_read (cl_base cl)) = None" "rd_struct (cb_read (cl_base cl')) = Some ns"
  shows "conn_expects cl' ns"
  using assms(4)
proof (cases rule: gatekeeper_read_cases)
  case handshake
  then show ?thesis using handshake_cases [OF handshake(3)] assms(5,6)
    by (auto simp: conn_expects_def handler_simps)
next
  case ydata
  then show ?thesis using handle_ydata_cases [OF ydata(3) assms(1)] assms(2,3,5,6)
    by (auto simp: conn_phase_def conn_expects_def handler_simps)
next
  case header
  then show ?thesis using read_msg_cases [OF header(3)] assms(2,3,5,6)
    by (auto simp: conn_phase_def conn_expects_def handler_simps)
next
  case message
  let ?cl = "cli_read common_msg_std_header (set_flag e_wantMsgHeader cl)"
  have "cl_flags cl' = cl_flags ?cl" using dispatch_msg_frame [OF message(3)] by simp
  then have "has_flag f cl' = has_flag f ?cl" for f by (simp add: has_flag_def)
  then show ?thesis using dispatch_msg_frame [OF message(3)] assms(2,3,6) message
    by (auto simp: conn_phase_def conn_expects_def handler_simps)
qed

lemma incoming_cases:
  "incoming_read buf cl = Inr (ok, cl') \<Longrightarrow> ok \<and> cl' = create_gate cl \<or> \<not> ok \<and> cl' = cl"
  by (auto simp: incoming_read_def bindE_eq_Inr split: if_splits)

interpretation conn: message_handler "handler_read E" "\<lambda>cl. wf_env E \<and> conn_phase (en_build E) cl" conn_expects for E
proof unfold_locales
  fix cl and b :: client_base
  assume "wf_env E \<and> conn_phase (en_build E) cl" "cb_encrypt b = cb_encrypt (cl_base cl)"
    "same_cipher (cb_decrypt (cl_base cl)) (cb_decrypt b)"
  then show "wf_env E \<and> conn_phase (en_build E) (cl\<lparr>cl_base := b\<rparr>)"
    using conn_phase_frame [of "en_build E" cl "cl\<lparr>cl_base := b\<rparr>"] by simp
next
  fix cl buf ok cl'
  assume "wf_env E \<and> conn_phase (en_build E) cl" "handler_read E buf cl = Inr (ok, cl')"
  then show "wf_env E \<and> conn_phase (en_build E) cl'"
    using gatekeeper_phase [of E cl _ buf ok cl'] incoming_cases [of buf cl ok cl']
    by (cases "cl_handler cl") (auto simp: handler_read_def conn_phase_def create_gate_def handler_simps)
next
  fix cl ns and b :: client_base
  show "conn_expects (cl\<lparr>cl_base := b\<rparr>) ns = conn_expects cl ns"
    by (simp add: conn_expects_def phase_flags)
next
  fix cl buf ok cl' ns
  assume "wf_env E \<and> conn_phase (en_build E) cl" "rd_struct (cb_read (cl_base cl)) = None"
    "handler_read E buf cl = Inr (ok, cl')" "rd_struct (cb_read (cl_base cl')) = Some ns"
  then show "conn_expects cl' ns"
    using gatekeeper_expects [of E cl _ buf ok cl' ns] incoming_cases [of buf cl ok cl']
    by (cases "cl_handler cl") (auto simp: handler_read_def conn_phase_def conn_expects_def create_gate_def handler_simps)
qed

end
