(* ===== verification/Theme_Session.thy ===== *)
theory Theme_Session
  imports Theme_Pump
begin

text \<open>
  Whole conversations: what a connection does from the bytes a peer sends to the bytes the
  kernel and the write queue hold, through \<open>pump_read\<close> and the handlers; and what holds of
  every connection that can be reached.
\<close>

section \<open>Complete reads\<close>

definition delivered :: "nat \<Rightarrow> recv_ev list \<Rightarrow> evp \<Rightarrow> client_base \<Rightarrow> client_base" where
  "delivered A evs dec c =
     c\<lparr>cb_sock := (cb_sock c)\<lparr>so_in := evs\<rparr>,
       cb_read := (cb_read c)\<lparr>rd_struct := None, rd_field := 0, rd_offset := 0, rd_bufsz := A, rd_buf := None\<rparr>,
       cb_decrypt := dec\<rparr>"

definition left_over :: "nat \<Rightarrow> byte list \<Rightarrow> recv_ev list \<Rightarrow> recv_ev list" where
  "left_over n bs evs = (if length bs = n then evs else Rchunk (drop n bs) # evs)"

lemma handle_read_fixed:
  assumes "fixed_upto ns v" "v = ns_size ns" "A = alloc_size (field_off ns v) False"
    and "read_at ns v k (cb_read c)" "k < v" "so_in (cb_sock c) = Rchunk bs # evs"
    and "R = field_off ns v - field_off ns k" "R \<le> length bs"
    and "pt = evp_update ks (cb_decrypt c) (take R bs)"
  shows "handle_read B ks c = Some (Inr (Some (patch (field_off ns k) (fst pt) (grow A (rd_buf (cb_read c)))),
    delivered A (left_over R bs evs) (snd pt) c))"
proof -
  have "resume_read B ks c = Some (Inr (True, took ks A (field_off ns k) (concat [] @ take R bs)
      (if length bs = R then evs else Rchunk (drop R bs) # evs) v 0 c))"
    by (rule resume_delivers [OF assms(1-5)]) (use assms(6-8) in simp_all)
  then show ?thesis by (simp add: handle_read_def took_def delivered_def left_over_def assms(9))
qed

lemma handle_read_tail:
  assumes "fixed_upto ns v" "sized_tail ns v" "A = alloc_size (field_off ns v) False"
    and "read_at ns v k (cb_read c)" "k < v" "so_in (cb_sock c) = Rchunk bs # evs"
    and "R = field_off ns v - field_off ns k" "R + n \<le> length bs"
    and "n = header_count ns v (fst (evp_update ks (cb_decrypt c) (take R bs)))"
    and "n \<noteq> size_max" "field_off ns v + n \<le> A"
    and "pt = evp_update ks (cb_decrypt c) (take (R + n) bs)"
  shows "handle_read B ks c = Some (Inr (Some (patch (field_off ns k) (fst pt) (grow A (rd_buf (cb_read c)))),
    delivered A (left_over (R + n) bs evs) (snd pt) c))"
  using resume_tail_delivers [OF assms(1-11), of B]
  by (simp add: handle_read_def took_def delivered_def left_over_def assms(12))

text \<open>With nothing to read the call returns and only the buffer has been allocated.\<close>

definition blocked :: "nat \<Rightarrow> client_base \<Rightarrow> client_base" where
  "blocked A c = c\<lparr>cb_read := (cb_read c)\<lparr>rd_bufsz := A, rd_buf := Some (grow A (rd_buf (cb_read c)))\<rparr>\<rparr>"

lemma handle_read_blocked:
  assumes "fixed_upto ns v" "v = ns_size ns" "A = alloc_size (field_off ns v) False"
    and "read_at ns v k (cb_read c)" "k < v" "so_in (cb_sock c) = []"
  shows "handle_read B ks c = Some (Inr (None, blocked A c))"
proof -
  have "sock_read n (cb_sock c) = ((False, 0), [], cb_sock c)" for n
    using assms(6) by (simp add: sock_read_def sys_read_def)
  then have "resume_read_pass B ks c = Inr (Returned False (blocked A c))"
    using fixed_pass [OF assms(1,2,4,5,3) refl refl, of B ks] by (simp add: blocked_def)
  then show ?thesis by (simp add: handle_read_def resume_read.simps)
qed

lemma pump_read_blocked:
  assumes "fixed_struct ns" "field_off ns (ns_size ns) < size_max" "A = alloc_size (field_off ns (ns_size ns)) False"
    and "read_at ns (ns_size ns) 0 (cb_read (cl_base cl))" "so_in (cb_sock (cl_base cl)) = []"
  shows "pump_read B ks h cl = Some (Inr (on_base (blocked A) cl))"
  using handle_read_blocked [OF fixed_struct_upto(1) [OF assms(1,2)] refl assms(3,4) fixed_struct_upto(2) [OF assms(1,2)] assms(5)]
  by (simp add: pump_read.simps)

lemma pump_read_message:
  assumes "handle_read B ks (cl_base cl) = Some (Inr (Some buf, b))"
    and "h buf (cl\<lparr>cl_base := b\<rparr>) = Inr (True, cl1)" "rd_struct (cb_read (cl_base cl1)) = Some ns"
  shows "pump_read B ks h cl = pump_read B ks h cl1"
  using assms by (subst pump_read.simps) (simp add: has_pending_read_def)

lemma pump_read_refused:
  assumes "handle_read B ks (cl_base cl) = Some (Inr (Some buf, b))"
    and "h buf (cl\<lparr>cl_base := b\<rparr>) = Inr (False, cl1)"
  shows "pump_read B ks h cl = Some (Inr (cli_shutdown cl1))"
  using assms by (subst pump_read.simps) simp

text \<open>A read of a message that has just been registered.\<close>

lemma read_at_fresh:
  "rd_struct st = Some ns \<Longrightarrow> rd_field st = 0 \<Longrightarrow> rd_offset st = 0 \<Longrightarrow> rd_buf st = None \<Longrightarrow> read_at ns v 0 st"
  by (simp add: read_at_def buf_fits_def)

text \<open>What the handlers see at the front of the buffer.\<close>

lemma take_patch_0: "n \<le> length bs \<Longrightarrow> take n (patch 0 bs m) = take n bs"
  by (simp add: patch_def)

lemma get_uint8_patch: "off < length bs \<Longrightarrow> get_uint8 off (patch 0 bs m) = bs ! off"
  by (simp add: get_uint8_def patch_def hd_drop_conv_nth nth_append)

section \<open>Opening a connection\<close>

definition fresh_read :: "net_struct \<Rightarrow> client \<Rightarrow> bool" where
  "fresh_read ns cl \<longleftrightarrow> (let st = cb_read (cl_base cl) in
     rd_struct st = Some ns \<and> rd_field st = 0 \<and> rd_offset st = 0 \<and> rd_buf st = None)"

lemma fresh_read_at: "fresh_read ns cl \<Longrightarrow> read_at ns v 0 (cb_read (cl_base cl))"
  by (simp add: fresh_read_def Let_def read_at_fresh)

lemma fresh_buf: "fresh_read ns cl \<Longrightarrow> rd_buf (cb_read (cl_base cl)) = None"
  by (simp add: fresh_read_def Let_def)

abbreviation received :: "nat \<Rightarrow> recv_ev list \<Rightarrow> client \<Rightarrow> client" where
  "received A evs cl \<equiv> on_base (\<lambda>b. delivered A evs (cb_decrypt b) b) cl"

lemma fresh_after_delivery [simp]:
  "fresh_read ns (cli_read ns (cl\<lparr>cl_base := delivered A evs d b\<rparr>))"
  by (simp add: fresh_read_def Let_def cli_read_def read_struct_def delivered_def)

lemma fixed_message_read:
  assumes "fixed_struct ns" "field_off ns (ns_size ns) = N" "N < size_max" "A = alloc_size N False"
    and "fresh_read ns cl" "so_in (cb_sock (cl_base cl)) = Rchunk bs # evs" "N \<le> length bs"
    and "cb_decrypt (cl_base cl) = EvpNull"
  shows "handle_read B ks (cl_base cl) =
    Some (Inr (Some (patch 0 (take N bs) (replicate A 0)), delivered A (left_over N bs evs) EvpNull (cl_base cl)))"
proof -
  have f: "fixed_upto ns (ns_size ns)" "0 < ns_size ns" using fixed_struct_upto [OF assms(1)] assms(2,3) by simp_all
  from handle_read_fixed [OF f(1) refl refl fresh_read_at [OF assms(5)] f(2) assms(6) refl _ refl, of B ks]
  show ?thesis using assms(2,4,7,8) fresh_buf [OF assms(5)] by (simp add: grow_def)
qed

lemma connection_header_read:
  assumes "fresh_read common_connection_header cl" "cb_decrypt (cl_base cl) = EvpNull"
    and "so_in (cb_sock (cl_base cl)) = Rchunk bs # evs" "35 + n \<le> length bs" "n \<le> 29"
    and "le_val (take 4 (drop 31 bs)) = n + 4"
  shows "handle_read B ks (cl_base cl) =
    Some (Inr (Some (patch 0 (take (35 + n) bs) (replicate 64 0)),
      delivered 64 (left_over (35 + n) bs evs) EvpNull (cl_base cl)))"
proof -
  let ?ns = common_connection_header
  have off: "field_off ?ns 7 = 35" by (rule message_sizes)
  have t: "nf_type (ns_fields ?ns ! 7) = e_buffer_redundant" by (simp add: message_defs NET_FIELD_defs)
  have "drop 31 (take 35 bs) = take 4 (drop 31 bs)" by (simp add: drop_take)
  then have c: "header_count ?ns 7 (take 35 bs) = n"
    using assms(4,5,6) tail_count_redundant [of "n + 4"] by (simp add: header_count_def t)
  have plain: "evp_update ks (cb_decrypt (cl_base cl)) xs = (xs, EvpNull)" for xs using assms(2) by simp
  have A: "alloc_size (field_off ?ns 7) False = 64" by (simp add: off alloc_size_def)
  have "handle_read B ks (cl_base cl) = Some (Inr (Some (patch (field_off ?ns 0) (fst (take (35 + n) bs, EvpNull))
      (grow 64 (rd_buf (cb_read (cl_base cl))))), delivered 64 (left_over (35 + n) bs evs) (snd (take (35 + n) bs, EvpNull)) (cl_base cl)))"
    by (rule handle_read_tail [OF tails_fixed(1) tails_sized(1) A [symmetric] fresh_read_at [OF assms(1)] _ assms(3)])
      (use assms(4,5) in \<open>simp_all add: plain off c\<close>)
  then show ?thesis by (simp add: fresh_buf [OF assms(1)] grow_def)
qed

lemma connection_accepted:
  assumes "cl_handler cl = Incoming_Handler" "fresh_read common_connection_header cl"
    and "cb_decrypt (cl_base cl) = EvpNull" "so_in (cb_sock (cl_base cl)) = Rchunk bs # evs"
    and "35 + n \<le> length bs" "n \<le> 29" "le_val (take 4 (drop 31 bs)) = n + 4"
    and "cl1 = cl\<lparr>cl_base := delivered 64 (left_over (35 + n) bs evs) EvpNull (cl_base cl)\<rparr>"
  shows "pump_read B ks (handler_read E) cl =
    (if bs ! 0 = e_protocolCli2Gate then pump_read B ks (handler_read E) (create_gate cl1)
     else Some (Inr (cli_shutdown cl1)))"
proof -
  let ?buf = "patch 0 (take (35 + n) bs) (replicate 64 0)"
  note rd = connection_header_read [OF assms(2,3,4,5,6,7), of B ks]
  have m: "mem_read ?buf 0 (Suc 0) = Inr (take 1 ?buf)" using assms(5,6) by (simp add: mem_read_in)
  have g: "get_uint8 0 ?buf = bs ! 0" using assms(5) by (subst get_uint8_patch) simp_all
  have h: "handler_read E ?buf cl1 = (if bs ! 0 = e_protocolCli2Gate then Inr (True, create_gate cl1) else Inr (False, cl1))"
    using assms(1) by (simp add: handler_read_def assms(8) incoming_read_def m g)
  show ?thesis
  proof (cases "bs ! 0 = e_protocolCli2Gate")
    case True
    then show ?thesis using h
      by (subst pump_read_message [OF rd])
        (simp_all add: assms(8) create_gate_def cli_read_def read_struct_def)
  next
    case False
    then show ?thesis using h by (subst pump_read_refused [OF rd]) (simp_all add: assms(8))
  qed
qed

text \<open>The handshake header: only 66 leads on.\<close>

lemma handshake_answered:
  assumes "cl_handler cl = Gatekeeper_Handler k" "\<not> enc cl" "\<not> seed cl" "fresh_read common_encrypt_header cl"
    and "cb_decrypt (cl_base cl) = EvpNull" "so_in (cb_sock (cl_base cl)) = Rchunk bs # evs" "2 \<le> length bs"
    and "cl1 = cl\<lparr>cl_base := delivered 32 (left_over 2 bs evs) EvpNull (cl_base cl)\<rparr>"
  shows "pump_read B ks (handler_read E) cl =
    (if bs ! 0 = e_c2s_connect \<and> bs ! 1 = 66 then
       pump_read B ks (handler_read E)
         (set_flag e_wantClientSeed (cli_read (encryptMsg 64) (cl1\<lparr>cl_handler := Gatekeeper_Handler 64\<rparr>)))
     else Some (Inr (cli_shutdown
       (if bs ! 0 = e_c2s_connect \<and> bs ! 1 = 2 \<and> allow_decrypted (en_build E) then set_flag e_encrypted cl1 else cl1))))"
proof -
  let ?buf = "patch 0 (take 2 bs) (replicate 32 0)"
  have rd: "handle_read B ks (cl_base cl) = Some (Inr (Some ?buf, delivered 32 (left_over 2 bs evs) EvpNull (cl_base cl)))"
    by (rule fixed_message_read [OF fixed_messages(1) message_sizes(1) _ _ assms(4,6,7,5)]) (simp_all add: alloc_size_def)
  have m: "mem_read ?buf 0 2 = Inr (take 2 ?buf)" using assms(7) by (simp add: mem_read_in)
  have g: "get_uint8 0 ?buf = bs ! 0" "get_uint8 (Suc 0) ?buf = bs ! 1"
    using assms(7) by (subst get_uint8_patch; simp)+
  have h: "handler_read E ?buf cl1 = handle_handshake (en_build E) ?buf cl1"
    using assms(1-3) by (simp add: handler_read_def assms(8) gatekeeper_read_def encrypted_read_def phase_flags)
  have hh: "handle_handshake (en_build E) ?buf cl1 =
      (if bs ! 0 = e_c2s_connect \<and> bs ! 1 = 66 then
         Inr (True, set_flag e_wantClientSeed (cli_read (encryptMsg 64) (cl1\<lparr>cl_handler := Gatekeeper_Handler 64\<rparr>)))
       else if bs ! 0 = e_c2s_connect \<and> bs ! 1 = 2 \<and> allow_decrypted (en_build E) then Inr (True, set_flag e_encrypted cl1)
       else Inr (False, cl1))"
    by (auto simp: handle_handshake_def m g Let_def)
  have none: "rd_struct (cb_read (cl_base cl1)) = None" by (simp add: assms(8) delivered_def)
  consider (seed) "bs ! 0 = e_c2s_connect \<and> bs ! 1 = 66"
    | (plain) "bs ! 0 = e_c2s_connect \<and> bs ! 1 = 2 \<and> allow_decrypted (en_build E)"
    | (bad) "\<not> (bs ! 0 = e_c2s_connect \<and> bs ! 1 = 66)" "\<not> (bs ! 0 = e_c2s_connect \<and> bs ! 1 = 2 \<and> allow_decrypted (en_build E))"
    by blast
  then show ?thesis
  proof cases
    case seed
    then show ?thesis using h hh assms(8)
      by (subst pump_read_message [OF rd, where ns = "encryptMsg 64"])
        (simp_all add: cli_read_def read_struct_def)
  next
    case plain
    then show ?thesis using h hh none assms(8)
      by (subst pump_read.simps) (simp add: rd has_pending_read_def)
  next
    case bad
    then show ?thesis using h hh assms(8) using pump_read_refused [OF rd, of "handler_read E" cl1] by (auto simp: if_not_P)
  qed
qed

section \<open>The key exchange\<close>

lemma resume_write_so_in: "resume_write st s = (b, st', s') \<Longrightarrow> so_in s' = so_in s"
  by (auto simp: resume_write_def Let_def sock_write_def sys_write_def split: prod.splits list.splits send_ev.splits if_splits)

lemma after_write_so_in [simp]: "so_in (cb_sock (after_write bs c)) = so_in (cb_sock c)"
  by (auto simp: after_write_def Let_def dest: resume_write_so_in split: prod.splits)

lemma encrypt_reply_bytes:
  assumes "length stack = 9" "length sd = 7"
  shows "patch 2 sd (set_uint8 1 9 (set_uint8 0 1 stack)) = [1, 9] @ sd"
  using assms by (simp add: set_uint8_def patch_def)

lemma encryptMsg_fixed: "fixed_struct (encryptMsg 64)" "field_off (encryptMsg 64) (ns_size (encryptMsg 64)) = 64"
  by (simp_all add: fixed_struct_def encryptMsg_def fixed_field_def fixed_type_def field_off_def)

text \<open>The key both ends compute from the peer's secret \<open>b\<close>.\<close>

definition session_key :: "env \<Rightarrow> nat \<Rightarrow> nat \<Rightarrow> byte list" where
  "session_key E g b =
     (let N = gd_cryptN (en_gate E); X = bn_mod_exp g (gd_cryptK (en_gate E)) N
      in map2 (XOR) (take 7 (le_bytes kKeySize (bn_mod_exp X b N))) (en_rand E))"

lemma ydata_step:
  assumes "wf_env E" "cb_encrypt (cl_base cl) = EvpNull" "wf_writes (cl_base cl)"
    and "0 < gd_cryptN (en_gate E)" "gd_cryptN (en_gate E) < 256 ^ kKeySize"
    and "buf = le_bytes kKeySize (bn_mod_exp g b (gd_cryptN (en_gate E))) @ rest"
  shows "\<exists>b'. handle_ydata E (get_keys E) handle_encryption 64 buf cl =
      Inr (True, cli_read common_msg_std_header (set_flag e_wantMsgHeader (set_flag e_encrypted (cl\<lparr>cl_base := b'\<rparr>)))) \<and>
    cb_encrypt b' = EvpRc4 (session_key E g b) 0 \<and> cb_decrypt b' = EvpRc4 (session_key E g b) 0 \<and>
    cb_read b' = cb_read (cl_base cl) \<and> so_in (cb_sock b') = so_in (cb_sock (cl_base cl)) \<and> wf_writes b' \<and>
    outgoing b' = outgoing (cl_base cl) @ [1, 9] @ en_rand E"
proof -
  let ?K = "gd_cryptK (en_gate E)" and ?N = "gd_cryptN (en_gate E)"
  have env: "length (en_stack E 9) = 9" "length (en_rand E) = 7" using assms(1) by (simp_all add: wf_env_def)
  have key: "make_server_key ?K ?N 64 buf 7 (en_rand E) (en_seed_junk E) = Inr (Some (en_rand E, session_key E g b))"
    using make_server_key_agrees [OF assms(4,5) refl assms(6), of 7 "en_rand E" ?K "en_seed_junk E"] env(2)
    by (simp add: session_key_def Let_def kKeySize_def)
  have len: "length (session_key E g b) = 7" using make_server_key_length [OF key env(2)] .
  have "calc_field_sz (en_build E) common_encrypt_s2c 2 (At ([1, 9] @ en_rand E) (field_off common_encrypt_s2c 2)) = Inr (True, 7, 7)"
    by (simp add: calc_field_sz_fixed shape_defs)
  moreover have "field_off common_encrypt_s2c 2 = 2" by (simp add: shape_defs)
  ultimately obtain b1 where w: "cli_write E common_encrypt_s2c ([1, 9] @ en_rand E) cl = Inr (cl\<lparr>cl_base := b1\<rparr>)"
      "b1 = after_write ([1, 9] @ en_rand E) ((cl_base cl)\<lparr>cb_encrypt := EvpNull\<rparr>)" "wf_writes b1"
      "outgoing b1 = outgoing (cl_base cl) @ [1, 9] @ en_rand E"
    using cli_write_stream [OF assms(3) written_messages(1), of E "[1, 9] @ en_rand E" 7 7] env(2) assms(2) by auto
  let ?b = "set_crypt_key 7 (session_key E g b) b1"
  have "handle_ydata E (get_keys E) handle_encryption 64 buf cl =
      Inr (True, cli_read common_msg_std_header (set_flag e_wantMsgHeader (set_flag e_encrypted (cl\<lparr>cl_base := ?b\<rparr>))))"
    using key w(1) encrypt_reply_bytes [OF env]
    by (simp add: handle_ydata_def get_keys_def sizeof_encrypt_s2c_def sizeof_srvSeed_def enum_defs handle_encryption_def
        del: append_Cons)
  moreover have "cb_read ?b = cb_read (cl_base cl)" "so_in (cb_sock ?b) = so_in (cb_sock (cl_base cl))"
    by (simp_all add: set_crypt_key_def w(2))
  moreover have "cb_encrypt ?b = EvpRc4 (session_key E g b) 0" "cb_decrypt ?b = EvpRc4 (session_key E g b) 0" "wf_writes ?b"
      "outgoing ?b = outgoing (cl_base cl) @ [1, 9] @ en_rand E"
    using len w by (simp_all add: set_crypt_key_def wf_writes_def outgoing_def queued_def)
  ultimately show ?thesis by blast
qed

lemma ydata_answered:
  assumes "wf_env E" "cl_handler cl = Gatekeeper_Handler 64" "\<not> enc cl" "seed cl" "fresh_read (encryptMsg 64) cl"
    and "cb_decrypt (cl_base cl) = EvpNull" "cb_encrypt (cl_base cl) = EvpNull" "wf_writes (cl_base cl)"
    and "so_in (cb_sock (cl_base cl)) = Rchunk bs # evs" "64 \<le> length bs"
    and "0 < gd_cryptN (en_gate E)" "gd_cryptN (en_gate E) < 256 ^ kKeySize"
    and "take 64 bs = le_bytes kKeySize (bn_mod_exp g b (gd_cryptN (en_gate E)))"
  shows "\<exists>cl'. pump_read B ks (handler_read E) cl = pump_read B ks (handler_read E) cl' \<and>
    fresh_read common_msg_std_header cl' \<and> cl_handler cl' = Gatekeeper_Handler 64 \<and> enc cl' \<and> hdr cl' \<and> \<not> seed cl' \<and>
    cb_encrypt (cl_base cl') = EvpRc4 (session_key E g b) 0 \<and> cb_decrypt (cl_base cl') = EvpRc4 (session_key E g b) 0 \<and>
    so_in (cb_sock (cl_base cl')) = left_over 64 bs evs \<and> wf_writes (cl_base cl') \<and>
    outgoing (cl_base cl') = outgoing (cl_base cl) @ [1, 9] @ en_rand E"
proof -
  let ?buf = "patch 0 (take 64 bs) (replicate 96 0)"
  define b0 where "b0 = delivered 96 (left_over 64 bs evs) EvpNull (cl_base cl)"
  define cl1 where "cl1 = clear_flag e_wantClientSeed (cl\<lparr>cl_base := b0\<rparr>)"
  have rd: "handle_read B ks (cl_base cl) = Some (Inr (Some ?buf, b0))"
    unfolding b0_def
    by (rule fixed_message_read [OF encryptMsg_fixed(1,2) _ _ assms(5,9,10,6)]) (simp_all add: alloc_size_def)
  have buf: "?buf = le_bytes kKeySize (bn_mod_exp g b (gd_cryptN (en_gate E))) @ drop 64 (replicate 96 0)"
    using assms(10,13) by (simp add: patch_def kKeySize_def)
  have wf: "wf_writes (cl_base cl1)" "cb_encrypt (cl_base cl1) = EvpNull" "outgoing (cl_base cl1) = outgoing (cl_base cl)"
    using assms(7,8) by (simp_all add: cl1_def b0_def delivered_def wf_writes_def outgoing_def queued_def)
  obtain b' where st: "handle_ydata E (get_keys E) handle_encryption 64 ?buf cl1 =
      Inr (True, cli_read common_msg_std_header (set_flag e_wantMsgHeader (set_flag e_encrypted (cl1\<lparr>cl_base := b'\<rparr>))))"
    and b': "cb_encrypt b' = EvpRc4 (session_key E g b) 0" "cb_decrypt b' = EvpRc4 (session_key E g b) 0"
      "cb_read b' = cb_read (cl_base cl1)" "so_in (cb_sock b') = so_in (cb_sock (cl_base cl1))" "wf_writes b'"
      "outgoing b' = outgoing (cl_base cl) @ [1, 9] @ en_rand E"
    using ydata_step [OF assms(1) wf(2,1) assms(11,12) buf] wf(3) by auto
  have h: "handler_read E ?buf (cl\<lparr>cl_base := b0\<rparr>) = handle_ydata E (get_keys E) handle_encryption 64 ?buf cl1"
    using assms(2-4) by (simp add: handler_read_def gatekeeper_read_def encrypted_read_def phase_flags cl1_def)
  let ?cl = "cli_read common_msg_std_header (set_flag e_wantMsgHeader (set_flag e_encrypted (cl1\<lparr>cl_base := b'\<rparr>)))"
  have "pump_read B ks (handler_read E) cl = pump_read B ks (handler_read E) ?cl"
    by (rule pump_read_message [OF rd, where ns = common_msg_std_header])
      (simp_all add: h st cli_read_def read_struct_def)
  moreover have "fresh_read common_msg_std_header ?cl" "cl_handler ?cl = Gatekeeper_Handler 64"
    "so_in (cb_sock (cl_base ?cl)) = left_over 64 bs evs" "wf_writes (cl_base ?cl)"
    "outgoing (cl_base ?cl) = outgoing (cl_base cl) @ [1, 9] @ en_rand E"
    "cb_encrypt (cl_base ?cl) = EvpRc4 (session_key E g b) 0" "cb_decrypt (cl_base ?cl) = EvpRc4 (session_key E g b) 0"
    using b' assms(2)
    by (simp_all add: fresh_read_def Let_def cli_read_def read_struct_def cl1_def b0_def delivered_def
        wf_writes_def outgoing_def queued_def)
  moreover have "enc ?cl" "hdr ?cl" "\<not> seed ?cl"
    using assms(3,4) by (simp_all add: phase_flags cl1_def)
  ultimately show ?thesis by blast
qed

section \<open>Requests and replies\<close>

datatype request = ReqPing u32 u32 "byte list" | ReqFile u32 byte | ReqAuth u32

fun request_wire :: "request \<Rightarrow> byte list" where
  "request_wire (ReqPing time transId payload) =
     le_bytes 2 0 @ le_bytes 4 (unat time) @ le_bytes 4 (unat transId) @ le_bytes 4 (length payload) @ payload"
| "request_wire (ReqFile transId isPatcher) = le_bytes 2 1 @ le_bytes 4 (unat transId) @ [isPatcher]"
| "request_wire (ReqAuth transId) = le_bytes 2 2 @ le_bytes 4 (unat transId)"

fun reply_wire :: "env \<Rightarrow> request \<Rightarrow> byte list" where
  "reply_wire E (ReqPing time transId payload) = request_wire (ReqPing time transId payload)"
| "reply_wire E (ReqFile transId isPatcher) =
     srv_reply_wire (en_build E) e_fileSrvReply transId (gd_filesrv (en_gate E))"
| "reply_wire E (ReqAuth transId) =
     srv_reply_wire (en_build E) e_fileSrvReply transId (gd_authsrv (en_gate E))"

text \<open>A ping the receive buffer has room for.\<close>

fun request_fits :: "request \<Rightarrow> bool" where
  "request_fits (ReqPing time transId payload) \<longleftrightarrow> length payload \<le> 26"
| "request_fits _ \<longleftrightarrow> True"

definition ready :: "client \<Rightarrow> bool" where
  "ready cl \<longleftrightarrow> (\<exists>n. cl_handler cl = Gatekeeper_Handler n) \<and> enc cl \<and> hdr cl \<and>
     read_at common_msg_std_header 1 0 (cb_read (cl_base cl)) \<and> wf_writes (cl_base cl)"

definition request_struct :: "request \<Rightarrow> net_struct" where
  "request_struct r = (case r of ReqPing _ _ _ \<Rightarrow> gatekeeper_pingRequest
     | ReqFile _ _ \<Rightarrow> gatekeeper_fileSrvRequest | ReqAuth _ \<Rightarrow> gatekeeper_authSrvRequest)"

definition request_type :: "request \<Rightarrow> u16" where
  "request_type r = (case r of ReqPing _ _ _ \<Rightarrow> e_pingRequest | ReqFile _ _ \<Rightarrow> e_fileSrvRequest | ReqAuth _ \<Rightarrow> e_authSrvRequest)"

lemma request_wire_type: "take 2 (request_wire r) = le_bytes 2 (unat (request_type r))"
  by (cases r) (simp_all add: request_type_def enum_defs)

lemma request_wire_length: "6 \<le> length (request_wire r)"
  by (cases r) simp_all

lemma get_uint16_front: "get_uint16 B 0 (le_bytes 2 (unat v) @ rest) = v"
  using wire16.load_store [of B B v] by (simp add: get_uint16_def store16_le)

text \<open>The type of a message has arrived.\<close>

lemma header_step:
  assumes "ready cl" "so_in (cb_sock (cl_base cl)) = Rchunk bs # evs" "2 < length bs"
    and "p = evp_update ks (cb_decrypt (cl_base cl)) (take 2 bs)" "fst p = le_bytes 2 (unat (request_type r))"
    and "g = grow 32 (rd_buf (cb_read (cl_base cl)))"
    and "cl1 = on_base (read_resume (request_struct r) 1 (Some (patch 0 (fst p) g)))
      (clear_flag e_wantMsgHeader (cl\<lparr>cl_base := delivered 32 (Rchunk (drop 2 bs) # evs) (snd p) (cl_base cl)\<rparr>))"
  shows "pump_read (en_build E) ks (handler_read E) cl = pump_read (en_build E) ks (handler_read E) cl1" "length g = 32"
proof -
  let ?buf = "patch 0 (fst p) g"
  have at: "read_at common_msg_std_header 1 0 (cb_read (cl_base cl))" using assms(1) by (simp add: ready_def)
  have f: "fixed_upto common_msg_std_header (ns_size common_msg_std_header)" "ns_size common_msg_std_header = 1"
    using fixed_struct_upto [OF fixed_messages(3)] message_sizes(3) by (simp_all add: message_defs NET_FIELD_defs)
  have off: "field_off common_msg_std_header 1 = 2" using message_sizes(3) f(2) by simp
  have A: "alloc_size (field_off common_msg_std_header 1) False = 32" unfolding off by (simp add: alloc_size_def)
  show g: "length g = 32" using at A by (simp add: assms(6) read_at_def)
  have rd: "handle_read (en_build E) ks (cl_base cl) = Some (Inr (Some ?buf, delivered 32 (Rchunk (drop 2 bs) # evs) (snd p) (cl_base cl)))"
    using handle_read_fixed [where k = 0 and B = "en_build E" and ks = ks, OF f(1) refl refl _ _ assms(2) refl _ refl] at assms(3) f(2) off A
    by (simp add: assms(4,6) left_over_def)
  have l: "length (fst p) = 2" using assms(5) by simp
  have m: "mem_read ?buf 0 2 = Inr (take 2 ?buf)" using g l by (simp add: mem_read_in)
  have ty: "get_uint16 (en_build E) 0 ?buf = request_type r"
    using l by (simp add: patch_def assms(5) get_uint16_front)
  obtain k where k: "cl_handler cl = Gatekeeper_Handler k" using assms(1) by (auto simp: ready_def)
  have "handler_read E ?buf (cl\<lparr>cl_base := delivered 32 (Rchunk (drop 2 bs) # evs) (snd p) (cl_base cl)\<rparr>) = Inr (True, cl1)"
    using k assms(1) ty
    by (cases r) (simp_all add: handler_read_def gatekeeper_read_def ready_def phase_flags read_msg_def m Let_def
        assms(7) request_type_def request_struct_def enum_defs)
  then show "pump_read (en_build E) ks (handler_read E) cl = pump_read (en_build E) ks (handler_read E) cl1"
    by (rule pump_read_message [OF rd, where ns = "request_struct r"]) (simp add: assms(7) read_resume_def Let_def)
qed


text \<open>The rest of the message has arrived: what both parts together put into the buffer.\<close>

lemma two_parts:
  assumes "p = evp_update ks d (take 2 bs)" "q = evp_update ks (snd p) (take R (drop 2 bs))"
    and "2 + R \<le> length bs" "length g = 32" "2 + R \<le> A" "32 \<le> A"
  shows "patch 2 (fst q) (grow A (Some (patch 0 (fst p) g))) =
      fst (evp_update ks d (take (2 + R) bs)) @ drop (2 + R) (grow A (Some g))"
    "snd q = snd (evp_update ks d (take (2 + R) bs))"
    "length (patch 2 (fst q) (grow A (Some (patch 0 (fst p) g)))) = A"
proof -
  have split: "take (2 + R) bs = take 2 bs @ take R (drop 2 bs)" by (rule take_add)
  have pt: "fst (evp_update ks d (take (2 + R) bs)) = fst p @ fst q" "snd (evp_update ks d (take (2 + R) bs)) = snd q"
    by (simp_all only: split assms(1,2) evp.out_append evp.state_append)
  have l: "length (fst p) = 2" "length (fst q) = R" using assms(1,2,3) by simp_all
  show "patch 2 (fst q) (grow A (Some (patch 0 (fst p) g))) =
      fst (evp_update ks d (take (2 + R) bs)) @ drop (2 + R) (grow A (Some g))"
    using l assms(4-6) unfolding pt(1) by (simp add: grow_def patch_def)
  show "snd q = snd (evp_update ks d (take (2 + R) bs))" by (simp only: pt(2))
  show "length (patch 2 (fst q) (grow A (Some (patch 0 (fst p) g)))) = A"
    using l assms(4-6) by (simp add: grow_def patch_def)
qed

lemma get_uint32_middle: "length xs = off \<Longrightarrow> get_uint32 B off (xs @ le_bytes 4 (unat v) @ rest) = v"
  using wire32.load_store [of B B v] by (simp add: get_uint32_def store32_le)

text \<open>The handler's answer, given that the message stands at the front of the buffer.\<close>

lemma answer_step:
  assumes "wf_env E" "wf_writes (cl_base cl)" "request_fits r" "length buf \<le> 40" "length (request_wire r) \<le> length buf"
    and "take (length (request_wire r)) buf = request_wire r"
    and "pt = evp_update (en_ks E) (cb_encrypt (cl_base cl)) (reply_wire E r)"
  shows "\<exists>b. dispatch_msg E buf cl = Inr (True, cl\<lparr>cl_base := b\<rparr>) \<and>
    b = after_write (fst pt) ((cl_base cl)\<lparr>cb_encrypt := snd pt\<rparr>) \<and> wf_writes b \<and>
    outgoing b = outgoing (cl_base cl) @ fst pt \<and> cb_encrypt b = snd pt"
proof -
  obtain tl where buf: "buf = request_wire r @ tl" using assms(6) by (metis append_take_drop_id)
  have "6 \<le> length buf" using request_wire_length [of r] assms(5) by simp
  then have m: "mem_read buf 0 2 = Inr (take 2 buf)" "mem_read buf 2 4 = Inr (take 4 (drop 2 buf))"
    by (simp_all add: mem_read_in)
  have "request_wire r = le_bytes 2 (unat (request_type r)) @ drop 2 (request_wire r)"
    using request_wire_type [of r] by (metis append_take_drop_id)
  then have ty: "get_uint16 (en_build E) 0 buf = request_type r"
    unfolding buf by (metis get_uint16_front append.assoc)
  show ?thesis
  proof (cases r)
    case (ReqPing time transId payload)
    let ?n = "length payload"
    have o4: "field_off gatekeeper_pingReply 4 = 14" by (rule message_sizes)
    have "take 4 (drop 10 buf) = le_bytes 4 ?n" by (simp add: buf ReqPing)
    then have "announced gatekeeper_pingReply 4 buf = ?n"
      using assms(3) ReqPing by (simp add: announced_def o4 le_val_bytes)
        (simp add: message_defs NET_FIELD_defs tail_count_buffer)
    then have calc: "calc_field_sz (en_build E) gatekeeper_pingReply 4 (At buf (field_off gatekeeper_pingReply 4)) = Inr (True, 0, ?n)"
      using calc_announced [OF tails_sized(3), of buf] assms(5) ReqPing by (simp add: o4)
    have w: "take (14 + ?n) buf = reply_wire E r" using assms(6) by (simp add: ReqPing)
    have "dispatch_msg E buf cl = bindE (cli_write E gatekeeper_pingReply buf cl) (\<lambda>cl1. Inr (True, cl1))"
      by (simp add: dispatch_msg_def m ty ReqPing request_type_def Let_def handle_ping_def)
    then show ?thesis
      using cli_write_stream [OF assms(2) written_messages(2) calc, of pt] assms(4,5,7) w ReqPing
      by (auto simp: o4)
  next
    case (ReqFile transId isPatcher)
    have t: "get_uint32 (en_build E) 2 buf = transId"
      using get_uint32_middle [of "le_bytes 2 1" 2 "en_build E" transId "isPatcher # tl"] by (simp add: buf ReqFile)
    show ?thesis
      using srv_reply_sent [where addr = "gd_filesrv (en_gate E)" and transId = transId and type = e_fileSrvReply, OF assms(1,2) refl refl] assms(7)
      by (auto simp: dispatch_msg_def m ty t ReqFile request_type_def enum_defs Let_def handle_fileSrvReq_def)
  next
    case (ReqAuth transId)
    have t: "get_uint32 (en_build E) 2 buf = transId"
      using get_uint32_middle [of "le_bytes 2 2" 2 "en_build E" transId tl] by (simp add: buf ReqAuth)
    show ?thesis
      using srv_reply_sent [where addr = "gd_authsrv (en_gate E)" and transId = transId and type = e_fileSrvReply, OF assms(1,2) refl refl] assms(7)
      by (auto simp: dispatch_msg_def m ty t ReqAuth request_type_def enum_defs Let_def handle_authSrvReq_def)
  qed
qed

text \<open>
  The type of a request has arrived and the rest of its wire image is next; and what the body
  makes of it: a buffer with the request at its front.
\<close>

definition body_pending :: "keystream \<Rightarrow> evp \<Rightarrow> request \<Rightarrow> byte list \<Rightarrow> recv_ev list \<Rightarrow> client_base \<Rightarrow> bool" where
  "body_pending ks d r rest evs c \<longleftrightarrow> (\<exists>bs p g. bs = fst (evp_update ks d (request_wire r)) @ rest \<and> p = evp_update ks d (take 2 bs) \<and>
     length g = 32 \<and> rd_struct (cb_read c) = Some (request_struct r) \<and> rd_field (cb_read c) = 1 \<and> rd_offset (cb_read c) = 0 \<and>
     rd_buf (cb_read c) = Some (patch 0 (fst p) g) \<and> rd_bufsz (cb_read c) = 32 \<and>
     so_in (cb_sock c) = Rchunk (drop 2 bs) # evs \<and> cb_decrypt c = snd p)"

definition body_delivered :: "build \<Rightarrow> keystream \<Rightarrow> evp \<Rightarrow> request \<Rightarrow> byte list \<Rightarrow> recv_ev list \<Rightarrow> client_base \<Rightarrow> bool" where
  "body_delivered B ks d r rest evs c \<longleftrightarrow> (\<exists>buf. length buf \<le> 40 \<and> length (request_wire r) \<le> length buf \<and>
     take (length (request_wire r)) buf = request_wire r \<and>
     handle_read B ks c = Some (Inr (Some buf,
       delivered (length buf) (if rest = [] then evs else Rchunk rest # evs) (snd (evp_update ks d (request_wire r))) c)))"

lemma body_deliveredI:
  assumes "bs = fst (evp_update ks d (request_wire r)) @ rest" "p = evp_update ks d (take 2 bs)" "length g = 32"
    and "R = length (request_wire r) - 2" "q = evp_update ks (snd p) (take R (drop 2 bs))"
    and "length (request_wire r) \<le> A" "A \<le> 40" "32 \<le> A"
    and "handle_read B ks c = Some (Inr (Some (patch 2 (fst q) (grow A (Some (patch 0 (fst p) g)))),
      delivered A (left_over R (drop 2 bs) evs) (snd q) c))"
  shows "body_delivered B ks d r rest evs c"
proof -
  let ?N = "length (request_wire r)"
  have N: "2 + R = ?N" "2 < ?N" using request_wire_length [of r] assms(4) by simp_all
  have cut: "take ?N bs = fst (evp_update ks d (request_wire r))" "?N \<le> length bs" "drop ?N bs = rest"
    using assms(1) by simp_all
  have plain: "fst (evp_update ks d (take ?N bs)) = request_wire r"
    "snd (evp_update ks d (take ?N bs)) = snd (evp_update ks d (request_wire r))"
    by (simp_all add: cut(1) evp.undo evp.keep_step)
  have lo: "left_over R (drop 2 bs) evs = (if rest = [] then evs else Rchunk rest # evs)"
    using N cut by (auto simp: left_over_def simp flip: cut(3))
  note t = two_parts [OF assms(2,5) _ assms(3) _ assms(8), unfolded N(1)]
  show ?thesis unfolding body_delivered_def
    by (rule exI [of _ "patch 2 (fst q) (grow A (Some (patch 0 (fst p) g)))"])
      (use t cut(2) plain assms(6,7,9) lo in simp)
qed

lemma body_read_fixed:
  assumes "body_pending ks d r rest evs c" "ns = request_struct r" "fixed_struct ns" "field_off ns (ns_size ns) = length (request_wire r)"
    and "1 < ns_size ns" "field_off ns 1 = 2" "length (request_wire r) < 8"
  shows "body_delivered B ks d r rest evs c"
proof -
  let ?N = "length (request_wire r)"
  obtain bs p g where c: "bs = fst (evp_update ks d (request_wire r)) @ rest" "p = evp_update ks d (take 2 bs)" "length g = 32"
      "rd_struct (cb_read c) = Some ns" "rd_field (cb_read c) = 1" "rd_offset (cb_read c) = 0" "rd_buf (cb_read c) = Some (patch 0 (fst p) g)"
      "rd_bufsz (cb_read c) = 32" "so_in (cb_sock c) = Rchunk (drop 2 bs) # evs" "cb_decrypt c = snd p"
    using assms(1,2) unfolding body_pending_def by blast
  have N: "2 < ?N" "?N \<le> length bs" using request_wire_length [of r] c(1) by simp_all
  have u: "fixed_upto ns (ns_size ns)" using fixed_struct_upto [OF assms(3)] assms(4,7) by simp
  have A: "alloc_size (field_off ns (ns_size ns)) False = 32" using assms(4,7) by (simp add: alloc_size_def)
  have "length (patch 0 (fst p) g) = 32" using c(2,3) N by simp
  then have at: "read_at ns (ns_size ns) 1 (cb_read c)"
    using c assms(5) by (simp add: read_at_def buf_fits_def A)
  have "handle_read B ks c = Some (Inr (Some (patch (field_off ns 1) (fst (evp_update ks (snd p) (take (?N - 2) (drop 2 bs)))) (grow 32 (rd_buf (cb_read c)))),
      delivered 32 (left_over (?N - 2) (drop 2 bs) evs) (snd (evp_update ks (snd p) (take (?N - 2) (drop 2 bs)))) c))"
    by (rule handle_read_fixed [OF u refl A [symmetric] at assms(5) c(9)]) (use N assms(4,6) c(10) in simp_all)
  then show ?thesis by (intro body_deliveredI [OF c(1-3) refl refl, of 32]) (use assms(6,7) c(7) in simp_all)
qed

lemma body_read_ping:
  assumes "body_pending ks d r rest evs c" "r = ReqPing x y payload" "length payload \<le> 26"
  shows "body_delivered B ks d r rest evs c"
proof -
  let ?ns = gatekeeper_pingRequest and ?n = "length payload"
  have ns: "request_struct r = ?ns" by (simp add: assms(2) request_struct_def)
  obtain bs p g where c: "bs = fst (evp_update ks d (request_wire r)) @ rest" "p = evp_update ks d (take 2 bs)" "length g = 32"
      "rd_struct (cb_read c) = Some ?ns" "rd_field (cb_read c) = 1" "rd_offset (cb_read c) = 0" "rd_buf (cb_read c) = Some (patch 0 (fst p) g)"
      "rd_bufsz (cb_read c) = 32" "so_in (cb_sock c) = Rchunk (drop 2 bs) # evs" "cb_decrypt c = snd p"
    using assms(1) unfolding body_pending_def ns by blast
  have o: "field_off ?ns 4 = 14" "field_off ?ns 1 = 2" "field_off ?ns (Suc 0) = 2" by (simp_all add: shape_defs)
  have A: "alloc_size (field_off ?ns 4) False = 40" unfolding o by (simp add: alloc_size_def)
  have N: "length (request_wire r) = 14 + ?n" "14 + ?n \<le> length bs" using c(1) by (simp_all add: assms(2))
  have "length (patch 0 (fst p) g) = 32" using c(2,3) N by simp
  then have at: "read_at ?ns 4 1 (cb_read c)" using c unfolding read_at_def A by (simp add: buf_fits_def)
  have "fst (evp_update ks (snd p) (take 12 (drop 2 bs))) = drop 2 (fst (evp_update ks d (take 14 bs)))"
    by (simp add: evp.out_drop c(2) take_drop)
  also have "fst (evp_update ks d (take 14 bs)) = take 14 (request_wire r)"
    by (simp add: N evp.out_take c(1) evp.out_append evp.undo evp.upd_Nil)
  finally have h: "fst (evp_update ks (snd p) (take 12 (drop 2 bs))) = take 12 (drop 2 (request_wire r))" by (simp add: take_drop)
  have cnt: "?n = header_count ?ns 4 (fst (evp_update ks (cb_decrypt c) (take 12 (drop 2 bs))))"
    unfolding c(10) h using assms(3) by (simp add: assms(2) header_count_def le_val_bytes)
      (simp add: message_defs NET_FIELD_defs tail_count_buffer)
  define q where "q = evp_update ks (snd p) (take (12 + ?n) (drop 2 bs))"
  have "handle_read B ks c = Some (Inr (Some (patch (field_off ?ns 1) (fst q) (grow 40 (rd_buf (cb_read c)))),
      delivered 40 (left_over (12 + ?n) (drop 2 bs) evs) (snd q) c))"
    by (rule handle_read_tail [OF tails_fixed(2) tails_sized(2) A [symmetric] at _ c(9) _ _ cnt])
      (use N assms(3) c(10) in \<open>simp_all add: o q_def\<close>)
  then show ?thesis
    by (intro body_deliveredI [OF c(1-3) _ q_def, of 40]) (use o N assms(3) c(7) in simp_all)
qed

lemma body_read:
  assumes "request_fits r" "body_pending ks d r rest evs c"
  shows "body_delivered B ks d r rest evs c"
proof (cases r)
  case (ReqFile x y)
  then show ?thesis
    using message_sizes(5) fixed_messages(5)
    by (intro body_read_fixed [OF assms(2) refl]) (simp_all add: request_struct_def shape_defs)
next
  case (ReqAuth x)
  then show ?thesis
    using message_sizes(6) fixed_messages(6)
    by (intro body_read_fixed [OF assms(2) refl]) (simp_all add: request_struct_def shape_defs)
next
  case (ReqPing x y payload)
  then show ?thesis using assms(1) by (intro body_read_ping [OF assms(2) ReqPing]) simp
qed


text \<open>The header of a request leaves its body pending; nothing else of the connection changes.\<close>

lemma request_header:
  assumes "ready cl" "so_in (cb_sock (cl_base cl)) = Rchunk (fst (evp_update ks d (request_wire r)) @ rest) # evs" "d = cb_decrypt (cl_base cl)"
  shows "\<exists>b. pump_read (en_build E) ks (handler_read E) cl =
      pump_read (en_build E) ks (handler_read E) (clear_flag e_wantMsgHeader (cl\<lparr>cl_base := b\<rparr>)) \<and>
    body_pending ks d r rest evs b \<and> wf_writes b \<and> cb_encrypt b = cb_encrypt (cl_base cl) \<and> outgoing b = outgoing (cl_base cl)"
proof -
  define bs where "bs = fst (evp_update ks d (request_wire r)) @ rest"
  define p where "p = evp_update ks d (take 2 bs)"
  define g where "g = grow 32 (rd_buf (cb_read (cl_base cl)))"
  define b where "b = read_resume (request_struct r) 1 (Some (patch 0 (fst p) g))
    (delivered 32 (Rchunk (drop 2 bs) # evs) (snd p) (cl_base cl))"
  have len: "6 \<le> length (fst (evp_update ks d (request_wire r)))" using request_wire_length [of r] by simp
  have "take 2 bs = take 2 (fst (evp_update ks d (request_wire r)))" using len by (simp add: bs_def)
  then have "fst p = fst (evp_update ks d (take 2 (fst (evp_update ks d (request_wire r)))))" by (simp add: p_def)
  then have ty: "fst p = le_bytes 2 (unat (request_type r))"
    by (simp only: evp.out_take [symmetric] evp.undo request_wire_type)
  have l2: "2 < length bs" using len by (simp add: bs_def)
  note so = assms(2) [folded bs_def] and p = p_def [unfolded assms(3)]
  note hd = header_step(1) [OF assms(1) so l2 p ty g_def refl, of E] header_step(2) [OF assms(1) so l2 p ty g_def refl]
  have "on_base (read_resume (request_struct r) 1 (Some (patch 0 (fst p) g)))
      (clear_flag e_wantMsgHeader (cl\<lparr>cl_base := delivered 32 (Rchunk (drop 2 bs) # evs) (snd p) (cl_base cl)\<rparr>)) =
      clear_flag e_wantMsgHeader (cl\<lparr>cl_base := b\<rparr>)"
    by (cases cl) (simp add: b_def clear_flag_def)
  moreover have "body_pending ks d r rest evs b" unfolding body_pending_def
    by (rule exI [of _ bs], rule exI [of _ p], rule exI [of _ g])
      (use hd(2) in \<open>simp add: bs_def p_def b_def delivered_def read_resume_def Let_def\<close>)
  moreover have "wf_writes b" "cb_encrypt b = cb_encrypt (cl_base cl)" "outgoing b = outgoing (cl_base cl)"
    using assms(1) by (simp_all add: ready_def b_def delivered_def read_resume_def Let_def wf_writes_def outgoing_def queued_def)
  ultimately show ?thesis using hd(1) by metis
qed

lemma request_step:
  assumes "wf_env E" "ready cl" "request_fits r" "ks = en_ks E"
    and "so_in (cb_sock (cl_base cl)) = Rchunk (fst (evp_update ks (cb_decrypt (cl_base cl)) (request_wire r)) @ rest) # evs"
    and "pt = evp_update ks (cb_encrypt (cl_base cl)) (reply_wire E r)"
  shows "\<exists>cl'. pump_read (en_build E) ks (handler_read E) cl = pump_read (en_build E) ks (handler_read E) cl' \<and> ready cl' \<and>
    so_in (cb_sock (cl_base cl')) = (if rest = [] then evs else Rchunk rest # evs) \<and>
    outgoing (cl_base cl') = outgoing (cl_base cl) @ fst pt \<and> cb_encrypt (cl_base cl') = snd pt \<and>
    cb_decrypt (cl_base cl') = snd (evp_update ks (cb_decrypt (cl_base cl)) (request_wire r))"
proof -
  let ?evs = "if rest = [] then evs else Rchunk rest # evs" and ?dec = "snd (evp_update ks (cb_decrypt (cl_base cl)) (request_wire r))"
  obtain b0 where hd: "pump_read (en_build E) ks (handler_read E) cl =
        pump_read (en_build E) ks (handler_read E) (clear_flag e_wantMsgHeader (cl\<lparr>cl_base := b0\<rparr>))"
      "body_pending ks (cb_decrypt (cl_base cl)) r rest evs b0" "wf_writes b0" "cb_encrypt b0 = cb_encrypt (cl_base cl)"
      "outgoing b0 = outgoing (cl_base cl)"
    using request_header [OF assms(2,5) refl, of E] by blast
  define cl1 where "cl1 = clear_flag e_wantMsgHeader (cl\<lparr>cl_base := b0\<rparr>)"
  have b1: "cl_base cl1 = b0" by (simp add: cl1_def)
  obtain buf where buf: "length buf \<le> 40" "length (request_wire r) \<le> length buf" "take (length (request_wire r)) buf = request_wire r"
      and rd: "handle_read (en_build E) ks (cl_base cl1) = Some (Inr (Some buf, delivered (length buf) ?evs ?dec b0))"
    using body_read [OF assms(3) hd(2), of "en_build E"] by (auto simp: body_delivered_def b1)
  define cl2 where "cl2 = cli_read common_msg_std_header (set_flag e_wantMsgHeader (cl1\<lparr>cl_base := delivered (length buf) ?evs ?dec b0\<rparr>))"
  have same: "wf_writes (cl_base cl2)" "cb_encrypt (cl_base cl2) = cb_encrypt (cl_base cl)"
    "outgoing (cl_base cl2) = outgoing (cl_base cl)" "so_in (cb_sock (cl_base cl2)) = ?evs" "cb_decrypt (cl_base cl2) = ?dec"
    "fresh_read common_msg_std_header cl2"
    using hd(3-5) by (simp_all add: cl2_def delivered_def cli_read_def read_struct_def
        Let_def wf_writes_def outgoing_def queued_def fresh_read_def)
  have pt: "pt = evp_update (en_ks E) (cb_encrypt (cl_base cl2)) (reply_wire E r)" using assms(4,6) same(2) by simp
  obtain b where b: "dispatch_msg E buf cl2 = Inr (True, cl2\<lparr>cl_base := b\<rparr>)"
      "b = after_write (fst pt) ((cl_base cl2)\<lparr>cb_encrypt := snd pt\<rparr>)" "wf_writes b"
      "outgoing b = outgoing (cl_base cl2) @ fst pt" "cb_encrypt b = snd pt"
    using answer_step [OF assms(1) same(1) assms(3) buf pt] by blast
  let ?cl = "cl2\<lparr>cl_base := b\<rparr>"
  obtain k where k: "cl_handler cl = Gatekeeper_Handler k" using assms(2) by (auto simp: ready_def)
  have h: "handler_read E buf (cl1\<lparr>cl_base := delivered (length buf) ?evs ?dec b0\<rparr>) = Inr (True, ?cl)"
    using b(1) k assms(2) by (simp add: handler_read_def gatekeeper_read_def ready_def phase_flags cl1_def cl2_def)
  have st: "rd_struct (cb_read (cl_base ?cl)) = Some common_msg_std_header"
    using same(6) by (simp add: b(2) fresh_read_def Let_def)
  have "pump_read (en_build E) ks (handler_read E) cl = pump_read (en_build E) ks (handler_read E) ?cl"
    using pump_read_message [OF rd _ st] h hd(1) by (simp add: cl1_def)
  moreover have "ready ?cl"
    using assms(2) b(3) k fresh_read_at [OF same(6)] by (simp add: ready_def phase_flags cl2_def cl1_def b(2)) (simp add: cli_read_def)
  ultimately show ?thesis using same b(2,4,5) by (intro exI [of _ ?cl]) simp
qed

section \<open>A conversation\<close>

text \<open>Requests that arrive back to back are answered in their order.\<close>

lemma pump_read_ready_blocked:
  assumes "ready cl" "so_in (cb_sock (cl_base cl)) = []"
  shows "\<exists>cl'. pump_read B ks h cl = Some (Inr cl') \<and> ready cl' \<and> outgoing (cl_base cl') = outgoing (cl_base cl) \<and>
    cb_encrypt (cl_base cl') = cb_encrypt (cl_base cl) \<and> cb_decrypt (cl_base cl') = cb_decrypt (cl_base cl)"
proof -
  let ?ns = common_msg_std_header
  have sz: "ns_size ?ns = 1" by (simp add: message_defs NET_FIELD_defs)
  have off: "field_off ?ns (ns_size ?ns) = 2" by (rule message_sizes)
  have A: "alloc_size (field_off ?ns (ns_size ?ns)) False = 32" unfolding off by (simp add: alloc_size_def)
  have at: "read_at ?ns (ns_size ?ns) 0 (cb_read (cl_base cl))" using assms(1) sz by (simp add: ready_def)
  have "pump_read B ks h cl = Some (Inr (on_base (blocked 32) cl))"
    by (rule pump_read_blocked [OF fixed_messages(3) _ A [symmetric] at assms(2)]) (simp add: off)
  moreover have "buf_fits 32 (cb_read (cl_base cl))" using at A by (simp add: read_at_def)
  then have "read_at ?ns 1 0 (cb_read (cl_base (on_base (blocked 32) cl)))"
    using at sz A by (simp add: read_at_def blocked_def buf_fits_def [of _ "_\<lparr>rd_bufsz := _\<rparr>"] buf_fits_def)
  then have "ready (on_base (blocked 32) cl)"
    using assms(1) by (simp add: ready_def phase_flags blocked_def wf_writes_def)
  ultimately show ?thesis by (auto simp: blocked_def outgoing_def queued_def)
qed

lemma conversation:
  assumes "wf_env E" "list_all request_fits rs" "ks = en_ks E"
  shows "ready cl \<Longrightarrow> wire = concat (map request_wire rs) \<Longrightarrow> replies = concat (map (reply_wire E) rs) \<Longrightarrow>
    so_in (cb_sock (cl_base cl)) =
      (if rs = [] then [] else [Rchunk (fst (evp_update ks (cb_decrypt (cl_base cl)) wire))]) \<Longrightarrow>
    \<exists>cl'. pump_read (en_build E) ks (handler_read E) cl = Some (Inr cl') \<and> ready cl' \<and>
      outgoing (cl_base cl') = outgoing (cl_base cl) @ fst (evp_update ks (cb_encrypt (cl_base cl)) replies) \<and>
      cb_encrypt (cl_base cl') = snd (evp_update ks (cb_encrypt (cl_base cl)) replies) \<and>
      cb_decrypt (cl_base cl') = snd (evp_update ks (cb_decrypt (cl_base cl)) wire)"
  using assms(2)
proof (induction rs arbitrary: cl wire replies)
  case Nil
  then show ?case using pump_read_ready_blocked [of cl "en_build E" ks "handler_read E"] by (simp add: evp.upd_Nil)
next
  case (Cons r rs)
  let ?d = "cb_decrypt (cl_base cl)" and ?e = "cb_encrypt (cl_base cl)"
  let ?w = "concat (map request_wire rs)" and ?p = "concat (map (reply_wire E) rs)"
  define d1 where "d1 = snd (evp_update ks ?d (request_wire r))"
  define rest where "rest = fst (evp_update ks d1 ?w)"
  have so: "so_in (cb_sock (cl_base cl)) = [Rchunk (fst (evp_update ks ?d (request_wire r)) @ rest)]"
    using Cons.prems(2,4) by (simp add: rest_def d1_def evp.out_append)
  have fit: "request_fits r" "list_all request_fits rs" using Cons.prems(5) by simp_all
  obtain cl1 where s: "pump_read (en_build E) ks (handler_read E) cl = pump_read (en_build E) ks (handler_read E) cl1"
      "ready cl1" "so_in (cb_sock (cl_base cl1)) = (if rest = [] then [] else [Rchunk rest])"
      "outgoing (cl_base cl1) = outgoing (cl_base cl) @ fst (evp_update ks ?e (reply_wire E r))"
      "cb_encrypt (cl_base cl1) = snd (evp_update ks ?e (reply_wire E r))" "cb_decrypt (cl_base cl1) = d1"
    using request_step [OF assms(1) Cons.prems(1) fit(1) assms(3) so refl] by (auto simp: d1_def)
  have "rest = [] \<longleftrightarrow> rs = []"
  proof -
    have "length rest = length ?w" by (simp add: rest_def)
    moreover have "?w = [] \<longleftrightarrow> rs = []" using request_wire_length [of "hd rs"] by (cases rs) auto
    ultimately show ?thesis by (metis length_0_conv)
  qed
  then have "so_in (cb_sock (cl_base cl1)) = (if rs = [] then [] else [Rchunk (fst (evp_update ks (cb_decrypt (cl_base cl1)) ?w))])"
    using s(3,6) by (simp add: rest_def)
  from Cons.IH [OF s(2) refl refl this fit(2)] show ?case
    using s Cons.prems(2,3) by (auto simp: d1_def evp.out_append evp.state_append)
qed

section \<open>A whole opening\<close>

lemma client_new_fresh:
  "fresh_read common_connection_header (client_new s polled)" "cl_handler (client_new s polled) = Incoming_Handler"
  "\<not> enc (client_new s polled)" "\<not> seed (client_new s polled)" "\<not> hdr (client_new s polled)"
  "cb_decrypt (cl_base (client_new s polled)) = EvpNull" "cb_encrypt (cl_base (client_new s polled)) = EvpNull"
  "cb_writes (cl_base (client_new s polled)) = []" "cb_sock (cl_base (client_new s polled)) = s"
  by (simp_all add: client_new_def fresh_read_def Let_def cli_read_def read_struct_def client_base_new_def io_read_init_def
      sock_move_def phase_flags has_flag_def flag_defs)

lemma opening_succeeds:
  assumes "wf_env E" "so_in s = [Rchunk (header @ [e_c2s_connect, 66] @ y)]"
    and "length header = 35 + n" "n \<le> 29" "header ! 0 = e_protocolCli2Gate" "le_val (take 4 (drop 31 header)) = n + 4"
    and "0 < gd_cryptN (en_gate E)" "gd_cryptN (en_gate E) < 256 ^ kKeySize"
    and "y = le_bytes kKeySize (bn_mod_exp g b (gd_cryptN (en_gate E)))"
  shows "\<exists>cl'. pump_read (en_build E) (en_ks E) (handler_read E) (client_new s polled) = Some (Inr cl') \<and> ready cl' \<and>
    outgoing (cl_base cl') = so_sent s @ [1, 9] @ en_rand E \<and>
    cb_encrypt (cl_base cl') = EvpRc4 (session_key E g b) 0 \<and> cb_decrypt (cl_base cl') = EvpRc4 (session_key E g b) 0"
proof -
  let ?pump = "pump_read (en_build E) (en_ks E) (handler_read E)"
  let ?cl = "client_new s polled" and ?bs = "header @ [e_c2s_connect, 66] @ y"
  note nf = client_new_fresh [of s polled]
  have ly: "length y = 64" by (simp add: assms(9) kKeySize_def)
  define cl1 where "cl1 = create_gate (?cl\<lparr>cl_base := delivered 64 (left_over (35 + n) ?bs []) EvpNull (cl_base ?cl)\<rparr>)"
  have "?pump ?cl = ?pump cl1"
    using connection_accepted [OF nf(2,1,6) _ _ assms(4) _ refl, of ?bs "[]" "en_build E" "en_ks E" E]
      assms(2,3,5,6) nf(9) by (simp add: cl1_def nth_append)
  moreover have c1: "cl_handler cl1 = Gatekeeper_Handler 0" "\<not> enc cl1" "\<not> seed cl1" "fresh_read common_encrypt_header cl1"
      "cb_decrypt (cl_base cl1) = EvpNull" "cb_encrypt (cl_base cl1) = EvpNull" "cb_writes (cl_base cl1) = []"
      "so_in (cb_sock (cl_base cl1)) = [Rchunk ([e_c2s_connect, 66] @ y)]" "so_sent (cb_sock (cl_base cl1)) = so_sent s"
    using nf assms(3) by (simp_all add: cl1_def create_gate_def phase_flags delivered_def left_over_def fresh_read_def Let_def
        cli_read_def read_struct_def)
  define cl2 where "cl2 = set_flag e_wantClientSeed (cli_read (encryptMsg 64)
      ((cl1\<lparr>cl_base := delivered 32 (left_over 2 ([e_c2s_connect, 66] @ y) []) EvpNull (cl_base cl1)\<rparr>)\<lparr>cl_handler := Gatekeeper_Handler 64\<rparr>))"
  have "?pump cl1 = ?pump cl2"
    using handshake_answered [OF c1(1-5) c1(8) _ refl, of "en_build E" "en_ks E" E] by (simp add: cl2_def)
  moreover have c2: "cl_handler cl2 = Gatekeeper_Handler 64" "\<not> enc cl2" "seed cl2" "fresh_read (encryptMsg 64) cl2"
      "cb_decrypt (cl_base cl2) = EvpNull" "cb_encrypt (cl_base cl2) = EvpNull" "wf_writes (cl_base cl2)"
      "so_in (cb_sock (cl_base cl2)) = [Rchunk y]" "outgoing (cl_base cl2) = so_sent s"
    using c1 ly by (auto simp: cl2_def phase_flags delivered_def left_over_def fresh_read_def Let_def
        cli_read_def read_struct_def wf_writes_def outgoing_def queued_def)
  from ydata_answered [OF assms(1) c2(1-8) _ assms(7,8), of g b "en_build E" "en_ks E"] ly assms(9)
  obtain cl3 where c3: "?pump cl2 = ?pump cl3" "fresh_read common_msg_std_header cl3"
      "cl_handler cl3 = Gatekeeper_Handler 64" "enc cl3" "hdr cl3"
      "cb_encrypt (cl_base cl3) = EvpRc4 (session_key E g b) 0" "cb_decrypt (cl_base cl3) = EvpRc4 (session_key E g b) 0"
      "so_in (cb_sock (cl_base cl3)) = []" "wf_writes (cl_base cl3)" "outgoing (cl_base cl3) = so_sent s @ [1, 9] @ en_rand E"
    using c2(9) by (auto simp: left_over_def)
  have "ready cl3" using c3 fresh_read_at [OF c3(2)] by (simp add: ready_def)
  from pump_read_ready_blocked [OF this c3(8), of "en_build E" "en_ks E" "handler_read E"]
  show ?thesis using calculation c3 by auto
qed

text \<open>The opening and one burst of requests.\<close>

lemma session_answered:
  assumes "wf_env E" "so_in s = [Rchunk (header @ [e_c2s_connect, 66] @ y)]"
    and "length header = 35 + n" "n \<le> 29" "header ! 0 = e_protocolCli2Gate" "le_val (take 4 (drop 31 header)) = n + 4"
    and "0 < gd_cryptN (en_gate E)" "gd_cryptN (en_gate E) < 256 ^ kKeySize"
    and "y = le_bytes kKeySize (bn_mod_exp g b (gd_cryptN (en_gate E)))"
    and "rs \<noteq> []" "list_all request_fits rs" "key = session_key E g b"
    and "wire = fst (evp_update (en_ks E) (EvpRc4 key 0) (concat (map request_wire rs)))"
  shows "\<exists>cl1 cl2 cipher.
    pump_read (en_build E) (en_ks E) (handler_read E) (client_new s polled) = Some (Inr cl1) \<and>
    pump_read (en_build E) (en_ks E) (handler_read E)
      (on_base (\<lambda>c. c\<lparr>cb_sock := (cb_sock c)\<lparr>so_in := [Rchunk wire]\<rparr>\<rparr>) cl1) = Some (Inr cl2) \<and>
    outgoing (cl_base cl2) = so_sent s @ [1, 9] @ en_rand E @ cipher \<and>
    fst (evp_update (en_ks E) (EvpRc4 key 0) cipher) = concat (map (reply_wire E) rs)"
proof -
  obtain cl1 where c1: "pump_read (en_build E) (en_ks E) (handler_read E) (client_new s polled) = Some (Inr cl1)"
      "ready cl1" "outgoing (cl_base cl1) = so_sent s @ [1, 9] @ en_rand E"
      "cb_encrypt (cl_base cl1) = EvpRc4 key 0" "cb_decrypt (cl_base cl1) = EvpRc4 key 0"
    using opening_succeeds [OF assms(1-9)] assms(12) by blast
  let ?cl = "on_base (\<lambda>c. c\<lparr>cb_sock := (cb_sock c)\<lparr>so_in := [Rchunk wire]\<rparr>\<rparr>) cl1"
  have "ready ?cl" using c1(2) by (simp add: ready_def phase_flags wf_writes_def)
  from conversation [OF assms(1,11) refl this refl refl] assms(10,13) c1
  obtain cl2 where "pump_read (en_build E) (en_ks E) (handler_read E) ?cl = Some (Inr cl2)"
      "outgoing (cl_base cl2) = outgoing (cl_base cl1) @ fst (evp_update (en_ks E) (EvpRc4 key 0) (concat (map (reply_wire E) rs)))"
    by (auto simp: outgoing_def queued_def simp del: evp_update.simps)
  then show ?thesis using c1(1,3) by (auto simp: evp.undo simp del: evp_update.simps)
qed

section \<open>Bad endings\<close>

text \<open>A ping whose payload exceeds the slack of the receive buffer overruns it.\<close>

lemma big_ping_overflows:
  assumes "ready cl" "26 < length payload" "length payload \<le> 1024"
    and "so_in (cb_sock (cl_base cl)) =
      Rchunk (fst (evp_update ks (cb_decrypt (cl_base cl)) (request_wire (ReqPing time transId payload))) @ rest) # evs"
  shows "pump_read (en_build E) ks (handler_read E) cl = Some (Inl OutOfBounds)"
proof -
  define r where "r = ReqPing time transId payload"
  define d where "d = cb_decrypt (cl_base cl)"
  define bs where "bs = fst (evp_update ks d (request_wire r)) @ rest"
  define p where "p = evp_update ks d (take 2 bs)"
  define g where "g = grow 32 (rd_buf (cb_read (cl_base cl)))"
  define b0 where "b0 = delivered 32 (Rchunk (drop 2 bs) # evs) (snd p) (cl_base cl)"
  define cl1 where "cl1 = on_base (read_resume (request_struct r) 1 (Some (patch 0 (fst p) g)))
      (clear_flag e_wantMsgHeader (cl\<lparr>cl_base := b0\<rparr>))"
  have wl: "length (request_wire r) = 14 + length payload" by (simp add: r_def)
  have len: "6 \<le> length (fst (evp_update ks d (request_wire r)))" using request_wire_length [of r] by simp
  have cut: "take (14 + length payload) bs = fst (evp_update ks d (request_wire r))" by (simp add: bs_def wl)
  have "take 2 bs = take 2 (fst (evp_update ks d (request_wire r)))" using len by (simp add: bs_def)
  then have "fst p = fst (evp_update ks d (take 2 (fst (evp_update ks d (request_wire r)))))" by (simp add: p_def)
  then have ty: "fst p = le_bytes 2 (unat (request_type r))"
    by (simp only: evp.out_take [symmetric] evp.undo request_wire_type)
  have so: "so_in (cb_sock (cl_base cl)) = Rchunk bs # evs" using assms(4) by (simp add: bs_def d_def r_def)
  note hd = header_step [OF assms(1) so _ p_def [unfolded d_def] ty g_def cl1_def [unfolded b0_def]]
  have l2: "14 + length payload \<le> length bs" by (simp add: bs_def wl)
  let ?c = "cl_base cl1" and ?ns = gatekeeper_pingRequest
  have A: "alloc_size (field_off ?ns 4) False = 40" "field_off ?ns 4 = 14" "field_off ?ns 1 = 2"
    by (simp_all add: shape_defs alloc_size_def)
  have at: "read_at ?ns 4 1 (cb_read ?c)"
    using hd(2) l2 ty unfolding read_at_def A(1)
    by (simp add: cl1_def b0_def delivered_def read_resume_def Let_def request_struct_def r_def buf_fits_def)
  have c: "so_in (cb_sock ?c) = Rchunk (drop 2 bs) # evs" "cb_decrypt ?c = snd p"
    by (simp_all add: cl1_def b0_def delivered_def read_resume_def Let_def)
  have h: "fst (evp_update ks (snd p) (take 12 (drop 2 bs))) = take 12 (drop 2 (request_wire r))"
  proof -
    have "fst (evp_update ks (snd p) (take 12 (drop 2 bs))) = drop 2 (fst (evp_update ks d (take 14 bs)))"
      by (simp add: evp.out_drop p_def take_drop)
    also have "take 14 bs = take 14 (take (14 + length payload) bs)" by simp
    also have "drop 2 (fst (evp_update ks d \<dots>)) = drop 2 (take 14 (fst (evp_update ks d (take (14 + length payload) bs))))"
      by (simp only: evp.out_take)
    finally show ?thesis by (simp add: cut evp.undo take_drop)
  qed
  have cnt: "length payload = header_count ?ns 4 (fst (evp_update ks (cb_decrypt ?c) (take 12 (drop 2 bs))))"
    unfolding c(2) h using assms(3) by (simp add: r_def header_count_def le_val_bytes)
      (simp add: message_defs NET_FIELD_defs tail_count_buffer)
  have "resume_read (en_build E) ks ?c = Some (Inl OutOfBounds)"
    by (rule resume_tail_overflow [OF tails_fixed(2) tails_sized(2) A(1) [symmetric] at _ c(1) _ _ cnt])
      (use l2 assms(2,3) A in simp_all)
  then have "pump_read (en_build E) ks (handler_read E) cl1 = Some (Inl OutOfBounds)"
    by (simp add: pump_read.simps handle_read_def)
  then show ?thesis using hd(1) l2 by simp
qed

section \<open>Every connection that can be reached\<close>

definition conn_idle :: "env \<Rightarrow> client \<Rightarrow> bool" where
  "conn_idle E cl \<longleftrightarrow> conn_phase (en_build E) cl \<and> (case rd_struct (cb_read (cl_base cl)) of
     None \<Rightarrow> so_shut (cb_sock (cl_base cl)) | Some ns \<Rightarrow> conn_expects cl ns)"

lemma conn_idle_eq: "wf_env E \<Longrightarrow> conn.idle E cl = conn_idle E cl"
  unfolding conn.idle_def conn_idle_def by simp

lemma resume_write_shut: "resume_write st s = (b, st', s') \<Longrightarrow> so_shut s \<Longrightarrow> so_shut s'"
  by (auto simp: resume_write_def Let_def sock_write_def sys_write_def sock_shutdown_def
      split: prod.splits list.splits send_ev.splits if_splits)

lemma handle_write_frame:
  "handle_write c = (b, c') \<Longrightarrow> cb_read c' = cb_read c \<and> cb_encrypt c' = cb_encrypt c \<and> cb_decrypt c' = cb_decrypt c \<and>
   (so_shut (cb_sock c) \<longrightarrow> so_shut (cb_sock c'))"
  by (auto simp: handle_write_def dest: resume_write_shut split: list.splits prod.splits if_splits)

lemma pump_write_frame:
  "cb_read (pump_write c) = cb_read c \<and> cb_encrypt (pump_write c) = cb_encrypt c \<and>
   cb_decrypt (pump_write c) = cb_decrypt c \<and> (so_shut (cb_sock c) \<longrightarrow> so_shut (cb_sock (pump_write c)))"
proof (induction c rule: pump_write.induct)
  case (1 c)
  obtain b c' where h: "handle_write c = (b, c')" by (metis prod.exhaust)
  show ?case using 1 [OF h [symmetric]] handle_write_frame [OF h]
    by (cases b) (simp_all add: pump_write.simps [of c] h)
qed

lemma pump_write_idle: "conn_idle E cl \<Longrightarrow> conn_idle E (cli_pump_write cl)"
  using pump_write_frame [of "cl_base cl"] conn_phase_frame [of "en_build E" cl "cli_pump_write cl"]
  by (auto simp: conn_idle_def cli_pump_write_def conn_expects_def phase_flags split: option.splits)

lemma handle_dispatch_idle:
  assumes "wf_env E" "conn_idle E cl" "handle_dispatch E events cl = Some (Inr (Alive cl'))"
  shows "conn_idle E cl'"
proof -
  define cl1 where "cl1 = (if events AND ev_write \<noteq> 0 then cli_pump_write cl else cl)"
  have i: "conn_idle E cl1" using assms(2) pump_write_idle by (simp add: cl1_def)
  show ?thesis
  proof (cases "events AND ev_read \<noteq> 0")
    case True
    then have "pump_read (en_build E) (en_ks E) (handler_read E) cl1 = Some (Inr cl')"
      using assms(3) by (auto simp: handle_dispatch_def Let_def cl1_def split: if_splits option.splits sum.splits)
    then show ?thesis using conn.pump_read_idle i assms(1) conn_idle_eq by blast
  next
    case False
    then show ?thesis using assms(3) i by (auto simp: handle_dispatch_def Let_def cl1_def split: if_splits)
  qed
qed

lemma client_new_idle: "conn_idle E (client_new s polled)"
  using client_new_fresh [of s polled]
  by (simp add: conn_idle_def conn_phase_def conn_expects_def fresh_read_def Let_def)

text \<open>
  The states of a connection between two polls: it starts with the constructor; the network
  and the kernel may change what the next calls return at any time; a dispatch that returns
  with the client still in the server's list goes on.
\<close>

inductive reachable :: "env \<Rightarrow> client \<Rightarrow> bool" for E where
  start: "reachable E (client_new s polled)"
| network: "reachable E cl \<Longrightarrow>
    reachable E (on_base (\<lambda>b. b\<lparr>cb_sock := (cb_sock b)\<lparr>so_in := ins, so_out := outs\<rparr>\<rparr>) cl)"
| turn: "reachable E cl \<Longrightarrow> handle_dispatch E events cl = Some (Inr (Alive cl')) \<Longrightarrow> reachable E cl'"

lemma reachable_idle: "reachable E cl \<Longrightarrow> wf_env E \<Longrightarrow> conn_idle E cl"
proof (induction rule: reachable.induct)
  case (start s polled)
  show ?case by (rule client_new_idle)
next
  case (network cl ins outs)
  then show ?case
    using conn_phase_frame [of "en_build E" cl]
    by (auto simp: conn_idle_def conn_expects_def phase_flags split: option.splits)
next
  case (turn cl events cl')
  then show ?case using handle_dispatch_idle by blast
qed

text \<open>A gatekeeper request is only ever waited for, and so answered, under a session key.\<close>

lemma requests_need_key:
  assumes "wf_env E" "reachable E cl" "\<not> allow_decrypted (en_build E)"
    and "rd_struct (cb_read (cl_base cl)) = Some ns"
    and "ns \<in> {common_msg_std_header, gatekeeper_pingRequest, gatekeeper_fileSrvRequest, gatekeeper_authSrvRequest}"
  shows "\<exists>key p q. length key = 7 \<and> cb_encrypt (cl_base cl) = EvpRc4 key p \<and> cb_decrypt (cl_base cl) = EvpRc4 key q"
proof -
  have names: "ns_name ns \<in> {''common_msg_std_header'', ''gatekeeper_pingRequest'', ''gatekeeper_fileSrvRequest'', ''gatekeeper_authSrvRequest''}"
    using assms(5) by (auto simp: message_defs)
  have i: "conn_phase (en_build E) cl" "conn_expects cl ns"
    using reachable_idle [OF assms(2,1)] assms(4) by (simp_all add: conn_idle_def)
  have "enc cl"
  proof (rule ccontr)
    assume "\<not> enc cl"
    then have "ns_name ns \<in> {''common_connection_header'', ''m_encryptMsg'', ''common_encrypt_header''}"
      using i(2) by (auto simp: conn_expects_def message_defs encryptMsg_def split: if_splits)
    with names show False by auto
  qed
  then have "keyed (en_build E) (cl_base cl)" using i(1) by (simp add: conn_phase_def)
  then show ?thesis using assms(3)
    by (cases "cb_encrypt (cl_base cl)"; cases "cb_decrypt (cl_base cl)") (auto simp: keyed_def)
qed

text \<open>A connection without a registered read has been shut down, so a null struct is never read.\<close>

lemma no_read_is_shut:
  "wf_env E \<Longrightarrow> reachable E cl \<Longrightarrow> \<not> has_pending_read (cl_base cl) \<Longrightarrow> so_shut (cb_sock (cl_base cl))"
  using reachable_idle [of E cl] by (auto simp: conn_idle_def has_pending_read_def)

text \<open>
  The handshake without a key (size 2) ends in a shutdown in every build, also in the one that
  means to allow it.
\<close>

lemma plain_handshake_shut:
  assumes "cl_handler cl = Gatekeeper_Handler k" "\<not> enc cl" "\<not> seed cl" "fresh_read common_encrypt_header cl"
    and "cb_decrypt (cl_base cl) = EvpNull" "so_in (cb_sock (cl_base cl)) = Rchunk (e_c2s_connect # 2 # rest) # evs"
  shows "\<exists>cl'. pump_read B ks (handler_read E) cl = Some (Inr cl') \<and> so_shut (cb_sock (cl_base cl')) \<and>
    \<not> has_pending_read (cl_base cl') \<and> outgoing (cl_base cl') = outgoing (cl_base cl)"
  using handshake_answered [OF assms _ refl, of B ks E]
  by (auto simp: cli_shutdown_def sock_shutdown_def delivered_def has_pending_read_def outgoing_def queued_def)

end
