(* ===== verification/Theme_Turns.thy ===== *)
theory Theme_Turns
  imports Theme_Session
begin

text \<open>
  What arrives in bursts, one per turn of the event loop: a message that \<open>handle_read\<close> completes
  only after several calls (\<open>calls\<close>), and a conversation whose requests arrive over several calls of
  \<open>handle_dispatch\<close> (\<open>turns\<close>).
\<close>

declare evp_update.simps [simp del]

section \<open>Messages that arrive over several turns\<close>

text \<open>
  Between two calls the network brings new results; \<open>handle_read\<close> goes on where it stopped.
  \<open>calls\<close> makes one call per burst until a message is complete.
\<close>

definition feed :: "recv_ev list \<Rightarrow> client_base \<Rightarrow> client_base" where
  "feed evs c = c\<lparr>cb_sock := (cb_sock c)\<lparr>so_in := evs\<rparr>\<rparr>"

fun calls :: "build \<Rightarrow> keystream \<Rightarrow> recv_ev list list \<Rightarrow> client_base \<Rightarrow> (byte list option \<times> client_base) res option" where
  "calls B ks [] c = Some (Inr (None, c))"
| "calls B ks (evs # rest) c =
     (case handle_read B ks (feed evs c) of
        Some (Inr (None, c1)) \<Rightarrow> calls B ks rest c1
      | r \<Rightarrow> r)"

lemma feed_sel [simp]:
  "so_in (cb_sock (feed evs c)) = evs" "cb_read (feed evs c) = cb_read c" "cb_decrypt (feed evs c) = cb_decrypt c"
  by (simp_all add: feed_def)

lemma boundary_cuts_append:
  "boundary_cuts ns k (as @ bs) j \<Longrightarrow> \<exists>i. boundary_cuts ns k as i \<and> boundary_cuts ns i bs j"
proof (induction as arbitrary: k)
  case Nil
  then show ?case by auto
next
  case (Cons a as)
  then show ?case by fastforce
qed

lemma boundary_cuts_length:
  "boundary_cuts ns k cs j \<Longrightarrow> k \<le> j \<and> field_off ns j = field_off ns k + length (concat cs)"
proof (induction cs arbitrary: k)
  case (Cons c cs)
  then obtain i where "i \<in> set [Suc k ..< ns_size ns]" "length c = field_off ns i - field_off ns k" "boundary_cuts ns i cs j"
    by (simp only: boundary_cuts.simps) blast
  then have i: "k < i" "length c = field_off ns i - field_off ns k" "boundary_cuts ns i cs j" by simp_all
  then show ?case using Cons.IH [OF i(3)] field_off_mono [of k i ns] by simp
qed simp

lemma burst_blocks:
  assumes "fixed_upto ns v" "v = ns_size ns" "A = alloc_size (field_off ns v) False"
    and "read_at ns v k (cb_read c)" "boundary_cuts ns k bs i" "bs \<noteq> []" "D = concat bs" "pt = evp_update ks (cb_decrypt c) D"
  shows "\<exists>c1. handle_read B ks (feed (map Rchunk bs) c) = Some (Inr (None, c1)) \<and> read_at ns v i (cb_read c1) \<and> k < i \<and> i < v \<and>
    length D = field_off ns i - field_off ns k \<and>
    rd_buf (cb_read c1) = Some (patch (field_off ns k) (fst pt) (grow A (rd_buf (cb_read c)))) \<and> cb_decrypt c1 = snd pt"
proof -
  let ?c = "feed (map Rchunk bs) c"
  let ?t = "took ks A (field_off ns k) D [] i 0 ?c"
  have at: "read_at ns v k (cb_read ?c)" using assms(4) by simp
  have cuts: "length D = field_off ns i - field_off ns k" "k < i" "i < v" "resume_read B ks ?c = resume_read B ks ?t"
    using resume_cuts [OF assms(1-3) at assms(5,6), where evs = "[]" and B = B and ks = ks] by (simp_all add: assms(7))
  have le: "field_off ns k \<le> field_off ns i" "field_off ns i \<le> field_off ns v" using cuts(2,3) by (auto intro: field_off_mono)
  have fit: "field_off ns k + length D \<le> A" using cuts(1) le alloc_size_bound [of "field_off ns v"] assms(3) by simp
  have t_at: "read_at ns v i (cb_read ?t)" by (rule took_read_at [OF at assms(3) _ fit]) (use cuts(3) in simp)
  have "handle_read B ks ?c = handle_read B ks ?t" using cuts(4) by (simp add: handle_read_def)
  also have "\<dots> = Some (Inr (None, blocked A ?t))"
    by (rule handle_read_blocked [OF assms(1-3) t_at cuts(3)]) (simp add: took_def)
  finally have h: "handle_read B ks ?c = Some (Inr (None, blocked A ?t))" .
  let ?m = "patch (field_off ns k) (fst pt) (grow A (rd_buf (cb_read c)))"
  have lm: "length ?m = A"
    using at fit assms(3,8) by (subst length_patch) (simp_all add: read_at_def)
  have buf: "rd_buf (cb_read (blocked A ?t)) = Some ?m"
    using grow_same [OF lm] by (simp add: blocked_def took_def assms(8))
  have "read_at ns v i (cb_read (blocked A ?t))"
    using t_at buf lm assms(3) by (simp add: read_at_def blocked_def buf_fits_def)
  moreover have "cb_decrypt (blocked A ?t) = snd pt" by (simp add: blocked_def took_def assms(8))
  ultimately show ?thesis using h buf cuts by blast
qed

lemma calls_deliver:
  assumes "fixed_upto ns v" "v = ns_size ns" "A = alloc_size (field_off ns v) False" "n = field_off ns v - field_off ns j" "n \<le> length lst" "j < v"
  shows "read_at ns v k (cb_read c) \<Longrightarrow> boundary_cuts ns k (concat bss @ cs) j \<Longrightarrow> list_all (\<lambda>bs. bs \<noteq> []) bss \<Longrightarrow>
    pt = evp_update ks (cb_decrypt c) (concat (concat bss @ cs) @ take n lst) \<Longrightarrow>
    \<exists>c'. calls B ks (map (map Rchunk) bss @ [map Rchunk cs @ Rchunk lst # evs]) c =
        Some (Inr (Some (patch (field_off ns k) (fst pt) (grow A (rd_buf (cb_read c)))), c')) \<and>
      cb_decrypt c' = snd pt \<and> so_in (cb_sock c') = left_over n lst evs \<and> \<not> has_pending_read c'"
proof (induction bss arbitrary: k c pt)
  case Nil
  let ?c = "feed (map Rchunk cs @ Rchunk lst # evs) c"
  have cuts: "boundary_cuts ns k cs j" and kj: "k \<le> j" "field_off ns j = field_off ns k + length (concat cs)"
    using Nil boundary_cuts_length [of ns k cs j] by simp_all
  then have cuts': "cs = [] \<and> j = k \<or> cs \<noteq> [] \<and> boundary_cuts ns k cs j" by (cases cs) simp_all
  have "resume_read B ks ?c = Some (Inr (True, took ks A (field_off ns k) (concat cs @ take n lst)
      (if length lst = n then evs else Rchunk (drop n lst) # evs) v 0 ?c))"
    by (rule resume_delivers [OF assms(1-3) _ _ cuts'])
      (use Nil cuts kj assms(4-6) field_off_mono [of j v ns] in simp_all)
  then show ?case
    using Nil(4) by (simp add: handle_read_def took_def left_over_def has_pending_read_def)
next
  case (Cons bs bss)
  obtain i where i: "boundary_cuts ns k bs i" "boundary_cuts ns i (concat bss @ cs) j"
    using Cons.prems(2) boundary_cuts_append [of ns k bs "concat bss @ cs" j] by (simp only: concat.simps append_assoc) blast
  let ?p1 = "evp_update ks (cb_decrypt c) (concat bs)"
  let ?m = "patch (field_off ns k) (fst ?p1) (grow A (rd_buf (cb_read c)))"
  have ne: "bs \<noteq> []" "list_all (\<lambda>bs. bs \<noteq> []) bss" using Cons.prems(3) by simp_all
  obtain c1 where c1: "handle_read B ks (feed (map Rchunk bs) c) = Some (Inr (None, c1))" "read_at ns v i (cb_read c1)" "k < i" "i < v"
      "length (concat bs) = field_off ns i - field_off ns k" "rd_buf (cb_read c1) = Some ?m" "cb_decrypt c1 = snd ?p1"
    using burst_blocks [OF assms(1-3) Cons.prems(1) i(1) ne(1) refl refl, of B ks] by blast
  let ?rest = "concat (concat bss @ cs) @ take n lst"
  let ?p2 = "evp_update ks (snd ?p1) ?rest"
  from Cons.IH [OF c1(2) i(2) ne(2) refl] c1(7)
  obtain c' where c': "calls B ks (map (map Rchunk) bss @ [map Rchunk cs @ Rchunk lst # evs]) c1 =
        Some (Inr (Some (patch (field_off ns i) (fst ?p2) (grow A (Some ?m))), c'))"
      "cb_decrypt c' = snd ?p2" "so_in (cb_sock c') = left_over n lst evs" "\<not> has_pending_read c'"
    by (auto simp: c1(6))
  have pt: "fst pt = fst ?p1 @ fst ?p2" "snd pt = snd ?p2"
    using Cons.prems(4) by (simp_all add: evp.out_append evp.state_append)
  have oi: "field_off ns i = field_off ns k + length (fst ?p1)"
    using boundary_cuts_length [OF i(1)] by simp
  have oj: "field_off ns j = field_off ns i + length (concat (concat bss @ cs))" "field_off ns j \<le> field_off ns v"
    using boundary_cuts_length [OF i(2)] field_off_mono [of j v ns] assms(6) by simp_all
  have room: "field_off ns k + length (fst ?p1) + length (fst ?p2) \<le> A"
    using oi oj assms(3-5) alloc_size_bound [of "field_off ns v"] by simp
  have lg: "length (grow A (rd_buf (cb_read c))) = A" using Cons.prems(1) assms(3) by (simp add: read_at_def)
  then have "length ?m = A" using room by (subst length_patch) simp_all
  then have "patch (field_off ns i) (fst ?p2) (grow A (Some ?m)) = patch (field_off ns k) (fst pt) (grow A (rd_buf (cb_read c)))"
    using patch_append [of "field_off ns k" "fst ?p1" "fst ?p2" "grow A (rd_buf (cb_read c))"] room lg
    by (simp only: grow_same oi pt)
  then show ?case using c' c1(1) pt(2) by simp
qed

section \<open>Conversations over several turns\<close>

text \<open>One turn of the event loop per burst of bytes the peer sends.\<close>

fun turns :: "env \<Rightarrow> byte list list \<Rightarrow> client \<Rightarrow> client res option" where
  "turns E [] cl = Some (Inr cl)"
| "turns E (bs # rest) cl =
     (case handle_dispatch E ev_read (on_base (feed [Rchunk bs]) cl) of
        Some (Inr (Alive cl1)) \<Rightarrow> turns E rest cl1
      | Some (Inr (Erased cl1)) \<Rightarrow> Some (Inr cl1)
      | Some (Inl e) \<Rightarrow> Some (Inl e)
      | None \<Rightarrow> None)"

text \<open>What a peer sends that encrypts the requests of each burst, going on with its cipher.\<close>

fun bursts :: "keystream \<Rightarrow> evp \<Rightarrow> request list list \<Rightarrow> byte list list" where
  "bursts ks d [] = []"
| "bursts ks d (rs # rss) =
     (let pt = evp_update ks d (concat (map request_wire rs)) in fst pt # bursts ks (snd pt) rss)"

lemma dispatch_read:
  "handle_dispatch E ev_read cl =
    (case pump_read (en_build E) (en_ks E) (handler_read E) cl of
       None \<Rightarrow> None | Some (Inl e) \<Rightarrow> Some (Inl e) | Some (Inr cl2) \<Rightarrow> Some (Inr (Alive cl2)))"
  by (simp add: handle_dispatch_def ev_read_def ev_write_def ev_hup_def)

lemma ready_feed: "ready cl \<Longrightarrow> ready (on_base (feed evs) cl)"
  by (simp add: ready_def phase_flags wf_writes_def feed_def)

lemma feed_outgoing [simp]: "outgoing (feed evs c) = outgoing c" "cb_encrypt (feed evs c) = cb_encrypt c"
  by (simp_all add: feed_def outgoing_def queued_def)

lemma turns_answer:
  assumes "wf_env E"
  shows "ready cl \<Longrightarrow> list_all (\<lambda>rs. rs \<noteq> [] \<and> list_all request_fits rs) rss \<Longrightarrow>
    rp = concat (map (reply_wire E) (concat rss)) \<Longrightarrow> rq = concat (map request_wire (concat rss)) \<Longrightarrow>
    \<exists>cl'. turns E (bursts (en_ks E) (cb_decrypt (cl_base cl)) rss) cl = Some (Inr cl') \<and> ready cl' \<and>
      outgoing (cl_base cl') = outgoing (cl_base cl) @ fst (evp_update (en_ks E) (cb_encrypt (cl_base cl)) rp) \<and>
      cb_encrypt (cl_base cl') = snd (evp_update (en_ks E) (cb_encrypt (cl_base cl)) rp) \<and>
      cb_decrypt (cl_base cl') = snd (evp_update (en_ks E) (cb_decrypt (cl_base cl)) rq)"
proof (induction rss arbitrary: cl rp rq)
  case Nil
  then show ?case by (simp add: evp.upd_Nil)
next
  case (Cons rs rss)
  let ?ks = "en_ks E" and ?w = "concat (map request_wire rs)" and ?r = "concat (map (reply_wire E) rs)"
  let ?d = "cb_decrypt (cl_base cl)" and ?e = "cb_encrypt (cl_base cl)"
  let ?cl = "on_base (feed [Rchunk (fst (evp_update ?ks ?d ?w))]) cl"
  have rs: "rs \<noteq> []" "list_all request_fits rs" "list_all (\<lambda>rs. rs \<noteq> [] \<and> list_all request_fits rs) rss"
    using Cons.prems(2) by simp_all
  obtain cl1 where cl1: "pump_read (en_build E) ?ks (handler_read E) ?cl = Some (Inr cl1)" "ready cl1"
      "outgoing (cl_base cl1) = outgoing (cl_base cl) @ fst (evp_update ?ks ?e ?r)"
      "cb_encrypt (cl_base cl1) = snd (evp_update ?ks ?e ?r)" "cb_decrypt (cl_base cl1) = snd (evp_update ?ks ?d ?w)"
    using conversation [OF assms rs(2) refl ready_feed [OF Cons.prems(1)] refl refl] rs(1) by fastforce
  obtain cl' where cl': "turns E (bursts ?ks (cb_decrypt (cl_base cl1)) rss) cl1 = Some (Inr cl')" "ready cl'"
      "outgoing (cl_base cl') = outgoing (cl_base cl1) @ fst (evp_update ?ks (cb_encrypt (cl_base cl1)) (concat (map (reply_wire E) (concat rss))))"
      "cb_encrypt (cl_base cl') = snd (evp_update ?ks (cb_encrypt (cl_base cl1)) (concat (map (reply_wire E) (concat rss))))"
      "cb_decrypt (cl_base cl') = snd (evp_update ?ks (cb_decrypt (cl_base cl1)) (concat (map request_wire (concat rss))))"
    using Cons.IH [OF cl1(2) rs(3) refl refl] by blast
  have "turns E (bursts ?ks ?d (rs # rss)) cl = Some (Inr cl')"
    using cl1(1,5) cl'(1) by (simp add: Let_def dispatch_read)
  then show ?case
    using cl' cl1(3-5) Cons.prems(3,4) by (simp add: evp.out_append evp.state_append)
qed

end
