(* ===== verification/Theme_Config.thy ===== *)
theory Theme_Config
  imports Theme_Errors
begin

text \<open>
  \<open>src/src/core/config_parser.h\<close> and \<open>config_parser.cpp\<close>: the typed configuration store and the
  reader and writer of its file. The string library (string_theory) is a parameter, a record
  of the functions the code calls; the regular expressions of the standard library are
  written out as the matchers they are.
\<close>

section \<open>What the string library provides\<close>

record 'f string_lib =
  st_fold :: "string \<Rightarrow> string"  \<comment> \<open>what \<open>hash_i\<close> and \<open>equal_i\<close> compare\<close>
  st_trim :: "string \<Rightarrow> string"
  st_tokenize :: "string \<Rightarrow> string list"  \<comment> \<open>at line ends\<close>
  st_to_bool :: "string \<Rightarrow> bool"
  st_from_bool :: "bool \<Rightarrow> string"
  st_to_int :: "string \<Rightarrow> int"
  st_from_int :: "int \<Rightarrow> string"
  st_to_uint :: "string \<Rightarrow> u32"
  st_from_uint :: "u32 \<Rightarrow> string"
  st_to_float :: "string \<Rightarrow> 'f"
  st_from_float :: "'f \<Rightarrow> string"
  st_to_utf16 :: "string \<Rightarrow> u16 list"

section \<open>Items and maps\<close>

datatype value_type = vt_boolean | vt_float | vt_integer | vt_string

record config_item =
  ci_section :: string
  ci_key :: string
  ci_type :: value_type
  ci_value :: string
  ci_description :: string

record entry =
  en_def :: config_item
  en_value :: string

text \<open>
  An \<open>unordered_map\<close> is a list of its pairs in the order it happens to iterate; keys are equal
  when they fold to the same string.
\<close>

type_synonym 'a umap = "(string \<times> 'a) list"
type_synonym sectionmap = "entry umap"
type_synonym configmap = "sectionmap umap"

fun umap_find :: "(string \<Rightarrow> string) \<Rightarrow> string \<Rightarrow> 'a umap \<Rightarrow> (string \<times> 'a) option" where
  "umap_find f k [] = None"
| "umap_find f k ((k', v) # m) = (if f k' = f k then Some (k', v) else umap_find f k m)"

fun umap_put :: "(string \<Rightarrow> string) \<Rightarrow> string \<Rightarrow> 'a \<Rightarrow> 'a umap \<Rightarrow> 'a umap" where
  "umap_put f k v [] = [(k, v)]"
| "umap_put f k v ((k', v') # m) = (if f k' = f k then (k', v) # m else (k', v') # umap_put f k v m)"

text \<open>The constructor: \<open>m_config[section][key] = {def, value}\<close> for every item.\<close>

definition config_add :: "'f string_lib \<Rightarrow> config_item \<Rightarrow> configmap \<Rightarrow> configmap" where
  "config_add L def m =
     (let sm = (case umap_find (st_fold L) (ci_section def) m of Some (_, sm) \<Rightarrow> sm | None \<Rightarrow> [])
      in umap_put (st_fold L) (ci_section def)
           (umap_put (st_fold L) (ci_key def) \<lparr>en_def = def, en_value = ci_value def\<rparr> sm) m)"

definition config_parser :: "'f string_lib \<Rightarrow> config_item list \<Rightarrow> configmap" where
  "config_parser L config = fold (config_add L) config []"

section \<open>Lookup\<close>

text \<open>
  Without assertions a missing section or key dereferences an end iterator, \<open>NullDeref\<close> here.
\<close>

definition find_item :: "build \<Rightarrow> 'f string_lib \<Rightarrow> string \<Rightarrow> string \<Rightarrow> configmap \<Rightarrow> entry res" where
  "find_item B L section key m =
     (let section_it = umap_find (st_fold L) section m in
      bindE (assertd B (section_it \<noteq> None)) (\<lambda>_.
      bindE (case section_it of Some (_, sm) \<Rightarrow> Inr sm | None \<Rightarrow> Inl NullDeref) (\<lambda>sm.
      let item_it = umap_find (st_fold L) key sm in
      bindE (assertd B (item_it \<noteq> None)) (\<lambda>_.
      case item_it of Some (_, e) \<Rightarrow> Inr e | None \<Rightarrow> Inl NullDeref))))"

definition find_typed :: "build \<Rightarrow> 'f string_lib \<Rightarrow> value_type \<Rightarrow> string \<Rightarrow> string \<Rightarrow> configmap \<Rightarrow> string res" where
  "find_typed B L t section key m =
     bindE (find_item B L section key m) (\<lambda>e.
     bindE (assertd B (ci_type (en_def e) = t)) (\<lambda>_. Inr (en_value e)))"

definition config_get_bool :: "build \<Rightarrow> 'f string_lib \<Rightarrow> string \<Rightarrow> string \<Rightarrow> configmap \<Rightarrow> bool res" where
  "config_get_bool B L section key m = bindE (find_typed B L vt_boolean section key m) (\<lambda>v. Inr (st_to_bool L v))"

definition config_get_float :: "build \<Rightarrow> 'f string_lib \<Rightarrow> string \<Rightarrow> string \<Rightarrow> configmap \<Rightarrow> 'f res" where
  "config_get_float B L section key m = bindE (find_typed B L vt_float section key m) (\<lambda>v. Inr (st_to_float L v))"

definition config_get_int :: "build \<Rightarrow> 'f string_lib \<Rightarrow> string \<Rightarrow> string \<Rightarrow> configmap \<Rightarrow> int res" where
  "config_get_int B L section key m = bindE (find_typed B L vt_integer section key m) (\<lambda>v. Inr (st_to_int L v))"

definition config_get_cstr :: "build \<Rightarrow> 'f string_lib \<Rightarrow> string \<Rightarrow> string \<Rightarrow> configmap \<Rightarrow> string res" where
  "config_get_cstr B L section key m = bindE (find_typed B L vt_string section key m) (\<lambda>v. Inr (c_str v))"

definition config_get_string :: "build \<Rightarrow> 'f string_lib \<Rightarrow> string \<Rightarrow> string \<Rightarrow> configmap \<Rightarrow> string res" where
  "config_get_string B L section key m = find_typed B L vt_string section key m"

definition config_get_u16string :: "build \<Rightarrow> 'f string_lib \<Rightarrow> string \<Rightarrow> string \<Rightarrow> configmap \<Rightarrow> u16 list res" where
  "config_get_u16string B L section key m = bindE (find_typed B L vt_string section key m) (\<lambda>v. Inr (st_to_utf16 L v))"

definition config_get_uint :: "build \<Rightarrow> 'f string_lib \<Rightarrow> string \<Rightarrow> string \<Rightarrow> configmap \<Rightarrow> u32 res" where
  "config_get_uint B L section key m = bindE (find_typed B L vt_integer section key m) (\<lambda>v. Inr (st_to_uint L v))"

section \<open>Assignment\<close>

definition store_value :: "'f string_lib \<Rightarrow> string \<Rightarrow> string \<Rightarrow> string \<Rightarrow> configmap \<Rightarrow> configmap" where
  "store_value L section key v m =
     (case umap_find (st_fold L) section m of
        None \<Rightarrow> m
      | Some (_, sm) \<Rightarrow>
          (case umap_find (st_fold L) key sm of
             None \<Rightarrow> m
           | Some (_, e) \<Rightarrow>
               umap_put (st_fold L) section (umap_put (st_fold L) key (e\<lparr>en_value := v\<rparr>) sm) m))"

definition set_typed ::
    "build \<Rightarrow> 'f string_lib \<Rightarrow> value_type \<Rightarrow> string \<Rightarrow> string \<Rightarrow> string \<Rightarrow> configmap \<Rightarrow> configmap res" where
  "set_typed B L t section key v m =
     bindE (find_item B L section key m) (\<lambda>e.
     bindE (assertd B (ci_type (en_def e) = t)) (\<lambda>_. Inr (store_value L section key v m)))"

definition config_set_bool :: "build \<Rightarrow> 'f string_lib \<Rightarrow> string \<Rightarrow> string \<Rightarrow> bool \<Rightarrow> configmap \<Rightarrow> configmap res" where
  "config_set_bool B L section key v = set_typed B L vt_boolean section key (st_from_bool L v)"

definition config_set_float :: "build \<Rightarrow> 'f string_lib \<Rightarrow> string \<Rightarrow> string \<Rightarrow> 'f \<Rightarrow> configmap \<Rightarrow> configmap res" where
  "config_set_float B L section key v = set_typed B L vt_float section key (st_from_float L v)"

definition config_set_int :: "build \<Rightarrow> 'f string_lib \<Rightarrow> string \<Rightarrow> string \<Rightarrow> int \<Rightarrow> configmap \<Rightarrow> configmap res" where
  "config_set_int B L section key v = set_typed B L vt_integer section key (st_from_int L v)"

definition config_set_string :: "build \<Rightarrow> 'f string_lib \<Rightarrow> string \<Rightarrow> string \<Rightarrow> string \<Rightarrow> configmap \<Rightarrow> configmap res" where
  "config_set_string B L section key v = set_typed B L vt_string section key v"

definition config_set_uint :: "build \<Rightarrow> 'f string_lib \<Rightarrow> string \<Rightarrow> string \<Rightarrow> u32 \<Rightarrow> configmap \<Rightarrow> configmap res" where
  "config_set_uint B L section key v = set_typed B L vt_integer section key (st_from_uint L v)"

section \<open>The regular expressions\<close>

definition is_word :: "char \<Rightarrow> bool" where
  "is_word c \<longleftrightarrow> (let n = of_char c :: nat in
     48 \<le> n \<and> n \<le> 57 \<or> 65 \<le> n \<and> n \<le> 90 \<or> n = 95 \<or> 97 \<le> n \<and> n \<le> 122)"

definition is_space :: "char \<Rightarrow> bool" where
  "is_space c \<longleftrightarrow> (let n = of_char c :: nat in 9 \<le> n \<and> n \<le> 13 \<or> n = 32)"

text \<open>\<open>\[(.*?)\]\<close>: the leftmost opening bracket that is closed, up to its first closing one.\<close>

fun upto_bracket :: "string \<Rightarrow> string option" where
  "upto_bracket [] = None"
| "upto_bracket (c # cs) =
     (if c = CHR '']'' then Some []
      else if c = CHR 0x0A \<or> c = CHR 0x0D then None
      else map_option (Cons c) (upto_bracket cs))"

fun section_test :: "string \<Rightarrow> string option" where
  "section_test [] = None"
| "section_test (c # cs) =
     (if c = CHR ''['' then (case upto_bracket cs of Some name \<Rightarrow> Some name | None \<Rightarrow> section_test cs)
      else section_test cs)"

text \<open>
  \<open>(\w+)\s*=\s*\<close> at the start of a string: the word, and what follows the equals sign. No
  shorter word can match, since a word character would follow it.
\<close>

definition word_equals :: "string \<Rightarrow> (string \<times> string) option" where
  "word_equals s =
     (let w = takeWhile is_word s in
      case dropWhile is_space (dropWhile is_word s) of
        c # rest \<Rightarrow> if w \<noteq> [] \<and> c = CHR ''='' then Some (w, rest) else None
      | [] \<Rightarrow> None)"

text \<open>
  \<open>(\w+)\s*=\s*([^]+(?!\+{3}))\<close>: the value is the rest without leading blanks; of a rest that is
  all blank the match gives the last one back. The lookahead is always at the end.
\<close>

fun value_test :: "string \<Rightarrow> (string \<times> string) option" where
  "value_test [] = None"
| "value_test (c # cs) =
     (case word_equals (c # cs) of
        Some (w, rest) \<Rightarrow>
          (if rest = [] then value_test cs
           else if dropWhile is_space rest = [] then Some (w, [last rest])
           else Some (w, dropWhile is_space rest))
      | None \<Rightarrow> value_test cs)"

fun empty_test :: "string \<Rightarrow> string option" where
  "empty_test [] = None"
| "empty_test (c # cs) = (case word_equals (c # cs) of Some (w, _) \<Rightarrow> Some w | None \<Rightarrow> empty_test cs)"

section \<open>Reading a file\<close>

datatype complaint =
    OutsideSection nat string
  | UnknownItem nat string string
  | InvalidSection nat string
  | BadLine nat

text \<open>The section is an iterator: the stored name of a section, or \<open>None\<close> for the end.\<close>

record reader =
  rr_config :: configmap
  rr_section :: "string option"
  rr_log :: "complaint list"

definition set_line :: "'f string_lib \<Rightarrow> nat \<Rightarrow> string \<Rightarrow> string \<Rightarrow> reader \<Rightarrow> reader" where
  "set_line L lineno key v r =
     (case rr_section r of
        None \<Rightarrow> r\<lparr>rr_log := rr_log r @ [OutsideSection lineno key]\<rparr>
      | Some section \<Rightarrow>
          (case umap_find (st_fold L) section (rr_config r) of
             None \<Rightarrow> r
           | Some (_, sm) \<Rightarrow>
               (case umap_find (st_fold L) key sm of
                  None \<Rightarrow> r\<lparr>rr_log := rr_log r @ [UnknownItem lineno section key]\<rparr>
                | Some (_, e) \<Rightarrow>
                    r\<lparr>rr_config := store_value L section key
                        (if v \<noteq> [] \<or> ci_type (en_def e) = vt_string then v else ''0'') (rr_config r)\<rparr>)))"

definition starts_with :: "string \<Rightarrow> string \<Rightarrow> bool" where
  "starts_with s p \<longleftrightarrow> take (length p) s = p"

definition read_line :: "'f string_lib \<Rightarrow> nat \<Rightarrow> string \<Rightarrow> reader \<Rightarrow> reader" where
  "read_line L lineno buf r =
     (let line = st_trim L buf in
      if line = [] then r
      else if starts_with line '';'' \<or> starts_with line ''#'' \<or> starts_with line ''//'' then r
      else case section_test (c_str line) of
          Some name \<Rightarrow>
            (case umap_find (st_fold L) name (rr_config r) of
               Some (stored, _) \<Rightarrow> r\<lparr>rr_section := Some stored\<rparr>
             | None \<Rightarrow> r\<lparr>rr_section := None, rr_log := rr_log r @ [InvalidSection lineno name]\<rparr>)
        | None \<Rightarrow>
            (case value_test (c_str line) of
               Some (key, v) \<Rightarrow> set_line L lineno key v r
             | None \<Rightarrow>
                 (case empty_test (c_str line) of
                    Some key \<Rightarrow> set_line L lineno key [] r
                  | None \<Rightarrow> r\<lparr>rr_log := rr_log r @ [BadLine lineno]\<rparr>)))"

fun read_lines :: "'f string_lib \<Rightarrow> nat \<Rightarrow> string list \<Rightarrow> reader \<Rightarrow> reader" where
  "read_lines L lineno [] r = r"
| "read_lines L lineno (buf # bufs) r = read_lines L (Suc lineno) bufs (read_line L lineno buf r)"

text \<open>\<open>file\<close> is the lines of the file, \<open>None\<close> when there is none.\<close>

definition config_read :: "'f string_lib \<Rightarrow> string list option \<Rightarrow> configmap \<Rightarrow> bool \<times> configmap \<times> complaint list" where
  "config_read L file m =
     (case file of
        None \<Rightarrow> (False, m, [])
      | Some lines \<Rightarrow>
          (let r = read_lines L 0 lines \<lparr>rr_config = m, rr_section = None, rr_log = []\<rparr>
           in (True, rr_config r, rr_log r)))"

section \<open>Writing a file\<close>

definition write_item :: "'f string_lib \<Rightarrow> bool \<Rightarrow> string \<times> entry \<Rightarrow> string list" where
  "write_item L first item =
     (let comments = st_tokenize L (ci_description (en_def (snd item)))
      in (if comments \<noteq> [] \<and> \<not> first then [[]] else []) @
         map (\<lambda>comment. ''; '' @ c_str comment) comments @
         [c_str (fst item) @ '' = '' @ c_str (en_value (snd item))])"

fun write_items :: "'f string_lib \<Rightarrow> bool \<Rightarrow> sectionmap \<Rightarrow> string list" where
  "write_items L first [] = []"
| "write_items L first (item # items) = write_item L first item @ write_items L False items"

fun write_stream :: "'f string_lib \<Rightarrow> configmap \<Rightarrow> string list" where
  "write_stream L [] = []"
| "write_stream L ((name, items) # m) =
     [''['' @ c_str name @ '']''] @ write_items L True items @ [[]] @ write_stream L m"

definition config_write :: "'f string_lib \<Rightarrow> bool \<Rightarrow> configmap \<Rightarrow> bool \<times> string list" where
  "config_write L opens m = (if opens then (True, write_stream L m) else (False, []))"

end
