(* ===== verification/Theme_Config_Facts.thy ===== *)
theory Theme_Config_Facts
  imports Theme_Config
begin

text \<open>
  What the configuration store promises: an assigned value is looked up again and no other
  value changes, reading a file never adds or drops an item, and a written file reads back.
\<close>

section \<open>The store as an interface\<close>

locale keyed_store =
  fixes find :: "string \<Rightarrow> 'm \<Rightarrow> (string \<times> 'a) option"
    and put :: "string \<Rightarrow> 'a \<Rightarrow> 'm \<Rightarrow> 'm"
    and same :: "string \<Rightarrow> string \<Rightarrow> bool"
  assumes find_put_same: "same k k' \<Longrightarrow> \<exists>k''. find k (put k' v m) = Some (k'', v)"
    and find_put_other: "\<not> same k k' \<Longrightarrow> find k (put k' v m) = find k m"
begin

definition value_of :: "string \<Rightarrow> 'm \<Rightarrow> 'a option" where
  "value_of k m = map_option snd (find k m)"

lemma value_of_put: "value_of k (put k' v m) = (if same k k' then Some v else value_of k m)"
  using find_put_same [of k k' v m] find_put_other [of k k' v m] by (auto simp: value_of_def)

end

lemma umap_find_put_same: "f k = f k' \<Longrightarrow> \<exists>k''. umap_find f k (umap_put f k' v m) = Some (k'', v)"
  by (induction m) auto

lemma umap_find_put_other: "f k \<noteq> f k' \<Longrightarrow> umap_find f k (umap_put f k' v m) = umap_find f k m"
  by (induction m) auto

interpretation umap: keyed_store "umap_find f" "umap_put f" "\<lambda>k k'. f k = f k'" for f
  by unfold_locales (simp_all add: umap_find_put_same umap_find_put_other)

text \<open>The two levels of the configuration as one lookup.\<close>

definition lookup :: "(string \<Rightarrow> string) \<Rightarrow> string \<Rightarrow> string \<Rightarrow> configmap \<Rightarrow> entry option" where
  "lookup f section key m = Option.bind (umap.value_of f section m) (umap.value_of f key)"

lemma find_item_lookup: "find_item B L section key m = Inr e \<longleftrightarrow> lookup (st_fold L) section key m = Some e"
  by (auto simp: find_item_def lookup_def umap.value_of_def Let_def bindE_eq_Inr Option.bind_eq_Some_conv
      split: option.splits)

lemma lookup_store_value:
  "lookup (st_fold L) s k (store_value L section key v m) =
   (if st_fold L s = st_fold L section \<and> st_fold L k = st_fold L key
    then map_option (\<lambda>e. e\<lparr>en_value := v\<rparr>) (lookup (st_fold L) section key m)
    else lookup (st_fold L) s k m)"
proof -
  let ?f = "st_fold L"
  have cong: "?f s = ?f section \<Longrightarrow> umap.value_of ?f s m = umap.value_of ?f section m" for m :: configmap
    unfolding umap.value_of_def by (induction m) auto
  have cong2: "?f k = ?f key \<Longrightarrow> umap.value_of ?f k sm = umap.value_of ?f key sm" for sm :: sectionmap
    unfolding umap.value_of_def by (induction sm) auto
  show ?thesis
  proof (cases "umap_find ?f section m")
    case None
    then show ?thesis using cong [of m] by (auto simp: store_value_def lookup_def umap.value_of_def)
  next
    case (Some p)
    obtain n sm where p: "umap_find ?f section m = Some (n, sm)" using Some by (cases p) auto
    show ?thesis
    proof (cases "umap_find ?f key sm")
      case None
      then show ?thesis using p cong [of m] cong2 [of sm] by (auto simp: store_value_def lookup_def umap.value_of_def)
    next
      case (Some q)
      obtain i e where q: "umap_find ?f key sm = Some (i, e)" using Some by (cases q) auto
      have "store_value L section key v m = umap_put ?f section (umap_put ?f key (e\<lparr>en_value := v\<rparr>) sm) m"
        by (simp add: store_value_def p q)
      moreover have "umap.value_of ?f section m = Some sm" "umap.value_of ?f key sm = Some e"
        by (simp_all add: umap.value_of_def p q)
      ultimately show ?thesis using cong [of m] by (simp add: lookup_def umap.value_of_put)
    qed
  qed
qed

text \<open>What every typed setter and getter of the template pair does.\<close>

lemma set_typed_lookup:
  assumes "set_typed B L t section key v m = Inr m'"
  shows "\<exists>e. lookup (st_fold L) section key m = Some e \<and> (ndebug B \<or> ci_type (en_def e) = t) \<and>
    lookup (st_fold L) section key m' = Some (e\<lparr>en_value := v\<rparr>)"
    "\<not> (st_fold L s = st_fold L section \<and> st_fold L k = st_fold L key) \<Longrightarrow>
      lookup (st_fold L) s k m' = lookup (st_fold L) s k m"
  using assms
  by (auto simp: set_typed_def bindE_eq_Inr find_item_lookup lookup_store_value assertd_def split: if_splits)

lemma find_set_typed:
  assumes "set_typed B L t section key v m = Inr m'" shows "find_typed B L t section key m' = Inr v"
proof -
  obtain e where e: "ndebug B \<or> ci_type (en_def e) = t" "lookup (st_fold L) section key m' = Some (e\<lparr>en_value := v\<rparr>)"
    using set_typed_lookup(1) [OF assms] by blast
  then have "find_item B L section key m' = Inr (e\<lparr>en_value := v\<rparr>)" by (simp add: find_item_lookup)
  then show ?thesis using e(1) by (auto simp: find_typed_def assertd_def)
qed

lemma find_item_eq:
  "find_item B L section key m =
   (case lookup (st_fold L) section key m of Some e \<Rightarrow> Inr e | None \<Rightarrow> bindE (assertd B False) (\<lambda>_. Inl NullDeref))"
  by (cases "ndebug B")
    (auto simp: find_item_def lookup_def umap.value_of_def Let_def assertd_def split: option.splits)

lemma umap_find_cong: "f a = f b \<Longrightarrow> umap_find f a m = umap_find f b m"
  by (induction f a m rule: umap_find.induct) simp_all

lemma lookup_cong: "f s = f s' \<Longrightarrow> f k = f k' \<Longrightarrow> lookup f s k m = lookup f s' k' m"
proof -
  assume "f s = f s'" "f k = f k'"
  then have "umap_find f s = (umap_find f s' :: configmap \<Rightarrow> _)" "umap_find f k = (umap_find f k' :: sectionmap \<Rightarrow> _)"
    by (auto intro: umap_find_cong)
  then show ?thesis by (simp add: lookup_def umap.value_of_def [abs_def])
qed

section \<open>Reading keeps the items\<close>

definition same_entry :: "string \<times> entry \<Rightarrow> string \<times> entry \<Rightarrow> bool" where
  "same_entry a b \<longleftrightarrow> fst a = fst b \<and> en_def (snd a) = en_def (snd b)"

definition same_section :: "string \<times> sectionmap \<Rightarrow> string \<times> sectionmap \<Rightarrow> bool" where
  "same_section a b \<longleftrightarrow> fst a = fst b \<and> list_all2 same_entry (snd a) (snd b)"

definition same_items :: "configmap \<Rightarrow> configmap \<Rightarrow> bool" where
  "same_items = list_all2 same_section"

lemma same_entry_refl [simp]: "same_entry a a"
  by (simp add: same_entry_def)

lemma same_section_refl [simp]: "same_section a a"
  by (simp add: same_section_def list_all2_refl)

lemma same_items_refl [simp]: "same_items m m"
  by (simp add: same_items_def list_all2_refl)

lemma same_items_trans: "same_items a b \<Longrightarrow> same_items b c \<Longrightarrow> same_items a c"
proof -
  have e: "same_entry x y \<Longrightarrow> same_entry y z \<Longrightarrow> same_entry x z" for x y z by (simp add: same_entry_def)
  have s: "same_section x y \<Longrightarrow> same_section y z \<Longrightarrow> same_section x z" for x y z
    using list_all2_trans [of same_entry same_entry same_entry "snd x" "snd y" "snd z", OF e]
    by (simp add: same_section_def)
  show "same_items a b \<Longrightarrow> same_items b c \<Longrightarrow> same_items a c"
    unfolding same_items_def by (rule list_all2_trans [OF s])
qed

lemma same_items_sym: "same_items a b \<Longrightarrow> same_items b a"
proof -
  have e: "same_entry y x" if "same_entry x y" for x y using that by (simp add: same_entry_def)
  have s: "same_section y x" if "same_section x y" for x y
    using that e list_all2_mono [of same_entry "snd x" "snd y" "\<lambda>a b. same_entry b a"]
    by (auto simp: same_section_def list_all2_conv_all_nth)
  show "same_items a b \<Longrightarrow> same_items b a"
    unfolding same_items_def using s by (auto simp: list_all2_conv_all_nth)
qed

lemma umap_put_related:
  assumes "umap_find f k m = Some (k', v')" "\<And>n. R (n, v') (n, v)" "\<And>p. R p p"
  shows "list_all2 R m (umap_put f k v m)"
  using assms(1)
proof (induction m)
  case (Cons p m)
  obtain a b where p: "p = (a, b)" by (cases p)
  show ?case
  proof (cases "f a = f k")
    case True
    then show ?thesis using Cons(2) assms(2,3) p by (simp add: list_all2_refl)
  next
    case False
    then show ?thesis using Cons assms(3) p by simp
  qed
qed simp

lemma store_value_same: "same_items m (store_value L section key v m)"
proof -
  have "same_items m (umap_put (st_fold L) section (umap_put (st_fold L) key (e\<lparr>en_value := v\<rparr>) sm) m)"
    if "umap_find (st_fold L) section m = Some (n, sm)" "umap_find (st_fold L) key sm = Some (i, e)" for n sm i e
  proof -
    have "list_all2 same_entry sm (umap_put (st_fold L) key (e\<lparr>en_value := v\<rparr>) sm)"
      by (rule umap_put_related [OF that(2)]) (simp_all add: same_entry_def)
    then show ?thesis unfolding same_items_def
      by (intro umap_put_related [OF that(1)]) (simp_all add: same_section_def list_all2_refl)
  qed
  then show ?thesis by (auto simp: store_value_def split: option.splits)
qed

lemma read_line_same: "same_items (rr_config r) (rr_config (read_line L n buf r))"
  by (auto simp: read_line_def set_line_def Let_def store_value_same split: option.splits)

lemma read_lines_same: "same_items (rr_config r) (rr_config (read_lines L n bufs r))"
proof (induction bufs arbitrary: n r)
  case (Cons buf bufs)
  then show ?case using same_items_trans [OF read_line_same [of r L n buf]] by simp
qed simp

lemma config_read_same: "config_read L file m = (ok, m', log) \<Longrightarrow> same_items m m'"
  using read_lines_same [of "\<lparr>rr_config = m, rr_section = None, rr_log = []\<rparr>" L 0 "the file"]
  by (auto simp: config_read_def Let_def split: option.splits)

section \<open>A written file reads back\<close>

text \<open>The documented behaviour of \<open>trim\<close>: blanks, tabs and line ends go from both ends.\<close>

definition trim_blank :: "char \<Rightarrow> bool" where
  "trim_blank c \<longleftrightarrow> c \<in> {CHR '' '', CHR 0x09, CHR 0x0A, CHR 0x0D}"

definition trimmed :: "string \<Rightarrow> string" where
  "trimmed s = rev (dropWhile trim_blank (rev (dropWhile trim_blank s)))"

definition good_name :: "string \<Rightarrow> bool" where
  "good_name s \<longleftrightarrow> list_all (\<lambda>c. c \<noteq> CHR '']'' \<and> c \<noteq> CHR 0x0A \<and> c \<noteq> CHR 0x0D \<and> c \<noteq> CHR 0x00) s"

definition good_key :: "string \<Rightarrow> bool" where
  "good_key s \<longleftrightarrow> s \<noteq> [] \<and> list_all is_word s"

text \<open>
  A value that survives: no bracketed part (it would read as a section), no surrounding
  blanks, and empty only for a string item.
\<close>

definition good_value :: "value_type \<Rightarrow> string \<Rightarrow> bool" where
  "good_value t v \<longleftrightarrow> section_test v = None \<and> CHR 0x00 \<notin> set v \<and>
     (if v = [] then t = vt_string else \<not> is_space (hd v) \<and> \<not> is_space (last v))"

definition good_entry :: "string \<times> entry \<Rightarrow> bool" where
  "good_entry it \<longleftrightarrow> good_key (fst it) \<and> good_value (ci_type (en_def (snd it))) (en_value (snd it))"

definition good_config :: "(string \<Rightarrow> string) \<Rightarrow> configmap \<Rightarrow> bool" where
  "good_config f m \<longleftrightarrow> distinct (map (f \<circ> fst) m) \<and>
     list_all (\<lambda>(name, items). good_name name \<and> distinct (map (f \<circ> fst) items) \<and> list_all good_entry items) m"

lemma word_facts:
  assumes "is_word c"
  shows "c \<noteq> CHR 0x00" "c \<noteq> CHR ''=''" "c \<noteq> CHR ''[''" "c \<noteq> CHR '';''" "c \<noteq> CHR ''#''" "c \<noteq> CHR ''/''"
    "\<not> is_space c" "\<not> trim_blank c"
  using assms by (auto simp: is_word_def is_space_def trim_blank_def Let_def)

lemma not_space_blank: "\<not> is_space c \<Longrightarrow> \<not> trim_blank c"
  by (auto simp: is_space_def trim_blank_def Let_def)

lemma blank_facts [simp]: "is_space CHR '' ''" "trim_blank CHR '' ''" "\<not> is_word CHR '' ''" "\<not> is_space CHR ''=''"
  "\<not> trim_blank CHR '';''" "\<not> trim_blank CHR ''=''" "\<not> is_word CHR ''=''" "\<not> trim_blank CHR ''[''" "\<not> trim_blank CHR '']''" "\<not> is_word CHR 0x00"
  by (simp_all add: is_word_def is_space_def trim_blank_def)

lemma trimmed_id:
  assumes "s \<noteq> []" "\<not> trim_blank (hd s)" "\<not> trim_blank (last s)" shows "trimmed s = s"
proof -
  have "dropWhile trim_blank s = s" "dropWhile trim_blank (rev s) = rev s"
    using assms by (simp_all add: dropWhile_eq_self_iff hd_rev)
  then show ?thesis by (simp add: trimmed_def)
qed

lemma trimmed_end:
  assumes "s \<noteq> []" "\<not> trim_blank (hd s)" "\<not> trim_blank (last s)" shows "trimmed (s @ '' '') = s"
proof -
  have "dropWhile trim_blank (s @ '' '') = s @ '' ''" "dropWhile trim_blank (rev s) = rev s"
    using assms by (simp_all add: dropWhile_eq_self_iff hd_rev)
  then show ?thesis by (simp add: trimmed_def)
qed

lemma trimmed_semicolon: "take 1 (trimmed (CHR '';'' # s)) = '';''"
proof -
  have "dropWhile trim_blank (rev (CHR '';'' # s)) = dropWhile trim_blank (rev s) @ '';''"
    by (simp add: dropWhile_append3)
  then show ?thesis by (simp add: trimmed_def)
qed

lemma c_str_id: "CHR 0x00 \<notin> set s \<Longrightarrow> c_str s = s"
  by (auto simp: c_str_def takeWhile_eq_all_conv)

lemma section_test_word: "list_all is_word k \<Longrightarrow> section_test (k @ s) = section_test s"
  by (induction k) (auto simp: word_facts)

lemma word_equals_key: "list_all is_word k \<Longrightarrow> k \<noteq> [] \<Longrightarrow> word_equals (k @ '' ='' @ s) = Some (k, s)"
proof -
  assume k: "list_all is_word k" "k \<noteq> []"
  then have "takeWhile is_word (k @ '' ='' @ s) = k" "dropWhile is_word (k @ '' ='' @ s) = '' ='' @ s"
    by (simp_all add: list_all_iff takeWhile_append2 dropWhile_append2)
  then show ?thesis using k by (simp add: word_equals_def)
qed

lemma value_test_empty: "list_all is_word k \<Longrightarrow> value_test (k @ '' ='') = None"
proof (induction k)
  case Nil
  then show ?case by (simp add: word_equals_def is_word_def)
next
  case (Cons c k)
  then have "word_equals ((c # k) @ '' ='') = Some (c # k, [])" using word_equals_key [of "c # k" "[]"] by simp
  then show ?case using Cons by simp
qed

text \<open>The three kinds of lines a written file has.\<close>

lemma read_blank: "st_trim L = trimmed \<Longrightarrow> read_line L n [] r = r"
  by (simp add: read_line_def trimmed_def)

lemma read_comment: "st_trim L = trimmed \<Longrightarrow> read_line L n ('';'' @ s) r = r"
  using trimmed_semicolon [of s] by (auto simp: read_line_def starts_with_def Let_def)

lemma read_section:
  assumes "st_trim L = trimmed" "good_name name" "umap_find (st_fold L) name (rr_config r) = Some (stored, sm)"
  shows "read_line L n (''['' @ c_str name @ '']'') r = r\<lparr>rr_section := Some stored\<rparr>"
proof -
  have nz: "c_str name = name" using assms(2) by (intro c_str_id) (auto simp: good_name_def list_all_iff)
  let ?l = "''['' @ name @ '']''"
  have t: "trimmed ?l = ?l" by (rule trimmed_id) simp_all
  have c: "c_str ?l = ?l" using assms(2) by (intro c_str_id) (auto simp: good_name_def list_all_iff)
  have "upto_bracket (name @ '']'') = Some name"
    using assms(2) by (induction name) (auto simp: good_name_def)
  then have "section_test ?l = Some name" by simp
  then show ?thesis using assms(1,3) by (simp only: read_line_def Let_def nz t c) (simp add: starts_with_def)
qed

lemma read_item:
  assumes "st_trim L = trimmed" "good_key key" "good_value (ci_type (en_def e)) v"
    and "rr_section r = Some section" "umap_find (st_fold L) section (rr_config r) = Some (n1, sm)"
    and "umap_find (st_fold L) key sm = Some (n2, e)"
  shows "read_line L n (c_str key @ '' = '' @ c_str v) r = r\<lparr>rr_config := store_value L section key v (rr_config r)\<rparr>"
proof -
  have k: "list_all is_word key" "key \<noteq> []" "c_str key = key" "c_str v = v"
    using assms(2,3) by (auto simp: good_key_def good_value_def list_all_iff word_facts intro!: c_str_id)
  have hd: "is_word (hd (key @ s))" for s using k by (cases key) auto
  note h = word_facts [OF hd]
  define line where "line = key @ '' ='' @ (if v = [] then [] else '' '' @ v)"
  have ne: "line \<noteq> []" by (simp add: line_def)
  have "\<not> trim_blank (last line)"
    using assms(3) by (auto simp: line_def good_value_def not_space_blank)
  moreover have "\<not> trim_blank (hd line)" using h(8) by (simp add: line_def)
  ultimately have t: "trimmed (c_str key @ '' = '' @ c_str v) = line"
    using trimmed_id [OF ne] trimmed_end [OF ne] by (auto simp: line_def k)
  have c: "c_str line = line"
    using assms(3) k(1) by (intro c_str_id) (auto simp: line_def good_value_def list_all_iff word_facts)
  have start: "\<not> starts_with line '';''" "\<not> starts_with line ''#''" "\<not> starts_with line ''//''"
    using h [of "'' ='' @ (if v = [] then [] else '' '' @ v)"] k(2)
    by (cases key; auto simp: line_def starts_with_def)+
  have sec: "section_test line = None"
    using assms(3) section_test_word [OF k(1)] by (simp add: line_def good_value_def)
  have we: "word_equals line = Some (key, if v = [] then [] else '' '' @ v)"
    unfolding line_def by (rule word_equals_key [OF k(1,2)])
  have val: "v \<noteq> [] \<Longrightarrow> value_test line = Some (key, v)"
  proof -
    assume v: "v \<noteq> []"
    then have "dropWhile is_space ('' '' @ v) = v" using assms(3) by (cases v) (auto simp: good_value_def)
    then show ?thesis using we v ne by (cases line) simp_all
  qed
  have emp: "v = [] \<Longrightarrow> value_test line = None \<and> empty_test line = Some key"
    using we ne value_test_empty [OF k(1)] by (cases line) (simp_all add: line_def)
  have "read_line L n (c_str key @ '' = '' @ c_str v) r = set_line L n key v r"
    unfolding read_line_def Let_def assms(1) t using val emp
    by (cases "v = []") (simp_all add: c ne start sec)
  also have "\<dots> = r\<lparr>rr_config := store_value L section key v (rr_config r)\<rparr>"
    using assms(3-6) by (simp add: set_line_def good_value_def split: if_splits)
  finally show ?thesis .
qed


lemma umap_find_skip: "f k \<notin> (f \<circ> fst) ` set pre \<Longrightarrow> umap_find f k (pre @ m) = umap_find f k m"
  by (induction pre) auto

lemma umap_put_skip: "f k \<notin> (f \<circ> fst) ` set pre \<Longrightarrow> umap_put f k v (pre @ m) = pre @ umap_put f k v m"
  by (induction pre) auto

lemma store_value_at:
  assumes "st_fold L s \<notin> (st_fold L \<circ> fst) ` set pre" "st_fold L k \<notin> (st_fold L \<circ> fst) ` set items"
  shows "store_value L s k v (pre @ (s, items @ (k, e) # rest) # post) =
    pre @ (s, items @ (k, e\<lparr>en_value := v\<rparr>) # rest) # post"
  using assms by (simp add: store_value_def umap_find_skip umap_put_skip)

lemma read_lines_append: "read_lines L n (as @ bs) r = read_lines L (n + length as) bs (read_lines L n as r)"
  by (induction as arbitrary: n r) simp_all

lemma read_comments:
  "st_trim L = trimmed \<Longrightarrow> read_lines L n (map (\<lambda>comment. ''; '' @ c_str comment) cs) r = r"
proof (induction cs arbitrary: n)
  case (Cons c cs)
  then show ?case using read_comment [of L n "CHR '' '' # c_str c" r] by simp
qed simp

lemma read_written_item:
  assumes "st_trim L = trimmed" "good_entry (k, e)" "same_entry (k, e) (k', e')"
    and "r = \<lparr>rr_config = pre @ (s, done1 @ (k', e') # rest) # post, rr_section = Some s, rr_log = lg\<rparr>"
    and "st_fold L s \<notin> (st_fold L \<circ> fst) ` set pre" "st_fold L k \<notin> (st_fold L \<circ> fst) ` set done1"
  shows "read_lines L n (write_item L first (k, e)) r = r\<lparr>rr_config := pre @ (s, done1 @ (k, e) # rest) # post\<rparr>"
proof -
  let ?cs = "st_tokenize L (ci_description (en_def e))"
  let ?pre = "(if ?cs \<noteq> [] \<and> \<not> first then [[]] else []) @ map (\<lambda>comment. ''; '' @ c_str comment) ?cs"
  have skip: "read_lines L n ?pre r = r"
    using read_comments [OF assms(1), of "Suc n" ?cs r] read_comments [OF assms(1), of n ?cs r] read_blank [OF assms(1)]
    by (simp add: read_lines_append del: map_append)
  have k: "k' = k" "en_def e' = en_def e" using assms(3) by (simp_all add: same_entry_def)
  then have e: "e'\<lparr>en_value := en_value e\<rparr> = e" by (cases e; cases e') simp
  have item: "read_line L j (c_str k @ '' = '' @ c_str (en_value e)) r =
      r\<lparr>rr_config := pre @ (s, done1 @ (k, e) # rest) # post\<rparr>" for j
  proof -
    have f: "umap_find (st_fold L) s (rr_config r) = Some (s, done1 @ (k, e') # rest)"
      "umap_find (st_fold L) k (done1 @ (k, e') # rest) = Some (k, e')"
      using assms(4-6) k by (simp_all add: umap_find_skip)
    have "read_line L j (c_str k @ '' = '' @ c_str (en_value e)) r =
        r\<lparr>rr_config := store_value L s k (en_value e) (rr_config r)\<rparr>"
      by (rule read_item [OF assms(1) _ _ _ f]) (use assms(2,4) k in \<open>simp_all add: good_entry_def\<close>)
    then show ?thesis using store_value_at [OF assms(5,6)] assms(4) k e by simp
  qed
  have w: "write_item L first (k, e) = ?pre @ [c_str k @ '' = '' @ c_str (en_value e)]"
    by (simp add: write_item_def Let_def)
  show ?thesis unfolding w read_lines_append [of L n ?pre] skip by (simp only: read_lines.simps item)
qed

lemma read_written_items:
  assumes "st_trim L = trimmed" "st_fold L s \<notin> (st_fold L \<circ> fst) ` set pre"
  shows "list_all good_entry items \<Longrightarrow> list_all2 same_entry items olds \<Longrightarrow>
    distinct (map (st_fold L \<circ> fst) (done1 @ items)) \<Longrightarrow>
    r = \<lparr>rr_config = pre @ (s, done1 @ olds) # post, rr_section = Some s, rr_log = lg\<rparr> \<Longrightarrow>
    read_lines L n (write_items L first items) r = r\<lparr>rr_config := pre @ (s, done1 @ items) # post\<rparr>"
proof (induction items arbitrary: olds done1 r n first)
  case Nil
  then show ?case by simp
next
  case (Cons it items)
  obtain k e where it: "it = (k, e)" by (cases it)
  from Cons.prems(2) obtain k' e' olds' where o: "olds = (k', e') # olds'" "same_entry (k, e) (k', e')"
      "list_all2 same_entry items olds'"
    by (cases olds) (auto simp: it)
  have fresh: "st_fold L k \<notin> (st_fold L \<circ> fst) ` set done1" using Cons.prems(3) by (auto simp: it)
  let ?r = "r\<lparr>rr_config := pre @ (s, (done1 @ [(k, e)]) @ olds') # post\<rparr>"
  have "read_lines L n (write_item L first (k, e)) r = ?r"
    using read_written_item [OF assms(1) _ o(2) _ assms(2) fresh, of r olds' post lg n first] Cons.prems(1,4) o(1)
    by (simp add: it)
  moreover have "read_lines L m (write_items L False items) ?r =
      ?r\<lparr>rr_config := pre @ (s, (done1 @ [(k, e)]) @ items) # post\<rparr>" for m
    by (rule Cons.IH [OF _ o(3)]) (use Cons.prems(1,3,4) it in simp_all)
  ultimately show ?case by (simp add: it read_lines_append)
qed

lemma read_written_config:
  assumes "st_trim L = trimmed"
  shows "good_config (st_fold L) (pre @ m) \<Longrightarrow> same_items m m0 \<Longrightarrow> rr_config r = pre @ m0 \<Longrightarrow>
    rr_config (read_lines L n (write_stream L m) r) = pre @ m \<and>
    rr_log (read_lines L n (write_stream L m) r) = rr_log r"
proof (induction m arbitrary: pre m0 r n)
  case Nil
  then show ?case by (simp add: same_items_def)
next
  case (Cons sec m)
  obtain s items where sec: "sec = (s, items)" by (cases sec)
  from Cons.prems(2) obtain olds m0' where o: "m0 = (s, olds) # m0'" "list_all2 same_entry items olds" "same_items m m0'"
    by (cases m0) (auto simp: sec same_items_def same_section_def)
  have fresh: "st_fold L s \<notin> (st_fold L \<circ> fst) ` set pre"
    using Cons.prems(1) by (auto simp: good_config_def sec)
  have good: "good_name s" "distinct (map (st_fold L \<circ> fst) items)" "list_all good_entry items"
    using Cons.prems(1) by (auto simp: good_config_def sec)
  let ?r1 = "\<lparr>rr_config = pre @ (s, [] @ olds) # m0', rr_section = Some s, rr_log = rr_log r\<rparr>"
  let ?r2 = "\<lparr>rr_config = (pre @ [(s, items)]) @ m0', rr_section = Some s, rr_log = rr_log r\<rparr>"
  have head: "read_line L n (''['' @ c_str s @ '']'') r = ?r1" for n
    using read_section [OF assms good(1), of r s olds n] Cons.prems(3) o(1) fresh
    by (simp add: umap_find_skip del: append_Cons)
  have body: "read_lines L n (write_items L True items) ?r1 = ?r2" for n
    using read_written_items [OF assms fresh good(3) o(2), of "[]" ?r1 m0' "rr_log r" n True] good(2) by simp
  have "good_config (st_fold L) ((pre @ [(s, items)]) @ m)" using Cons.prems(1) by (simp add: sec)
  note ih = Cons.IH [OF this o(3), of ?r2]
  show ?case using ih
    by (simp only: sec write_stream.simps read_lines_append read_lines.simps head body read_blank [OF assms]) simp
qed

lemma config_written_reads_back:
  assumes "st_trim L = trimmed" "good_config (st_fold L) m" "same_items m m0"
  shows "config_read L (Some (snd (config_write L True m))) m0 = (True, m, [])"
  using read_written_config [OF assms(1), of "[]" m m0 "\<lparr>rr_config = m0, rr_section = None, rr_log = []\<rparr>" 0] assms(2,3)
  by (simp add: config_read_def config_write_def Let_def)

text \<open>A line with a bracketed part is taken for a section header whatever it assigns.\<close>

lemma bracketed_line_not_assigned:
  assumes "section_test (c_str (st_trim L line)) = Some name"
  shows "rr_config (read_line L n line r) = rr_config r"
  using assms by (auto simp: read_line_def Let_def split: option.splits)

end
