(* ===== verification/Theme_Log.thy ===== *)
theory Theme_Log
  imports Main
begin

text \<open>
  \<open>src/src/core/log.h\<close>, \<open>log.cpp\<close> and \<open>build_info.cpp\<close>: levelled log lines on the standard
  output and the version banner. The clock's text and the values the build generates are
  parameters.
\<close>

section \<open>Levels\<close>

datatype level = e_debug | e_info | e_warning | e_error

fun level_rank :: "level \<Rightarrow> nat" where
  "level_rank e_debug = 0"
| "level_rank e_info = 1"
| "level_rank e_warning = 2"
| "level_rank e_error = 3"

instantiation level :: linorder
begin

definition less_eq_level :: "level \<Rightarrow> level \<Rightarrow> bool" where
  "less_eq_level a b \<longleftrightarrow> level_rank a \<le> level_rank b"

definition less_level :: "level \<Rightarrow> level \<Rightarrow> bool" where
  "less_level a b \<longleftrightarrow> level_rank a < level_rank b"

instance
proof
  fix x y :: level
  show "x \<le> y \<Longrightarrow> y \<le> x \<Longrightarrow> x = y"
    by (cases x; cases y) (simp_all add: less_eq_level_def)
qed (auto simp: less_eq_level_def less_level_def)

end

section \<open>The log\<close>

text \<open>The process-wide state: threshold, time stamp and the lines written so far.\<close>

record log_state =
  s_level :: level
  s_time :: string
  log_out :: "string list"

definition log_init :: log_state where
  "log_init = \<lparr>s_level = e_info, s_time = [], log_out = []\<rparr>"

definition write_line :: "string \<Rightarrow> level \<Rightarrow> string \<Rightarrow> log_state \<Rightarrow> log_state" where
  "write_line m_name level msg w =
     w\<lparr>log_out := log_out w @
        [s_time w @ '' '' @ m_name @
         (case level of e_debug \<Rightarrow> '' DEBUG:'' | e_info \<Rightarrow> '' INFO:''
          | e_warning \<Rightarrow> '' WARNING:'' | e_error \<Rightarrow> '' ERROR:'') @ '' '' @ msg]\<rparr>"

definition log_debug :: "string \<Rightarrow> string \<Rightarrow> log_state \<Rightarrow> log_state" where
  "log_debug m_name msg w = (if s_level w \<le> e_debug then write_line m_name e_debug msg w else w)"

definition log_info :: "string \<Rightarrow> string \<Rightarrow> log_state \<Rightarrow> log_state" where
  "log_info m_name msg w = (if s_level w \<le> e_info then write_line m_name e_info msg w else w)"

definition log_warning :: "string \<Rightarrow> string \<Rightarrow> log_state \<Rightarrow> log_state" where
  "log_warning m_name msg w = (if s_level w \<le> e_warning then write_line m_name e_warning msg w else w)"

definition log_error :: "string \<Rightarrow> string \<Rightarrow> log_state \<Rightarrow> log_state" where
  "log_error m_name msg w = (if s_level w \<le> e_error then write_line m_name e_error msg w else w)"

definition set_level :: "level \<Rightarrow> log_state \<Rightarrow> log_state" where
  "set_level level w = w\<lparr>s_level := level\<rparr>"

text \<open>\<open>now\<close> is what \<open>strftime\<close> makes of the clock.\<close>

definition log_tick :: "string \<Rightarrow> log_state \<Rightarrow> log_state" where
  "log_tick now w = w\<lparr>s_time := now\<rparr>"

text \<open>The four entry points as one, for the lemmas.\<close>

fun log_at :: "level \<Rightarrow> string \<Rightarrow> string \<Rightarrow> log_state \<Rightarrow> log_state" where
  "log_at e_debug = log_debug"
| "log_at e_info = log_info"
| "log_at e_warning = log_warning"
| "log_at e_error = log_error"

lemma log_at_eq: "log_at l name msg w = (if s_level w \<le> l then write_line name l msg w else w)"
  by (cases l) (simp_all add: log_debug_def log_info_def log_warning_def log_error_def)

text \<open>A sequence of calls writes, in order, exactly the lines at or above the threshold.\<close>

lemma log_filter:
  "log_out (fold (\<lambda>(l, name, msg). log_at l name msg) msgs w) =
   log_out w @ concat (map (\<lambda>(l, name, msg). log_out (write_line name l msg (w\<lparr>log_out := []\<rparr>)))
     (filter (\<lambda>(l, _). s_level w \<le> l) msgs))"
proof (induction msgs arbitrary: w)
  case (Cons m msgs)
  obtain l name msg where m: "m = (l, name, msg)" by (metis prod_cases3)
  have s: "s_level (write_line name l msg w) = s_level w" "s_time (write_line name l msg w) = s_time w"
    by (simp_all add: write_line_def)
  have same: "write_line n k x (write_line name l msg w\<lparr>log_out := []\<rparr>) = write_line n k x (w\<lparr>log_out := []\<rparr>)" for n k x
    by (simp add: write_line_def)
  show ?case
    using Cons [of "write_line name l msg w"] Cons [of w]
    by (auto simp: m log_at_eq s same) (simp_all add: write_line_def)
qed simp

section \<open>Version\<close>

record build_info =
  BUILD_HASH :: string
  BUILD_TAG :: string
  BUILD_BRANCH :: string
  BUILD_DATE :: string
  BUILD_TIME :: string

definition build_version :: "build_info \<Rightarrow> string" where
  "build_version b = (if BUILD_TAG b = [] then BUILD_HASH b else BUILD_TAG b)"

text \<open>\<open>compiler\<close> is the text of the compiler's macros, \<open>ptrsz\<close> the size of a pointer.\<close>

definition build_info_string :: "string \<Rightarrow> nat \<Rightarrow> build_info \<Rightarrow> string" where
  "build_info_string compiler ptrsz b =
     ''THEME - The H'' @ [CHR 0x27] @ ''uru Enhanced MOULa Experience'' @
     (if BUILD_TAG b \<noteq> [] then '' ('' @ BUILD_TAG b @ '')'' else []) @
     '' ['' @ BUILD_HASH b @ '' ('' @ BUILD_BRANCH b @ '')] '' @
     BUILD_DATE b @ '' '' @ BUILD_TIME b @ '' '' @ compiler @
     (if ptrsz = 4 then '' (x86)'' else if ptrsz = 8 then '' (x64)'' else [])"

definition build_info_lines :: "string \<Rightarrow> nat \<Rightarrow> build_info \<Rightarrow> string list" where
  "build_info_lines compiler ptrsz b = [build_info_string compiler ptrsz b]"

end
