(* ===== verification/Theme_Server.thy ===== *)
theory Theme_Server
  imports Theme_Turns Theme_Config_Facts Theme_Log "HOL-Library.AList"
begin

text \<open>
  \<open>src/src/daemon/server.cpp\<close>, \<open>server.h\<close> and \<open>main.cpp\<close>, with the parts of \<open>uru_crypt.cpp\<close> and
  \<open>gatekeeper.cpp\<close> that read the configuration: the daemon's settings, its start, the event
  loop that ties the poll to the listening socket and to the clients, and the command line.
\<close>

section \<open>Settings\<close>

definition THEME_CONFIG :: "string \<Rightarrow> string \<Rightarrow> value_type \<Rightarrow> string \<Rightarrow> string \<Rightarrow> config_item" where
  [simp]: "THEME_CONFIG section key t v desc =
     \<lparr>ci_section = section, ci_key = key, ci_type = t, ci_value = v, ci_description = desc\<rparr>"

text \<open>The macros; \<open>#value\<close> is the source text of the value.\<close>

definition cfg_bool :: "string \<Rightarrow> string \<Rightarrow> string \<Rightarrow> string \<Rightarrow> config_item" where
  "cfg_bool section key v desc = THEME_CONFIG section key vt_boolean v desc"

definition cfg_float :: "string \<Rightarrow> string \<Rightarrow> string \<Rightarrow> string \<Rightarrow> config_item" where
  "cfg_float section key v desc = THEME_CONFIG section key vt_float v desc"

definition cfg_str :: "string \<Rightarrow> string \<Rightarrow> string \<Rightarrow> string \<Rightarrow> config_item" where
  "cfg_str section key v desc =
     \<lparr>ci_section = section, ci_key = key, ci_type = vt_string, ci_value = v, ci_description = desc\<rparr>"

definition cfg_int :: "string \<Rightarrow> string \<Rightarrow> string \<Rightarrow> string \<Rightarrow> config_item" where
  "cfg_int section key v desc = THEME_CONFIG section key vt_integer v desc"

definition two_lines :: "string \<Rightarrow> string \<Rightarrow> string" where
  "two_lines a b = a @ [CHR 0x0A] @ b"

definition s_daemonConfig :: "config_item list" where
  "s_daemonConfig =
    [cfg_str ''lobby'' ''bindaddr'' ''127.0.0.1'' (two_lines ''Lobby Bind Address''
       ''IP Address that this THEME server should listen for connections on''),
     cfg_str ''lobby'' ''extaddr'' [] (two_lines ''Lobby External Address''
       ''IP Address that this THEME server can be reached on if behind NAT''),
     cfg_int ''lobby'' ''port'' ''14617'' (two_lines ''Lobby Bind Port''
       ''Port that this THEME server should listen for connections on''),
     cfg_str ''gate'' ''crypt_k'' [] ''Private Key'',
     cfg_str ''gate'' ''crypt_n'' [] ''Public Key'',
     cfg_str ''gate'' ''crypt_x'' [] ''Shared Key'',
     cfg_int ''gate'' ''crypt_g'' ''4'' ''Base Value'',
     cfg_str ''gate'' ''fileaddr'' [] (two_lines ''File Server Address''
       ''Return this address to clients asking for a file server''),
     cfg_str ''gate'' ''authaddr'' ''184.73.198.22'' (two_lines ''Auth Server Address''
       ''Return this address to clients asking for an auth server''),
     cfg_str ''file'' ''path'' [] (two_lines ''File Server Path''
       ''Path to use for DirtSand-style manifest and file downloads''),
     cfg_int ''file'' ''maxfds'' ''1024'' (two_lines ''Maximum File Descriptors''
       (''This is the maximum number of REGULAR file descriptors that THEME will '' @
        ''hold open to avoid blocking system calls.''))]"

text \<open>The constructor of the server: its table of settings, overwritten by what the file assigns.\<close>

definition server_new :: "'f string_lib \<Rightarrow> string list option \<Rightarrow> configmap" where
  "server_new L file = fst (snd (config_read L file (config_parser L s_daemonConfig)))"

section \<open>Keys\<close>

text \<open>What OpenSSL and the base-64 coding do in one run of the program.\<close>

record crypto_lib =
  cr_encode :: "byte list \<Rightarrow> string"
  cr_decode :: "string \<Rightarrow> nat \<Rightarrow> byte list option"
  cr_primes :: "nat option \<times> nat option"
  cr_key_junk :: "byte list \<times> byte list \<times> byte list"
  cr_load_junk :: "byte list"

definition crypto_generate :: "build \<Rightarrow> crypto_lib \<Rightarrow> u32 \<Rightarrow> (string \<times> string \<times> string) res" where
  "crypto_generate B C g = generate_keys B (cr_encode C) (fst (cr_primes C)) (snd (cr_primes C)) (cr_key_junk C) g"

definition load_keys ::
    "build \<Rightarrow> 'f string_lib \<Rightarrow> crypto_lib \<Rightarrow> configmap \<Rightarrow> string \<Rightarrow> (bool \<times> nat \<times> nat) res" where
  "load_keys B L C config section =
     bindE (config_get_string B L section ''crypt_k'' config) (\<lambda>kstr.
     bindE (config_get_string B L section ''crypt_n'' config) (\<lambda>nstr.
     bindE (if kstr = [] \<or> nstr = [] then
              bindE (config_get_uint B L section ''crypt_g'' config) (\<lambda>g.
              bindE (crypto_generate B C g) (\<lambda>(ks, ns, xs). Inr (False, ks, ns)))
            else Inr (True, kstr, nstr)) (\<lambda>(result, ks, ns).
     bindE (load_key B (cr_decode C) (cr_load_junk C) ks) (\<lambda>k.
     bindE (load_key B (cr_decode C) (cr_load_junk C) ns) (\<lambda>n.
     Inr (result, k, n))))))"

definition gatekeeper_daemon_new ::
    "build \<Rightarrow> 'f string_lib \<Rightarrow> crypto_lib \<Rightarrow> configmap \<Rightarrow> gatekeeper_daemon res" where
  "gatekeeper_daemon_new B L C config =
     bindE (config_get_u16string B L ''gate'' ''authaddr'' config) (\<lambda>auth.
     bindE (config_get_u16string B L ''gate'' ''fileaddr'' config) (\<lambda>file.
     bindE (load_keys B L C config ''gate'') (\<lambda>(result, k, n).
     Inr \<lparr>gd_authsrv = auth, gd_filesrv = file, gd_cryptK = k, gd_cryptN = n\<rparr>)))"

definition generate_daemon_keys ::
    "build \<Rightarrow> 'f string_lib \<Rightarrow> crypto_lib \<Rightarrow> configmap \<Rightarrow> configmap res" where
  "generate_daemon_keys B L C config =
     bindE (config_get_uint B L ''gate'' ''crypt_g'' config) (\<lambda>g_value.
     bindE (crypto_generate B C g_value) (\<lambda>(k, n, x).
     bindE (config_set_string B L ''gate'' ''crypt_k'' k config) (\<lambda>c1.
     bindE (config_set_string B L ''gate'' ''crypt_n'' n c1) (\<lambda>c2.
     config_set_string B L ''gate'' ''crypt_x'' x c2))))"

text \<open>The client's \<open>server.ini\<close>; \<open>show_uint\<close> is the stream's rendering of a number.\<close>

definition quoted :: "string \<Rightarrow> string" where
  "quoted s = [CHR 0x22] @ s @ [CHR 0x22]"

definition generate_client_ini ::
    "build \<Rightarrow> 'f string_lib \<Rightarrow> (u32 \<Rightarrow> string) \<Rightarrow> configmap \<Rightarrow> string list res" where
  "generate_client_ini B L show_uint config =
     bindE (config_get_uint B L ''gate'' ''crypt_g'' config) (\<lambda>g.
     bindE (config_get_string B L ''gate'' ''crypt_n'' config) (\<lambda>n.
     bindE (config_get_string B L ''gate'' ''crypt_x'' config) (\<lambda>x.
     bindE (config_get_string B L ''lobby'' ''bindaddr'' config) (\<lambda>bindaddr.
     bindE (config_get_string B L ''lobby'' ''extaddr'' config) (\<lambda>extaddr.
     bindE (config_get_uint B L ''lobby'' ''port'' config) (\<lambda>port.
     Inr [''Server.Gate.G '' @ show_uint g, ''Server.Gate.N '' @ quoted n, ''Server.Gate.X '' @ quoted x,
          ''Server.Gate.Host '' @ quoted (if extaddr = [] then bindaddr else extaddr),
          ''Server.Port '' @ show_uint port]))))))"

section \<open>The event loop\<close>

text \<open>
  The list of clients is keyed by a number that stands for the address a client's callback is
  bound to. \<open>sv_backlog\<close> is what \<open>accept4\<close> will return, with the traffic of the connection
  and whether \<open>epoll_ctl\<close> takes it.
\<close>

datatype callback = AcceptCb | ClientCb nat

record server =
  sv_listen :: sock
  sv_clients :: "(nat \<times> client) list"
  sv_next :: nat
  sv_backlog :: "(errno + (int \<times> sockaddr \<times> recv_ev list \<times> send_ev list \<times> bool)) list"

text \<open>The process after some callbacks: running, dead of a fault, or stuck in a loop.\<close>

datatype 'a world = Running 'a | Dead fault | Hung

type_synonym server_poll = "callback poll"

text \<open>\<open>m_clients.emplace_back(sock, this)\<close>: the constructor adds the descriptor to the poll.\<close>

definition client_events :: u32 where "client_events = ev_read OR ev_write OR ev_hup"

definition emplace_client :: "sock \<Rightarrow> bool \<Rightarrow> server_poll \<times> server \<Rightarrow> server_poll \<times> server" where
  "emplace_client s ctl_ok ps =
     (case add_fd ctl_ok (so_fd s) client_events (Some (ClientCb (sv_next (snd ps)))) (fst ps) of
        (polled, p) \<Rightarrow>
          (p, (snd ps)\<lparr>sv_clients := sv_clients (snd ps) @ [(sv_next (snd ps), client_new s polled)],
                       sv_next := Suc (sv_next (snd ps))\<rparr>))"

text \<open>\<open>accept_cb\<close>'s loop runs until \<open>accept\<close> has nothing more to give or fails.\<close>

fun accept_loop ::
    "(sockaddr \<Rightarrow> string option) \<Rightarrow> (nat \<Rightarrow> string)
     \<Rightarrow> (errno + (int \<times> sockaddr \<times> recv_ev list \<times> send_ev list \<times> bool)) list
     \<Rightarrow> server_poll \<times> server \<Rightarrow> server_poll \<times> server" where
  "accept_loop ntop show_port [] (p, sv) = (p, sv\<lparr>sv_backlog := []\<rparr>)"
| "accept_loop ntop show_port (Inl e # rest) (p, sv) = (p, sv\<lparr>sv_backlog := rest\<rparr>)"
| "accept_loop ntop show_port (Inr (fd, addr, ins, outs, ctl_ok) # rest) (p, sv) =
     (let s = (snd (sock_accept ntop show_port (Inr (fd, addr)) sock_new))\<lparr>so_in := ins, so_out := outs\<rparr>
      in accept_loop ntop show_port rest (emplace_client s ctl_ok (p, sv)))"

definition accept_cb ::
    "(sockaddr \<Rightarrow> string option) \<Rightarrow> (nat \<Rightarrow> string) \<Rightarrow> u32 \<Rightarrow> server_poll \<times> server \<Rightarrow> server_poll \<times> server" where
  "accept_cb ntop show_port events ps =
     (if events AND ev_read = 0 then ps
      else accept_loop ntop show_port (sv_backlog (snd ps)) ps)"

definition set_client :: "nat \<Rightarrow> client \<Rightarrow> server \<Rightarrow> server" where
  "set_client i cl sv = sv\<lparr>sv_clients := AList.update i cl (sv_clients sv)\<rparr>"

definition erase_client :: "nat \<Rightarrow> server \<Rightarrow> server" where
  "erase_client i sv = sv\<lparr>sv_clients := filter (\<lambda>(j, _). j \<noteq> i) (sv_clients sv)\<rparr>"

text \<open>
  The two kinds of callbacks. A client whose number is not in the list any more has been
  destroyed; the destructor of an erased client takes its descriptor out of the poll if its
  flag still says so.
\<close>

definition run_callback ::
    "(sockaddr \<Rightarrow> string option) \<Rightarrow> (nat \<Rightarrow> string) \<Rightarrow> env \<Rightarrow> callback \<Rightarrow> int \<Rightarrow> u32
     \<Rightarrow> server_poll \<times> server world \<Rightarrow> server_poll \<times> server world" where
  "run_callback ntop show_port E f fd events s =
     (case snd s of
        Dead e \<Rightarrow> s
      | Hung \<Rightarrow> s
      | Running sv \<Rightarrow>
          (case f of
             AcceptCb \<Rightarrow> (case accept_cb ntop show_port events (fst s, sv) of (p, sv1) \<Rightarrow> (p, Running sv1))
           | ClientCb i \<Rightarrow>
               (case map_of (sv_clients sv) i of
                  None \<Rightarrow> (fst s, Dead UseAfterFree)
                | Some cl \<Rightarrow>
                    (case handle_dispatch E events cl of
                       None \<Rightarrow> (fst s, Hung)
                     | Some (Inl e) \<Rightarrow> (fst s, Dead e)
                     | Some (Inr (Alive cl1)) \<Rightarrow> (fst s, Running (set_client i cl1 sv))
                     | Some (Inr (Erased cl1)) \<Rightarrow>
                         (if client_destroy cl1 then snd (remove_fd True (so_fd (cb_sock (cl_base cl1))) (fst s)) else fst s,
                          Running (erase_client i sv))))))"

section \<open>Start\<close>

definition init_fds ::
    "build \<Rightarrow> 'f string_lib \<Rightarrow> (sockaddr \<Rightarrow> string option) \<Rightarrow> (nat \<Rightarrow> string) \<Rightarrow> (string \<Rightarrow> u16 \<Rightarrow> sockaddr list option)
     \<Rightarrow> (nat \<Rightarrow> sockaddr \<Rightarrow> attempt) \<Rightarrow> bool \<Rightarrow> bool \<Rightarrow> bool \<Rightarrow> configmap \<Rightarrow> (bool \<times> server_poll option \<times> sock) res option" where
  "init_fds B L ntop show_port hostlookup try listens created ctl_ok config =
     (case config_get_cstr B L ''lobby'' ''bindaddr'' config of
        Inl e \<Rightarrow> Some (Inl e)
      | Inr addr \<Rightarrow>
          (case config_get_uint B L ''lobby'' ''port'' config of
             Inl e \<Rightarrow> Some (Inl e)
           | Inr port \<Rightarrow>
               (case sock_bind B ntop show_port hostlookup try addr (ucast port) sock_new of
                  None \<Rightarrow> None
                | Some (Inl e) \<Rightarrow> Some (Inl e)
                | Some (Inr (False, s)) \<Rightarrow> Some (Inr (False, None, s))
                | Some (Inr (True, s)) \<Rightarrow>
                    (if \<not> sock_listen listens s then Some (Inr (False, None, s))
                     else Some (bindE (poll_create created) (\<lambda>p0.
                       case add_fd ctl_ok (so_fd s) ev_read (Some AcceptCb) p0 of
                         (added, p1) \<Rightarrow> bindE (assertr added) (\<lambda>_. Inr (True, Some p1, s))))))))"

definition init_servers :: "build \<Rightarrow> 'f string_lib \<Rightarrow> crypto_lib \<Rightarrow> configmap \<Rightarrow> gatekeeper_daemon res" where
  "init_servers B L C config = gatekeeper_daemon_new B L C config"

text \<open>
  Before a poll the network and the kernel bring new results for the system calls of the
  clients and of the listening socket.
\<close>

type_synonym backlog = "(errno + (int \<times> sockaddr \<times> recv_ev list \<times> send_ev list \<times> bool)) list"
type_synonym arrivals = "(nat \<Rightarrow> recv_ev list) \<times> (nat \<Rightarrow> send_ev list) \<times> backlog"

definition traffic :: "arrivals \<Rightarrow> server \<Rightarrow> server" where
  "traffic a sv =
     (case a of (ins, outs, backlog) \<Rightarrow>
        sv\<lparr>sv_backlog := backlog, sv_clients :=
          map (\<lambda>(i, cl). (i, on_base (\<lambda>b. b\<lparr>cb_sock := (cb_sock b)\<lparr>so_in := ins i, so_out := outs i\<rparr>\<rparr>) cl)) (sv_clients sv)\<rparr>)"

text \<open>
  The loop \<open>do dispatch while (m_active)\<close> never ends by itself, so it is run over its first
  turns, each with what arrived before it and the result of its poll. A process that has died
  or is stuck does not go on.
\<close>

fun dispatch_loop ::
    "(sockaddr \<Rightarrow> string option) \<Rightarrow> (nat \<Rightarrow> string) \<Rightarrow> env \<Rightarrow> (arrivals \<times> wait) list \<Rightarrow> server_poll \<times> server world
     \<Rightarrow> (server_poll \<times> server world) res" where
  "dispatch_loop ntop show_port E [] s = Inr s"
| "dispatch_loop ntop show_port E ((a, w) # ws) s =
     (case snd s of
        Running sv \<Rightarrow>
          bindE (poll_dispatch (run_callback ntop show_port E) w (fst s, Running (traffic a sv)))
            (\<lambda>(_, s1). dispatch_loop ntop show_port E ws s1)
      | _ \<Rightarrow> Inr s)"

text \<open>
  \<open>run\<close>: \<open>mkenv\<close> completes the environment of the handlers with the gatekeeper daemon, \<open>backlog\<close>
  is what \<open>accept4\<close> will return and \<open>waits\<close> what the first polls will.
\<close>

definition server_start :: "sock \<Rightarrow> backlog \<Rightarrow> server" where
  "server_start s backlog = \<lparr>sv_listen = s, sv_clients = [], sv_next = 0, sv_backlog = backlog\<rparr>"

definition server_run ::
    "build \<Rightarrow> 'f string_lib \<Rightarrow> crypto_lib \<Rightarrow> (sockaddr \<Rightarrow> string option) \<Rightarrow> (nat \<Rightarrow> string)
     \<Rightarrow> (bool \<times> server_poll option \<times> sock) res option \<Rightarrow> (gatekeeper_daemon \<Rightarrow> env)
     \<Rightarrow> backlog \<Rightarrow> (arrivals \<times> wait) list \<Rightarrow> configmap
     \<Rightarrow> (server_poll \<times> server world) option res option" where
  "server_run B L C ntop show_port fds mkenv backlog waits config =
     (case fds of
        None \<Rightarrow> None
      | Some (Inl e) \<Rightarrow> Some (Inl e)
      | Some (Inr (_, None, _)) \<Rightarrow> Some (Inr None)
      | Some (Inr (_, Some p, s)) \<Rightarrow>
          Some (bindE (init_servers B L C config) (\<lambda>gate.
                bindE (dispatch_loop ntop show_port (mkenv gate) waits (p, Running (server_start s backlog))) (\<lambda>r.
                Inr (Some r)))))"

section \<open>The command line\<close>

record flags =
  fl_config_path :: string
  fl_generate_client_ini :: string
  fl_generate_keys :: bool
  fl_save_config :: bool

definition default_flags :: flags where
  "default_flags = \<lparr>fl_config_path = ''theme.ini'', fl_generate_client_ini = [], fl_generate_keys = False, fl_save_config = False\<rparr>"

text \<open>
  The program up to \<open>run\<close>: \<open>file\<close> is what the configuration file holds. The result is the
  configuration the server runs with, the client's ini if one is asked for, and the
  configuration file if it is saved.
\<close>

definition main_setup ::
    "build \<Rightarrow> 'f string_lib \<Rightarrow> crypto_lib \<Rightarrow> (u32 \<Rightarrow> string) \<Rightarrow> string list option \<Rightarrow> flags
     \<Rightarrow> (configmap \<times> string list option \<times> string list option) res" where
  "main_setup B L C show_uint file fl =
     (let config0 = server_new L file
      in bindE (if fl_generate_keys fl then generate_daemon_keys B L C config0 else Inr config0) (\<lambda>config.
         bindE (if fl_generate_client_ini fl \<noteq> [] then bindE (generate_client_ini B L show_uint config) (\<lambda>ini. Inr (Some ini))
                else Inr None) (\<lambda>ini.
         Inr (config, ini, if fl_save_config fl then Some (snd (config_write L True config)) else None))))"

text \<open>The exit status: zero when \<open>run\<close> came back with true.\<close>

definition exit_status :: "bool \<Rightarrow> int" where
  "exit_status success = (if success then 0 else 1)"

end
