(* ===== verification/Theme_Server_Facts.thy ===== *)
theory Theme_Server_Facts
  imports Theme_Server
begin

text \<open>
  What holds of the running daemon: its callbacks respect the dispatcher they run in, every
  client the poll may call is alive, the keys it generates are the keys it loads, and no
  configuration file can make one of its getters fail.
\<close>

section \<open>Callbacks and the poll\<close>

lemma emplace_client_poll:
  assumes "wf_poll (fst ps)"
  shows "wf_poll (fst (emplace_client s ok ps))"
    "pl_nodes (fst ps) n = Some x \<Longrightarrow> pl_nodes (fst (emplace_client s ok ps)) n = Some x"
    "fd \<in> watched_fds (fst ps) \<Longrightarrow> pl_kernel (fst (emplace_client s ok ps)) fd = pl_kernel (fst ps) fd"
    "fd \<in> watched_fds (fst ps) \<Longrightarrow> fd \<in> watched_fds (fst (emplace_client s ok ps))"
proof -
  obtain b p where a: "add_fd ok (so_fd s) client_events (Some (ClientCb (sv_next (snd ps)))) (fst ps) = (b, p)"
    by (metis prod.exhaust)
  have "fst (emplace_client s ok ps) = p" by (simp add: emplace_client_def a)
  then show "wf_poll (fst (emplace_client s ok ps))"
    "pl_nodes (fst ps) n = Some x \<Longrightarrow> pl_nodes (fst (emplace_client s ok ps)) n = Some x"
    "fd \<in> watched_fds (fst ps) \<Longrightarrow> pl_kernel (fst (emplace_client s ok ps)) fd = pl_kernel (fst ps) fd"
    "fd \<in> watched_fds (fst ps) \<Longrightarrow> fd \<in> watched_fds (fst (emplace_client s ok ps))"
    using add_fd_wf [OF assms a] by auto
qed

lemma accept_loop_poll:
  "wf_poll (fst ps) \<Longrightarrow>
   wf_poll (fst (accept_loop ntop show_port rs ps)) \<and>
   (\<forall>n x. pl_nodes (fst ps) n = Some x \<longrightarrow> pl_nodes (fst (accept_loop ntop show_port rs ps)) n = Some x) \<and>
   (\<forall>fd \<in> watched_fds (fst ps). pl_kernel (fst (accept_loop ntop show_port rs ps)) fd = pl_kernel (fst ps) fd)"
proof (induction rs arbitrary: ps)
  case Nil
  then show ?case by (cases ps) simp
next
  case (Cons r rs)
  obtain p sv where ps: "ps = (p, sv)" by (cases ps)
  show ?case
  proof (cases r)
    case (Inl e)
    then show ?thesis using Cons.prems by (simp add: ps)
  next
    case (Inr q)
    obtain fd addr ins outs ok where q: "q = (fd, addr, ins, outs, ok)" by (metis prod_cases5)
    define s where "s = (snd (sock_accept ntop show_port (Inr (fd, addr)) sock_new))\<lparr>so_in := ins, so_out := outs\<rparr>"
    have "accept_loop ntop show_port (r # rs) ps = accept_loop ntop show_port rs (emplace_client s ok ps)"
      by (simp add: Inr q ps s_def Let_def)
    then show ?thesis
      using Cons.IH [OF emplace_client_poll(1) [OF Cons.prems], of s ok] emplace_client_poll [where s = s and ok = ok, OF Cons.prems] by auto
  qed
qed

lemma erased_client_leaves_poll:
  "handle_dispatch E events cl = Some (Inr (Erased cl')) \<Longrightarrow> \<not> client_destroy cl'"
  by (auto simp: handle_dispatch_def client_destroy_def Let_def split: if_splits option.splits sum.splits)

lemma run_callback_only_adds: "only_adds (run_callback ntop show_port E)"
  unfolding only_adds_def
proof (intro allI impI)
  fix f fd m and s :: "server_poll \<times> server world"
  assume wf: "wf_poll (fst s)"
  let ?s = "run_callback ntop show_port E f fd m s"
  have "fst ?s = fst s \<or> (\<exists>sv rs. fst ?s = fst (accept_loop ntop show_port rs (fst s, sv)))"
    by (auto simp: run_callback_def accept_cb_def dest: erased_client_leaves_poll
        split: world.splits callback.splits option.splits sum.splits fate.splits prod.splits) (metis fst_conv)+
  then show "wf_poll (fst ?s) \<and> (\<forall>n x. pl_nodes (fst s) n = Some x \<longrightarrow> pl_nodes (fst ?s) n = Some x) \<and>
    (\<forall>fd' \<in> watched_fds (fst s). pl_kernel (fst ?s) fd' = pl_kernel (fst s) fd')"
    using wf accept_loop_poll [of "(fst s, _)"] by auto
qed

text \<open>So the server's loop never follows the address of a node that is gone.\<close>

lemma server_dispatch_safe:
  assumes "wf_poll p" "distinct (map (\<lambda>(ev, n, ok). n) es)"
    and "list_all (\<lambda>(ev, n, ok). pl_nodes p n \<noteq> None \<and> (is_hup ev \<longrightarrow> ok)) es"
  shows "\<exists>p' w'. poll_dispatch (run_callback ntop show_port E) (Events es) (p, w) = Inr (True, p', w') \<and> wf_poll p'"
  using dispatch_events_safe [OF run_callback_only_adds, of "(p, w)" es ntop show_port E] assms
  by (auto simp: poll_dispatch_def)

section \<open>Watched clients are alive\<close>

text \<open>
  Every client callback in the poll is bound to a client that is still in the server's list,
  and to no other node.
\<close>

definition server_wf :: "server_poll \<times> server \<Rightarrow> bool" where
  "server_wf ps \<longleftrightarrow> wf_poll (fst ps) \<and> (\<forall>i \<in> fst ` set (sv_clients (snd ps)). i < sv_next (snd ps)) \<and>
     (\<forall>n fd i. pl_nodes (fst ps) n = Some (fd, Some (ClientCb i)) \<longrightarrow> i \<in> fst ` set (sv_clients (snd ps))) \<and>
     (\<forall>n n' fd fd' i. pl_nodes (fst ps) n = Some (fd, Some (ClientCb i)) \<longrightarrow>
        pl_nodes (fst ps) n' = Some (fd', Some (ClientCb i)) \<longrightarrow> n = n')"

lemma server_wfD:
  assumes "server_wf ps"
  shows "wf_poll (fst ps)" "i \<in> fst ` set (sv_clients (snd ps)) \<Longrightarrow> i < sv_next (snd ps)"
    "pl_nodes (fst ps) n = Some (fd, Some (ClientCb i)) \<Longrightarrow> i \<in> fst ` set (sv_clients (snd ps))"
    "pl_nodes (fst ps) n = Some (fd, Some (ClientCb i)) \<Longrightarrow> pl_nodes (fst ps) n' = Some (fd', Some (ClientCb i)) \<Longrightarrow> n = n'"
  using assms unfolding server_wf_def by blast+

lemma server_wfI:
  assumes "wf_poll (fst ps)" "\<And>i. i \<in> fst ` set (sv_clients (snd ps)) \<Longrightarrow> i < sv_next (snd ps)"
    and "\<And>n fd i. pl_nodes (fst ps) n = Some (fd, Some (ClientCb i)) \<Longrightarrow> i \<in> fst ` set (sv_clients (snd ps))"
    and "\<And>n n' fd fd' i. pl_nodes (fst ps) n = Some (fd, Some (ClientCb i)) \<Longrightarrow>
      pl_nodes (fst ps) n' = Some (fd', Some (ClientCb i)) \<Longrightarrow> n = n'"
  shows "server_wf ps"
  unfolding server_wf_def
proof (intro conjI ballI allI impI)
  show "wf_poll (fst ps)" by (rule assms(1))
qed (erule assms(2) | erule assms(3) | (erule assms(4), assumption))+

lemma add_fd_nodes:
  assumes "wf_poll p" "add_fd ok fd m cb p = (b, p')" "pl_nodes p' n = Some x"
  shows "pl_nodes p n = Some x \<or> n = pl_next p \<and> x = (fd, cb)"
  using assms by (auto simp: add_fd_def Let_def erase_node_def split: option.splits if_splits)

lemma emplace_client_wf: "server_wf ps \<Longrightarrow> server_wf (emplace_client s ok ps)"
proof -
  assume wf: "server_wf ps"
  obtain p sv where ps: "ps = (p, sv)" by (cases ps)
  let ?i = "sv_next sv"
  obtain b p' where a: "add_fd ok (so_fd s) client_events (Some (ClientCb ?i)) p = (b, p')" by (metis prod.exhaust)
  define sv' where "sv' = sv\<lparr>sv_clients := sv_clients sv @ [(?i, client_new s b)], sv_next := Suc ?i\<rparr>"
  have e: "emplace_client s ok ps = (p', sv')" by (simp add: emplace_client_def ps a sv'_def)
  note d = server_wfD [OF wf, unfolded ps fst_conv snd_conv]
  have old: "pl_nodes p n \<noteq> Some (fd, Some (ClientCb ?i))" for n fd using d(2,3) by blast
  have nodes: "pl_nodes p n = Some (fd, Some (ClientCb j)) \<and> j \<noteq> ?i \<or> n = pl_next p \<and> j = ?i"
    if "pl_nodes p' n = Some (fd, Some (ClientCb j))" for n fd j
    using add_fd_nodes [OF d(1) a that] old by auto
  show ?thesis unfolding e
  proof (rule server_wfI; simp only: fst_conv snd_conv)
    show "wf_poll p'" by (rule add_fd_wf(1) [OF d(1) a])
    show "j < sv_next sv'" if "j \<in> fst ` set (sv_clients sv')" for j
    proof -
      have "j \<in> fst ` set (sv_clients sv) \<or> j = ?i" using that by (auto simp: sv'_def)
      then show ?thesis using d(2) [of j] by (elim disjE) (simp_all add: sv'_def)
    qed
    show "j \<in> fst ` set (sv_clients sv')" if "pl_nodes p' n = Some (fd, Some (ClientCb j))" for n fd j
      using nodes [OF that] d(3) by (auto simp: sv'_def)
    show "n = n'" if "pl_nodes p' n = Some (fd, Some (ClientCb j))" "pl_nodes p' n' = Some (fd', Some (ClientCb j))" for n n' fd fd' j
      using nodes [OF that(1)] nodes [OF that(2)] d(4) by auto
  qed
qed

lemma accept_loop_wf: "server_wf ps \<Longrightarrow> server_wf (accept_loop ntop show_port rs ps)"
proof (induction rs arbitrary: ps)
  case Nil
  then show ?case by (cases ps) (simp add: server_wf_def)
next
  case (Cons r rs)
  obtain p sv where ps: "ps = (p, sv)" by (cases ps)
  show ?case
  proof (cases r)
    case (Inl e)
    then show ?thesis using Cons.prems by (simp add: ps server_wf_def)
  next
    case (Inr q)
    obtain fd addr ins outs ok where q: "q = (fd, addr, ins, outs, ok)" by (metis prod_cases5)
    show ?thesis using Cons.IH [OF emplace_client_wf [OF Cons.prems]] by (simp add: Inr q ps Let_def)
  qed
qed

lemma accept_cb_wf: "server_wf ps \<Longrightarrow> server_wf (accept_cb ntop show_port events ps)"
  by (simp add: accept_cb_def accept_loop_wf)

lemma keys_update: "i \<in> fst ` set m \<Longrightarrow> fst ` set (AList.update i v m) = fst ` set m"
  using dom_update [of i v m] by auto

lemma map_of_key: "map_of m i = Some v \<Longrightarrow> i \<in> fst ` set m"
  by (metis map_of_eq_None_iff option.distinct(1))

lemma set_client_wf:
  assumes "server_wf (p, sv)" "map_of (sv_clients sv) i = Some cl" shows "server_wf (p, set_client i cl' sv)"
proof -
  have "fst ` set (sv_clients (set_client i cl' sv)) = fst ` set (sv_clients sv)" "sv_next (set_client i cl' sv) = sv_next sv"
    using keys_update [OF map_of_key [OF assms(2)]] by (simp_all add: set_client_def)
  then show ?thesis using assms(1) by (simp add: server_wf_def)
qed

lemma erase_client_wf:
  assumes "server_wf (p, sv)" "pl_nodes p n = Some (fd, Some (ClientCb i))" "pl_kernel p fd = None"
  shows "server_wf (erase_node n p, erase_client i sv)"
proof -
  note d = server_wfD [OF assms(1), unfolded fst_conv snd_conv]
  have keys: "fst ` set (sv_clients (erase_client i sv)) = fst ` set (sv_clients sv) - {i}"
    by (auto simp: erase_client_def)
  have nodes: "pl_nodes (erase_node n p) = (pl_nodes p)(n := None)" by (simp add: erase_node_def assms(2))
  show ?thesis
  proof (rule server_wfI; simp only: fst_conv snd_conv)
    show "wf_poll (erase_node n p)" by (rule erase_node_wf [OF d(1)]) (use assms(2,3) in auto)
    show "j < sv_next (erase_client i sv)" if "j \<in> fst ` set (sv_clients (erase_client i sv))" for j
      using that d(2) by (simp add: keys) (simp add: erase_client_def)
    show "j \<in> fst ` set (sv_clients (erase_client i sv))" if "pl_nodes (erase_node n p) m = Some (fd', Some (ClientCb j))" for m fd' j
      using that d(3) d(4) [OF assms(2), of m fd'] unfolding keys nodes by (auto split: if_splits)
    show "m = m'" if "pl_nodes (erase_node n p) m = Some (fd', Some (ClientCb j))"
        "pl_nodes (erase_node n p) m' = Some (fd'', Some (ClientCb j))" for m m' fd' fd'' j
      using that d(4) unfolding nodes by (auto split: if_splits)
  qed
qed

text \<open>What an event does: its callback, then the end of the node if the descriptor hung up.\<close>

lemma dispatch_event_result:
  assumes "wf_poll p" "pl_nodes p n = Some (fd, cb)" "is_hup ev \<longrightarrow> del_ok"
    and "p1 = (if is_hup ev then p\<lparr>pl_kernel := (pl_kernel p)(fd := None)\<rparr> else p)"
    and "s2 = (case cb of Some f \<Rightarrow> run_callback ntop show_port E f fd (xlate_epoll_to_mask ev) (p1, w) | None \<Rightarrow> (p1, w))"
  shows "dispatch_event (run_callback ntop show_port E) (ev, n, del_ok) (p, w) =
      Inr (if is_hup ev then (erase_node n (fst s2), snd s2) else s2)"
    "pl_nodes (fst s2) n = Some (fd, cb)" "pl_kernel (fst s2) fd = pl_kernel p1 fd"
proof -
  have wf1: "wf_poll p1" using assms(1) kernel_entry_dropped_wf [of p fd] by (auto simp: assms(4))
  have n1: "pl_nodes p1 n = Some (fd, cb)" using assms(2) by (simp add: assms(4))
  have w: "fd \<in> watched_fds p1" using wf_pollD(2) [OF wf1, of n fd cb] n1 by (simp add: watched_fds_def)
  show n2: "pl_nodes (fst s2) n = Some (fd, cb)" "pl_kernel (fst s2) fd = pl_kernel p1 fd"
    using only_addsD [OF run_callback_only_adds, of "(p1, w)"] wf1 n1 w by (cases cb; simp add: assms(5))+
  show "dispatch_event (run_callback ntop show_port E) (ev, n, del_ok) (p, w) =
      Inr (if is_hup ev then (erase_node n (fst s2), snd s2) else s2)"
    using assms(2,3) n2(1) by (cases "is_hup ev"; cases cb) (simp_all add: dispatch_event_def Let_def is_hup_def assms(4,5))
qed

text \<open>A node that is bound to no client may go.\<close>

lemma erase_unbound_node_wf:
  assumes "server_wf (q, sv)" "pl_nodes q n = Some (fd, cb)" "cb = None \<or> cb = Some AcceptCb" "pl_kernel q fd = None"
  shows "server_wf (erase_node n q, sv)"
proof -
  note d = server_wfD [OF assms(1), unfolded fst_conv snd_conv]
  have nodes: "pl_nodes (erase_node n q) = (pl_nodes q)(n := None)" by (simp add: erase_node_def assms(2))
  show ?thesis
    by (rule server_wfI; simp only: fst_conv snd_conv nodes)
      (use d assms(2,4) erase_node_wf [OF d(1), of n] in \<open>auto split: if_splits\<close>)
qed

text \<open>One event, in a process that survives it.\<close>

lemma server_event_wf:
  assumes "server_wf (p, sv)" "pl_nodes p n = Some (fd, cb)" "is_hup ev \<longrightarrow> del_ok"
    and "dispatch_event (run_callback ntop show_port E) (ev, n, del_ok) (p, Running sv) = Inr (p', Running sv')"
  shows "server_wf (p', sv')"
proof -
  let ?m = "xlate_epoll_to_mask ev" and ?run = "run_callback ntop show_port E"
  define p1 where "p1 = (if is_hup ev then p\<lparr>pl_kernel := (pl_kernel p)(fd := None)\<rparr> else p)"
  define s2 where "s2 = (case cb of Some f \<Rightarrow> ?run f fd ?m (p1, Running sv) | None \<Rightarrow> (p1, Running sv))"
  have wf1: "server_wf (p1, sv)"
    using assms(1) kernel_entry_dropped_wf [of p fd] by (auto simp: p1_def server_wf_def)
  have wfp: "wf_poll p" using server_wfD(1) [OF assms(1)] by simp
  note ev = dispatch_event_result [OF wfp assms(2,3) p1_def s2_def]
  have res: "(if is_hup ev then (erase_node n (fst s2), snd s2) else s2) = (p', Running sv')"
    using ev(1) assms(4) by simp
  have sv2: "snd s2 = Running sv'" using res by (auto split: if_splits)
  have k2: "is_hup ev \<Longrightarrow> pl_kernel (fst s2) fd = None" using ev(3) by (simp add: p1_def)
  consider (none) "cb = None" | (accept) "cb = Some AcceptCb" | (client) i where "cb = Some (ClientCb i)"
    by (metis callback.exhaust option.exhaust)
  then show ?thesis
  proof cases
    case none
    then have "s2 = (p1, Running sv)" by (simp add: s2_def)
    then show ?thesis using res wf1 erase_unbound_node_wf [OF wf1] ev(2) k2 none by (auto split: if_splits)
  next
    case accept
    define r where "r = accept_cb ntop show_port ?m (p1, sv)"
    have s2: "s2 = (fst r, Running (snd r))"
      by (simp add: s2_def accept run_callback_def case_prod_beta r_def)
    have "server_wf (fst r, snd r)" using accept_cb_wf [OF wf1] by (simp add: r_def)
    then show ?thesis using res erase_unbound_node_wf [of "fst r" "snd r"] ev(2) k2 accept unfolding s2 by (auto split: if_splits)
  next
    case (client i)
    obtain cl where cl: "map_of (sv_clients sv) i = Some cl"
      using server_wfD(3) [OF assms(1), of n fd i] assms(2) client by (metis fst_conv snd_conv map_of_eq_None_iff not_None_eq)
    show ?thesis
    proof (cases "is_hup ev")
      case True
      then have "handle_dispatch E ?m cl = Some (Inr (Erased (clear_flag e_polling cl)))"
        by (simp add: handle_dispatch_def is_hup_def)
      then have "s2 = (p1, Running (erase_client i sv))"
        using cl client by (simp add: s2_def run_callback_def client_destroy_def)
      then show ?thesis using res True erase_client_wf [OF wf1, of n fd i] ev(2) k2 client by auto
    next
      case False
      then have "\<exists>cl1. s2 = (p1, Running (set_client i cl1 sv))"
        using cl client sv2
        by (auto simp: s2_def run_callback_def handle_dispatch_def is_hup_def Let_def split: option.splits sum.splits if_splits)
      then show ?thesis using res False set_client_wf [OF wf1 cl] sv2 by auto
    qed
  qed
qed

text \<open>A process that was dead or stuck before an event stays so, and the poll keeps its nodes.\<close>

lemma dispatch_event_stopped:
  assumes "dispatch_event (run_callback ntop show_port E) e (p, w) = Inr (p', Running sv')"
  shows "\<exists>sv. w = Running sv"
  using assms
  by (cases w) (auto simp: dispatch_event_def run_callback_def Let_def split: prod.splits option.splits if_splits)

lemma dispatch_events_running:
  "dispatch_events (run_callback ntop show_port E) es (p, w) = Inr (p', Running sv') \<Longrightarrow> \<exists>sv. w = Running sv"
proof (induction es arbitrary: p w)
  case (Cons e es)
  obtain s1 where s1: "dispatch_event (run_callback ntop show_port E) e (p, w) = Inr s1"
      "dispatch_events (run_callback ntop show_port E) es s1 = Inr (p', Running sv')"
    using Cons.prems by (auto simp: bindE_eq_Inr)
  obtain p1 w1 where p1: "s1 = (p1, w1)" by (cases s1)
  then obtain sv1 where "w1 = Running sv1" using Cons.IH s1(2) by blast
  then show ?case using dispatch_event_stopped s1(1) p1 by blast
qed simp

text \<open>The first of several events, and what it leaves the others.\<close>

lemma server_event_step:
  assumes "server_wf (p, sv)" "distinct (map (\<lambda>(ev, n, ok). n) ((ev, n, ok) # es))"
    and "list_all (\<lambda>(ev, n, ok). pl_nodes p n \<noteq> None \<and> (is_hup ev \<longrightarrow> ok)) ((ev, n, ok) # es)"
    and "dispatch_events (run_callback ntop show_port E) ((ev, n, ok) # es) (p, Running sv) = Inr (p', Running sv')"
  obtains p1 sv1 where "dispatch_event (run_callback ntop show_port E) (ev, n, ok) (p, Running sv) = Inr (p1, Running sv1)"
    "dispatch_events (run_callback ntop show_port E) es (p1, Running sv1) = Inr (p', Running sv')" "server_wf (p1, sv1)"
    "list_all (\<lambda>(ev, n, ok). pl_nodes p1 n \<noteq> None \<and> (is_hup ev \<longrightarrow> ok)) es"
    "list_all (\<lambda>(_, n', _). n' \<noteq> n \<and> pl_nodes p1 n' = pl_nodes p n') es"
proof -
  obtain fd cb where nd: "pl_nodes p n = Some (fd, cb)" "is_hup ev \<longrightarrow> ok" using assms(3) by auto
  obtain s1 where s1: "dispatch_event (run_callback ntop show_port E) (ev, n, ok) (p, Running sv) = Inr s1"
      "dispatch_events (run_callback ntop show_port E) es s1 = Inr (p', Running sv')"
    using assms(4) by (auto simp: bindE_eq_Inr)
  obtain p1 w1 where p1: "s1 = (p1, w1)" by (cases s1)
  obtain sv1 where w1: "w1 = Running sv1" using dispatch_events_running [OF s1(2) [unfolded p1]] by blast
  have wf1: "server_wf (p1, sv1)"
    by (rule server_event_wf [OF assms(1) nd]) (use s1(1) in \<open>simp add: p1 w1\<close>)
  have keep: "n' \<noteq> n \<and> pl_nodes p n' \<noteq> None \<and> pl_nodes p1 n' = pl_nodes p n' \<and> (is_hup ev' \<longrightarrow> ok')"
    if m: "(ev', n', ok') \<in> set es" for ev' n' ok'
  proof -
    have "n' \<in> (\<lambda>(ev, n, ok). n) ` set es" using m by force
    moreover have "n \<notin> (\<lambda>(ev, n, ok). n) ` set es" using assms(2) by simp
    ultimately have ne: "n' \<noteq> n" by metis
    obtain x where x: "pl_nodes p n' = Some x" "is_hup ev' \<longrightarrow> ok'"
      using assms(3) m by (auto simp: list_all_iff)
    obtain s' where "dispatch_event (run_callback ntop show_port E) (ev, n, ok) (p, Running sv) = Inr s'"
        "\<forall>n' x. n' \<noteq> n \<longrightarrow> pl_nodes p n' = Some x \<longrightarrow> pl_nodes (fst s') n' = Some x"
      using dispatch_event_safe [OF _ run_callback_only_adds [of ntop show_port E], of "(p, Running sv)" n fd cb ev ok]
        server_wfD(1) [OF assms(1)] nd by (simp only: fst_conv) blast
    then show ?thesis using x ne s1(1) by (cases x) (auto simp: p1)
  qed
  show thesis
  proof (rule that)
    show "dispatch_event (run_callback ntop show_port E) (ev, n, ok) (p, Running sv) = Inr (p1, Running sv1)" using s1(1) by (simp add: p1 w1)
    show "dispatch_events (run_callback ntop show_port E) es (p1, Running sv1) = Inr (p', Running sv')" using s1(2) by (simp add: p1 w1)
    show "server_wf (p1, sv1)" by (rule wf1)
    show "list_all (\<lambda>(ev, n, ok). pl_nodes p1 n \<noteq> None \<and> (is_hup ev \<longrightarrow> ok)) es"
      using keep by (fastforce simp: list_all_iff)
    show "list_all (\<lambda>(_, n', _). n' \<noteq> n \<and> pl_nodes p1 n' = pl_nodes p n') es" using keep by (fastforce simp: list_all_iff)
  qed
qed

lemma server_events_wf:
  "server_wf (p, sv) \<Longrightarrow> distinct (map (\<lambda>(ev, n, ok). n) es) \<Longrightarrow>
   list_all (\<lambda>(ev, n, ok). pl_nodes p n \<noteq> None \<and> (is_hup ev \<longrightarrow> ok)) es \<Longrightarrow>
   dispatch_events (run_callback ntop show_port E) es (p, Running sv) = Inr (p', Running sv') \<Longrightarrow> server_wf (p', sv')"
proof (induction es arbitrary: p sv)
  case (Cons e es)
  obtain ev n ok where e: "e = (ev, n, ok)" by (metis prod_cases3)
  obtain p1 sv1 where "dispatch_event (run_callback ntop show_port E) (ev, n, ok) (p, Running sv) = Inr (p1, Running sv1)"
    "dispatch_events (run_callback ntop show_port E) es (p1, Running sv1) = Inr (p', Running sv')" "server_wf (p1, sv1)"
    "list_all (\<lambda>(ev, n, ok). pl_nodes p1 n \<noteq> None \<and> (is_hup ev \<longrightarrow> ok)) es"
    "list_all (\<lambda>(_, n', _). n' \<noteq> n \<and> pl_nodes p1 n' = pl_nodes p n') es"
    by (rule server_event_step [OF Cons.prems [unfolded e]])
  then show ?case using Cons.IH Cons.prems(2) by simp
qed simp

text \<open>The server starts in such a state, with the listening socket in an empty poll.\<close>

lemma start_wf:
  assumes "epoll_new created = Inr p0" "add_fd ctl_ok (so_fd s) ev_read (Some AcceptCb) p0 = (True, p)"
  shows "server_wf (p, server_start s backlog)"
proof -
  have "p0 = \<lparr>pl_callbacks = (\<lambda>_. None), pl_nodes = (\<lambda>_. None), pl_kernel = (\<lambda>_. None), pl_next = 0\<rparr>"
    using assms(1) by (cases created; simp add: epoll_new_def assertr_def)
  then have p0: "wf_poll p0" "pl_nodes p0 = (\<lambda>_. None)" by (simp_all add: wf_poll_def)
  have "pl_nodes p n \<noteq> Some (fd, Some (ClientCb i))" for n fd i
    using add_fd_nodes [OF p0(1) assms(2), of n "(fd, Some (ClientCb i))"] p0(2) by auto
  then show ?thesis
    using add_fd_wf(1) [OF p0(1) assms(2)] by (intro server_wfI) (auto simp: server_start_def)
qed

section \<open>Generated keys are loaded again\<close>

lemma find_typed_Inr:
  "find_typed B L t section key m = Inr v \<longleftrightarrow>
   (\<exists>e. lookup (st_fold L) section key m = Some e \<and> (ndebug B \<or> ci_type (en_def e) = t) \<and> en_value e = v)"
  by (auto simp: find_typed_def bindE_eq_Inr find_item_lookup assertd_def split: if_splits)

lemma find_typed_other:
  assumes "set_typed B L t section key v m = Inr m'" "st_fold L key' \<noteq> st_fold L key"
    and "find_typed B L t' section key' m = Inr w"
  shows "find_typed B L t' section key' m' = Inr w"
  using set_typed_lookup(2) [OF assms(1), of "section" key'] assms(2,3) by (auto simp: find_typed_Inr)

lemma load_keys_stored:
  assumes "find_typed B L vt_string section ''crypt_k'' m = Inr (cr_encode C (bn_bn2bin k))"
    and "find_typed B L vt_string section ''crypt_n'' m = Inr (cr_encode C (bn_bn2bin n))"
    and "bn_num_bytes k = kKeySize" "bn_num_bytes n = kKeySize" "length (cr_load_junk C) = kKeySize"
    and "\<And>bs. length bs = kKeySize \<Longrightarrow> cr_decode C (cr_encode C bs) kKeySize = Some bs \<and> cr_encode C bs \<noteq> []"
  shows "load_keys B L C m section = Inr (True, k, n)"
proof -
  have l: "length (bn_bn2bin k) = kKeySize" "length (bn_bn2bin n) = kKeySize" using assms(3,4) by (simp_all add: bn_bn2bin_def)
  have "load_key B (cr_decode C) (cr_load_junk C) (cr_encode C (bn_bn2bin k)) = Inr k"
    "load_key B (cr_decode C) (cr_load_junk C) (cr_encode C (bn_bn2bin n)) = Inr n"
    using load_key_encoded [of "cr_decode C" "cr_encode C" _ "cr_load_junk C" B] assms(5,6) l by simp_all
  then show ?thesis using assms(1,2,6) l by (simp add: load_keys_def config_get_string_def)
qed

lemma generated_keys_stored:
  assumes "generate_daemon_keys B L C m = Inr m'" "cr_primes C = (Some k, Some n)"
    and "bn_num_bytes k = kKeySize" "bn_num_bytes n = kKeySize"
    and "cr_key_junk C = (jk, jn, jx)" "length jk = kKeySize" "length jn = kKeySize" "length jx = kKeySize"
    and "distinct (map (st_fold L) [''crypt_k'', ''crypt_n'', ''crypt_x''])"
  shows "find_typed B L vt_string ''gate'' ''crypt_k'' m' = Inr (cr_encode C (bn_bn2bin k))"
    "find_typed B L vt_string ''gate'' ''crypt_n'' m' = Inr (cr_encode C (bn_bn2bin n))"
    "\<exists>g x_key. config_get_uint B L ''gate'' ''crypt_g'' m = Inr g \<and>
       mem_write jx 0 (bn_bn2bin (bn_mod_exp (unat g) k n)) = Inr x_key \<and>
       find_typed B L vt_string ''gate'' ''crypt_x'' m' = Inr (cr_encode C x_key)"
proof -
  obtain g ks ns xs c1 c2 where s: "config_get_uint B L ''gate'' ''crypt_g'' m = Inr g"
      "crypto_generate B C g = Inr (ks, ns, xs)" "config_set_string B L ''gate'' ''crypt_k'' ks m = Inr c1"
      "config_set_string B L ''gate'' ''crypt_n'' ns c1 = Inr c2" "config_set_string B L ''gate'' ''crypt_x'' xs c2 = Inr m'"
    using assms(1) by (auto simp: generate_daemon_keys_def bindE_eq_Inr)
  obtain x_key where x: "mem_write jx 0 (bn_bn2bin (bn_mod_exp (unat g) k n)) = Inr x_key"
      "(ks, ns, xs) = (cr_encode C (bn_bn2bin k), cr_encode C (bn_bn2bin n), cr_encode C x_key)"
    using generate_keys_eq [OF assms(6-8,3,4) refl, where B = B and enc = "cr_encode C" and g = g] s(2) assms(2,5) by (auto simp: crypto_generate_def)
  note st = s(3-5) [unfolded config_set_string_def]
  note f = find_set_typed [OF st(1)] find_set_typed [OF st(2)] find_set_typed [OF st(3)]
  show "find_typed B L vt_string ''gate'' ''crypt_k'' m' = Inr (cr_encode C (bn_bn2bin k))"
    using find_typed_other [OF st(3) _ find_typed_other [OF st(2) _ f(1)]] assms(9) x(2) by auto
  show "find_typed B L vt_string ''gate'' ''crypt_n'' m' = Inr (cr_encode C (bn_bn2bin n))"
    using find_typed_other [OF st(3) _ f(2)] assms(9) x(2) by auto
  show "\<exists>g x_key. config_get_uint B L ''gate'' ''crypt_g'' m = Inr g \<and>
       mem_write jx 0 (bn_bn2bin (bn_mod_exp (unat g) k n)) = Inr x_key \<and>
       find_typed B L vt_string ''gate'' ''crypt_x'' m' = Inr (cr_encode C x_key)"
    using s(1) x f(3) by auto
qed

section \<open>The daemon's settings\<close>

text \<open>
  What the daemon asks for is there, with the type it asks for: in the table the server starts
  from, and after reading any file into it.
\<close>

definition item_there :: "(string \<Rightarrow> string) \<Rightarrow> value_type \<Rightarrow> string \<Rightarrow> string \<Rightarrow> configmap \<Rightarrow> bool" where
  "item_there f t section key m \<longleftrightarrow> (\<exists>e. lookup f section key m = Some e \<and> ci_type (en_def e) = t)"

lemma umap_find_all2:
  assumes "list_all2 R m m'" "\<And>a b. R a b \<Longrightarrow> fst a = fst b" "umap_find f k m = Some a"
  shows "\<exists>b. umap_find f k m' = Some b \<and> R a b"
  using assms(1,3)
proof (induction rule: list_all2_induct)
  case Nil
  then show ?case by simp
next
  case (Cons x xs y ys)
  then show ?case using assms(2) [OF Cons.hyps(1)] by (cases x; cases y) (auto split: if_splits)
qed

lemma same_items_lookup:
  assumes "same_items m m'" "lookup f section key m = Some e"
  shows "\<exists>e'. lookup f section key m' = Some e' \<and> en_def e' = en_def e"
proof -
  obtain a b where a: "umap_find f section m = Some a" "umap_find f key (snd a) = Some b" "e = snd b"
    using assms(2) by (auto simp: lookup_def umap.value_of_def bind_eq_Some_conv)
  obtain a' where a': "umap_find f section m' = Some a'" "same_section a a'"
    using umap_find_all2 [OF assms(1) [unfolded same_items_def] _ a(1)] by (auto simp: same_section_def)
  obtain b' where "umap_find f key (snd a') = Some b'" "same_entry b b'"
    using umap_find_all2 [of same_entry "snd a" "snd a'" f key b] a'(2) a(2) by (auto simp: same_section_def same_entry_def)
  then show ?thesis using a a' by (auto simp: lookup_def umap.value_of_def same_entry_def)
qed

lemma item_there_same: "same_items m m' \<Longrightarrow> item_there f t section key m \<Longrightarrow> item_there f t section key m'"
  using same_items_lookup by (fastforce simp: item_there_def)

lemma item_there_find: "item_there (st_fold L) t section key m \<Longrightarrow> \<exists>v. find_typed B L t section key m = Inr v"
  by (auto simp: item_there_def find_typed_Inr)

text \<open>All it takes is that case folding keeps the names of the table apart.\<close>

definition names_apart :: "(string \<Rightarrow> string) \<Rightarrow> config_item list \<Rightarrow> bool" where
  "names_apart f items \<longleftrightarrow>
     distinct (map (\<lambda>it. (f (ci_section it), f (ci_key it))) items)"

lemma lookup_config_add:
  "lookup (st_fold L) s k (config_add L def m) =
   (if st_fold L s = st_fold L (ci_section def) \<and> st_fold L k = st_fold L (ci_key def)
    then Some \<lparr>en_def = def, en_value = ci_value def\<rparr> else lookup (st_fold L) s k m)"
proof -
  let ?f = "st_fold L"
  have cong: "?f a = ?f b \<Longrightarrow> umap.value_of ?f a x = umap.value_of ?f b x" for a b and x :: "'x umap"
    by (induction x) (auto simp: umap.value_of_def)
  show ?thesis
    by (cases "umap_find ?f (ci_section def) m")
      (auto simp: config_add_def Let_def lookup_def umap.value_of_put cong [of s "ci_section def"] umap.value_of_def [of ?f "ci_section def"]
        umap.value_of_def [of ?f k "[]"] umap.value_of_def [of ?f k "[_]"])
qed

lemma config_parser_there:
  assumes "names_apart (st_fold L) items" "it \<in> set items"
  shows "item_there (st_fold L) (ci_type it) (ci_section it) (ci_key it) (config_parser L items)"
proof -
  let ?n = "\<lambda>it. (st_fold L (ci_section it), st_fold L (ci_key it))"
  have keep: "?n it \<notin> ?n ` set ds \<Longrightarrow>
      lookup (st_fold L) (ci_section it) (ci_key it) (fold (config_add L) ds m) = lookup (st_fold L) (ci_section it) (ci_key it) m" for ds m
    by (induction ds arbitrary: m) (auto simp: lookup_config_add)
  obtain xs ys where items: "items = xs @ it # ys" using assms(2) by (meson split_list)
  then have "?n it \<notin> ?n ` set ys" using assms(1) by (simp add: names_apart_def)
  from keep [OF this, of "config_add L it (fold (config_add L) xs [])"]
  have "lookup (st_fold L) (ci_section it) (ci_key it) (config_parser L items) = Some \<lparr>en_def = it, en_value = ci_value it\<rparr>"
    by (simp add: config_parser_def items lookup_config_add)
  then show ?thesis by (simp add: item_there_def)
qed

text \<open>So no getter of the daemon can fail, whatever the configuration file holds.\<close>

lemma settings_typed:
  assumes "names_apart (st_fold L) s_daemonConfig" "it \<in> set s_daemonConfig"
    and "config_read L file (config_parser L s_daemonConfig) = (ok, m, log)"
  shows "\<exists>v. find_typed B L (ci_type it) (ci_section it) (ci_key it) m = Inr v"
  by (rule item_there_find [OF item_there_same [OF config_read_same [OF assms(3)] config_parser_there [OF assms(1,2)]]])

end
