(* ===== verification/Theme_Faults.thy ===== *)
theory Theme_Faults
  imports Theme_Session
begin

text \<open>
  How a turn of a connection can go wrong: every operation of the read path, the write path and
  the handlers ends in an access outside a buffer or, in a build that checks them, in a failed
  assertion, if it faults at all. A null pointer is not followed as long as a message is awaited,
  and nothing is divided by zero since no message has a redundant buffer of empty elements.
\<close>

section \<open>Faults a turn may end in\<close>

definition tame_fault :: "build \<Rightarrow> fault \<Rightarrow> bool" where
  "tame_fault B e \<longleftrightarrow> e = OutOfBounds \<or> e = AssertFailed \<and> \<not> ndebug B"

definition tame :: "build \<Rightarrow> 'a res \<Rightarrow> bool" where
  "tame B r \<longleftrightarrow> (case r of Inl e \<Rightarrow> tame_fault B e | Inr _ \<Rightarrow> True)"

lemma tameD: "tame B r \<Longrightarrow> r = Inl e \<Longrightarrow> tame_fault B e"
  by (simp add: tame_def)

lemma tame_basic [simp]:
  "tame B (Inr x)" "tame B (mem_read m off n)" "tame B (mem_write m off bs)" "tame B (assertd B b)" "tame B (Inl OutOfBounds)"
  by (simp_all add: tame_def tame_fault_def mem_read_def mem_write_def assertd_def)

lemma tame_bind [intro!]: "tame B r \<Longrightarrow> (\<And>x. r = Inr x \<Longrightarrow> tame B (f x)) \<Longrightarrow> tame B (bindE r f)"
  by (cases r) (simp_all add: tame_def)

section \<open>The read and the write path\<close>

text \<open>No redundant count of a message is divided by an element size of zero.\<close>

definition divides :: "net_field \<Rightarrow> bool" where
  "divides f \<longleftrightarrow> (nf_type f = e_buffer_redundant \<longrightarrow> nf_elementsz f \<noteq> 0)"

abbreviation countable :: "net_struct \<Rightarrow> bool" where
  "countable ns \<equiv> list_all divides (ns_fields ns)"

lemma tame_extract_integer [simp]: "tame B (extract_integer B f m off)"
  by (auto simp: extract_integer_def)

lemma tame_elementcount: "divides bf \<Longrightarrow> tame B (extract_elementcount B sf bf m off)"
  by (auto simp: extract_elementcount_def divides_def)

lemma tame_calc: "countable ns \<Longrightarrow> tame B (calc_field_sz B ns i p)"
  by (auto simp: calc_field_sz_def list_all_length intro!: tame_elementcount split: ptr.splits)

lemma tame_sizes_read: "countable ns \<Longrightarrow> tame B (sizes_read B ns buf is m w)"
  by (induction B ns buf "is" m w rule: sizes_read.induct) (auto intro: tame_calc)

lemma tame_sizes_left: "countable ns \<Longrightarrow> tame B (sizes_left B ns cur p is b a r)"
  by (induction B ns cur p "is" b a r rule: sizes_left.induct) (auto intro: tame_calc)

lemma tame_alloc [simp]: "tame B (alloc_buf n b st)"
  by (auto simp: alloc_buf_def Let_def split: option.splits)

lemma alloc_buf_there: "alloc_buf n b st = Inr st' \<Longrightarrow> \<exists>m. rd_buf st' = Some m"
  by (auto simp: alloc_buf_def Let_def bindE_eq_Inr split: option.splits)

lemma tame_decrypt: "countable ns \<Longrightarrow> rd_buf st \<noteq> None \<Longrightarrow> tame B (decrypt_fields B ks ns data mp wp n st dec)"
proof (induction B ks ns data mp wp n st dec rule: decrypt_fields.induct)
  case (1 B ks ns data mp wp n st dec)
  then obtain m where m: "rd_buf st = Some m" by blast
  show ?case
    by (subst decrypt_fields.simps) (auto simp: Let_def m 1(2) intro!: tame_bind tame_calc 1(1))
qed

lemma tame_pass:
  assumes "rd_struct (cb_read c) = Some ns" "countable ns" shows "tame B (resume_read_pass B ks c)"
  by (auto simp: resume_read_pass_def Let_def assms split: option.splits prod.splits
      intro!: tame_bind tame_decrypt tame_sizes_read tame_sizes_left dest!: alloc_buf_there)

lemma tame_resume:
  assumes "resume_read B ks c = Some r" "rd_struct (cb_read c) = Some ns" "countable ns" shows "tame B r"
  using assms
proof (induction rule: resume_read_induct)
  case (again c c1 r)
  then show ?case using read_pass_frame [of B ks c] by (auto simp: pass_frame_def read_frame_def)
next
  case (fault c e)
  then show ?case using tame_pass [of c ns B ks] by (simp add: tame_def)
qed simp

lemma tame_handle_read:
  "handle_read B ks c = Some r \<Longrightarrow> rd_struct (cb_read c) = Some ns \<Longrightarrow> countable ns \<Longrightarrow> tame B r"
  using tame_resume [of B ks c _ ns]
  by (auto simp: handle_read_def tame_def split: option.splits sum.splits if_splits)

lemma tame_write_sizes: "countable ns \<Longrightarrow> tame B (write_sizes B ns buf is w)"
  by (induction B ns buf "is" w rule: write_sizes.induct) (auto intro: tame_calc)

lemma tame_encrypt: "countable ns \<Longrightarrow> tame B (encrypt_fields B ks ns buf is mp wp out ec)"
  by (induction B ks ns buf "is" mp wp out ec rule: encrypt_fields.induct) (auto simp: Let_def intro: tame_calc)

lemma tame_cli_write: "countable ns \<Longrightarrow> tame (en_build E) (cli_write E ns buf cl)"
  by (auto simp: cli_write_def enqueue_write_def Let_def intro: tame_write_sizes tame_encrypt split: prod.splits)

section \<open>The handlers\<close>

lemma messages_countable [simp]:
  "countable common_connection_header" "countable common_msg_std_header" "countable common_encrypt_header"
  "countable common_encrypt_s2c" "countable (encryptMsg n)" "countable gatekeeper_pingRequest" "countable gatekeeper_fileSrvRequest"
  "countable gatekeeper_authSrvRequest" "countable gatekeeper_pingReply" "countable gatekeeper_fileSrvReply"
  by (simp_all add: message_defs NET_FIELD_defs encryptMsg_def divides_def)

lemma expected_countable: "conn_expects cl ns \<Longrightarrow> countable ns"
  by (auto simp: conn_expects_def split: if_splits)

lemma tame_server_key [simp]: "tame B (make_server_key k n csz y sz rand junk)"
  by (auto simp: make_server_key_def Let_def)

lemma tame_encrypted [simp]: "tame (en_build E) (encrypted_read E gk he count buf cl)"
  by (auto simp: encrypted_read_def handle_handshake_def handle_ydata_def Let_def intro!: tame_cli_write split: option.splits)

lemma tame_gatekeeper [simp]: "tame (en_build E) (gatekeeper_read E count buf cl)"
  by (auto simp: gatekeeper_read_def read_msg_def dispatch_msg_def handle_ping_def handle_fileSrvReq_def handle_authSrvReq_def Let_def
      intro!: tame_cli_write)

lemma tame_handler: "tame (en_build E) (handler_read E buf cl)"
  by (auto simp: handler_read_def incoming_read_def split: handler.splits)

section \<open>The loop\<close>

text \<open>What the loop needs of a handler so that it only ends in such a fault.\<close>

locale careful_handler = message_handler +
  fixes B :: build
  assumes handler_tame: "tame B (hread buf cl)"
    and counts: "expects cl ns \<Longrightarrow> countable ns"
begin

lemma pump_read_tame:
  assumes "pump_read B ks hread cl = Some r" "idle cl" "has_pending_read (cl_base cl)"
  shows "tame B r"
  using assms
proof (induction rule: pump_read_induct)
  case (read_fault cl e)
  then obtain ns where "rd_struct (cb_read (cl_base cl)) = Some ns" "countable ns"
    using counts by (auto simp: idle_def has_pending_read_def)
  then show ?case using tame_handle_read [OF read_fault(1)] by (simp add: tame_def)
next
  case (handler_fault cl buf b e)
  then show ?case using handler_tame [of buf "cl\<lparr>cl_base := b\<rparr>"] by (simp add: tame_def)
next
  case (again cl buf b cl1 r)
  then show ?case using delivered_idle(3) [OF _ again(1,2)] by blast
qed (simp_all add: tame_def)

end

interpretation conn_faults: careful_handler "handler_read E" "\<lambda>cl. wf_env E \<and> conn_phase (en_build E) cl" conn_expects "en_build E" for E
  by unfold_locales (rule tame_handler, erule expected_countable)

lemma pump_write_pending: "has_pending_read (cl_base (cli_pump_write cl)) = has_pending_read (cl_base cl)"
  using pump_write_frame [of "cl_base cl"] by (simp add: cli_pump_write_def has_pending_read_def)

lemma turn_faults:
  assumes "wf_env E" "conn_idle E cl" "has_pending_read (cl_base cl)" "handle_dispatch E events cl = Some (Inl e)"
  shows "tame_fault (en_build E) e"
proof -
  define cl1 where "cl1 = (if events AND ev_write \<noteq> 0 then cli_pump_write cl else cl)"
  have "has_pending_read (cl_base cl1)" "conn_idle E cl1"
    using assms(2,3) by (simp_all add: cl1_def pump_write_pending pump_write_idle)
  moreover have "pump_read (en_build E) (en_ks E) (handler_read E) cl1 = Some (Inl e)"
    using assms(4) by (auto simp: handle_dispatch_def Let_def cl1_def split: if_splits option.splits sum.splits)
  ultimately show ?thesis using conn_faults.pump_read_tame [of E "en_ks E" cl1] assms(1) tameD conn_idle_eq by blast
qed

end
