(* ===== verification/Theme_Serving.thy ===== *)
theory Theme_Serving
  imports Theme_Server_Facts Theme_Faults
begin

text \<open>
  The daemon as a whole: what a poll does to each client, and the states the daemon can reach
  from its start through the polls of an honest kernel.
\<close>

section \<open>Clients do not disturb each other\<close>

text \<open>What the server knows of client \<open>i\<close>.\<close>

definition client_of :: "nat \<Rightarrow> server \<Rightarrow> client option" where
  "client_of i sv = map_of (sv_clients sv) i"

lemma client_of_update: "j \<noteq> i \<Longrightarrow> client_of i (set_client j cl sv) = client_of i sv"
  by (simp add: client_of_def set_client_def update_conv)

lemma map_of_without: "map_of (filter (\<lambda>(k, _). k \<noteq> j) m) i = (if i = j then None else map_of m i)"
  by (induction m) auto

lemma client_of_erase: "client_of i (erase_client j sv) = (if i = j then None else client_of i sv)"
  by (simp add: client_of_def erase_client_def map_of_without)

lemma accept_loop_keeps_client:
  "i < sv_next (snd ps) \<Longrightarrow> client_of i (snd (accept_loop ntop show_port rs ps)) = client_of i (snd ps) \<and>
    sv_next (snd ps) \<le> sv_next (snd (accept_loop ntop show_port rs ps))"
proof (induction rs arbitrary: ps)
  case Nil
  then show ?case by (cases ps) (simp add: client_of_def)
next
  case (Cons r rs)
  obtain p sv where ps: "ps = (p, sv)" by (cases ps)
  have e: "client_of i (snd (emplace_client s ok ps)) = client_of i (snd ps)" "sv_next (snd (emplace_client s ok ps)) = Suc (sv_next (snd ps))" for s ok
    using Cons.prems by (auto simp: client_of_def emplace_client_def ps map_add_def split: prod.splits option.splits)
  then have IH: "client_of i (snd (accept_loop ntop show_port rs (emplace_client s ok ps))) = client_of i (snd ps) \<and>
    sv_next (snd ps) \<le> sv_next (snd (accept_loop ntop show_port rs (emplace_client s ok ps)))" for s ok
    using Cons.IH [of "emplace_client s ok ps"] Cons.prems by simp
  show ?case
    using Cons.prems IH by (cases r) (auto simp: ps client_of_def Let_def)
qed

lemma run_callback_keeps_client:
  assumes "run_callback ntop show_port E f fd m (p, Running sv) = (p', Running sv')"
    and "i < sv_next sv" "f \<noteq> ClientCb i"
  shows "client_of i sv' = client_of i sv \<and> sv_next sv \<le> sv_next sv'"
proof (cases f)
  case AcceptCb
  then have "sv' = snd (accept_cb ntop show_port m (p, sv))"
    using assms(1) by (auto simp: run_callback_def split: prod.splits)
  then show ?thesis
    using accept_loop_keeps_client [of i "(p, sv)"] assms(2) by (simp add: accept_cb_def)
next
  case (ClientCb j)
  then have "j \<noteq> i" using assms(3) by simp
  have "(\<exists>cl1. sv' = set_client j cl1 sv) \<or> sv' = erase_client j sv"
    using assms(1) by (auto simp: run_callback_def ClientCb split: option.splits sum.splits fate.splits)
  then show ?thesis using client_of_update [OF \<open>j \<noteq> i\<close>] client_of_erase \<open>j \<noteq> i\<close>
    by (auto simp: set_client_def erase_client_def)
qed

text \<open>The callback of a node decides what an event does to the server.\<close>

lemma dispatch_event_runs:
  assumes "dispatch_event (run_callback ntop show_port E) (ev, n, ok) (p, Running sv) = Inr (p', Running sv')"
    and "pl_nodes p n = Some (fd, cb)"
  obtains p1 where "snd (case cb of Some f \<Rightarrow> run_callback ntop show_port E f fd (xlate_epoll_to_mask ev) (p1, Running sv)
      | None \<Rightarrow> (p1, Running sv)) = Running sv'"
proof
  let ?p1 = "if is_hup ev \<and> ok then p\<lparr>pl_kernel := (pl_kernel p)(fd := None)\<rparr> else p"
  show "snd (case cb of Some f \<Rightarrow> run_callback ntop show_port E f fd (xlate_epoll_to_mask ev) (?p1, Running sv)
      | None \<Rightarrow> (?p1, Running sv)) = Running sv'"
    using assms
    by (cases cb) (auto simp: dispatch_event_def Let_def is_hup_def split: option.splits if_splits)
qed

lemma dispatch_event_keeps_client:
  assumes "dispatch_event (run_callback ntop show_port E) (ev, n, ok) (p, Running sv) = Inr (p', Running sv')"
    and "i < sv_next sv" "pl_nodes p n = Some (fd, cb)" "cb \<noteq> Some (ClientCb i)"
  shows "client_of i sv' = client_of i sv \<and> sv_next sv \<le> sv_next sv'"
proof -
  obtain p1 where "snd (case cb of Some f \<Rightarrow> run_callback ntop show_port E f fd (xlate_epoll_to_mask ev) (p1, Running sv)
      | None \<Rightarrow> (p1, Running sv)) = Running sv'"
    using dispatch_event_runs [OF assms(1,3)] by blast
  then show ?thesis
    using run_callback_keeps_client [OF _ assms(2), of ntop show_port E _ fd _ p1] assms(4)
    by (cases cb) (auto simp: prod_eq_iff)
qed

definition fate_client :: "fate \<Rightarrow> client option" where
  "fate_client f = (case f of Alive cl \<Rightarrow> Some cl | Erased _ \<Rightarrow> None)"

lemma dispatch_event_turns_client:
  assumes "dispatch_event (run_callback ntop show_port E) (ev, n, ok) (p, Running sv) = Inr (p', Running sv')"
    and "pl_nodes p n = Some (fd, Some (ClientCb i))" "client_of i sv = Some cl"
  shows "\<exists>f. handle_dispatch E (xlate_epoll_to_mask ev) cl = Some (Inr f) \<and> client_of i sv' = fate_client f \<and> sv_next sv' = sv_next sv"
proof -
  obtain p1 where "snd (run_callback ntop show_port E (ClientCb i) fd (xlate_epoll_to_mask ev) (p1, Running sv)) = Running sv'"
    using dispatch_event_runs [OF assms(1,2)] by auto
  moreover have "map_of (sv_clients sv) i = Some cl" using assms(3) by (simp add: client_of_def)
  ultimately show ?thesis
    by (auto simp: run_callback_def fate_client_def client_of_erase client_of_def set_client_def update_conv erase_client_def
        map_of_without split: option.splits sum.splits fate.splits)
qed

lemma server_events_keep:
  "server_wf (p, sv) \<Longrightarrow> distinct (map (\<lambda>(ev, n, ok). n) es) \<Longrightarrow>
   list_all (\<lambda>(ev, n, ok). pl_nodes p n \<noteq> None \<and> (is_hup ev \<longrightarrow> ok)) es \<Longrightarrow>
   dispatch_events (run_callback ntop show_port E) es (p, Running sv) = Inr (p', Running sv') \<Longrightarrow> i < sv_next sv \<Longrightarrow>
   list_all (\<lambda>(ev, n, ok). \<forall>fd. pl_nodes p n \<noteq> Some (fd, Some (ClientCb i))) es \<Longrightarrow> client_of i sv' = client_of i sv"
proof (induction es arbitrary: p sv)
  case (Cons e es)
  obtain ev n ok where e: "e = (ev, n, ok)" by (metis prod_cases3)
  obtain p1 sv1 where s1: "dispatch_event (run_callback ntop show_port E) (ev, n, ok) (p, Running sv) = Inr (p1, Running sv1)"
    "dispatch_events (run_callback ntop show_port E) es (p1, Running sv1) = Inr (p', Running sv')" "server_wf (p1, sv1)"
    "list_all (\<lambda>(ev, n, ok). pl_nodes p1 n \<noteq> None \<and> (is_hup ev \<longrightarrow> ok)) es"
    "list_all (\<lambda>(_, n', _). n' \<noteq> n \<and> pl_nodes p1 n' = pl_nodes p n') es"
    by (rule server_event_step [OF Cons.prems(1-4) [unfolded e]])
  obtain fd cb where nd: "pl_nodes p n = Some (fd, cb)" "cb \<noteq> Some (ClientCb i)" using Cons.prems(3,6) by (auto simp: e)
  have i: "client_of i sv1 = client_of i sv" "i < sv_next sv1"
    using dispatch_event_keeps_client [OF s1(1) Cons.prems(5) nd] Cons.prems(5) by simp_all
  have "list_all (\<lambda>(ev, n, ok). \<forall>fd. pl_nodes p1 n \<noteq> Some (fd, Some (ClientCb i))) es"
    using Cons.prems(6) s1(5) by (fastforce simp: list_all_iff)
  then show ?case using Cons.IH [OF s1(3) _ s1(4,2) i(2)] Cons.prems(2) i(1) by simp
qed simp

lemma server_events_turn:
  "server_wf (p, sv) \<Longrightarrow> distinct (map (\<lambda>(ev, n, ok). n) es) \<Longrightarrow>
   list_all (\<lambda>(ev, n, ok). pl_nodes p n \<noteq> None \<and> (is_hup ev \<longrightarrow> ok)) es \<Longrightarrow>
   dispatch_events (run_callback ntop show_port E) es (p, Running sv) = Inr (p', Running sv') \<Longrightarrow> client_of i sv = Some cl \<Longrightarrow>
   (ev, n, ok) \<in> set es \<Longrightarrow> pl_nodes p n = Some (fd, Some (ClientCb i)) \<Longrightarrow>
   \<exists>f. handle_dispatch E (xlate_epoll_to_mask ev) cl = Some (Inr f) \<and> client_of i sv' = fate_client f"
proof (induction es arbitrary: p sv)
  case (Cons e es)
  obtain ev0 n0 ok0 where e: "e = (ev0, n0, ok0)" by (metis prod_cases3)
  obtain p1 sv1 where s1: "dispatch_event (run_callback ntop show_port E) (ev0, n0, ok0) (p, Running sv) = Inr (p1, Running sv1)"
    "dispatch_events (run_callback ntop show_port E) es (p1, Running sv1) = Inr (p', Running sv')" "server_wf (p1, sv1)"
    "list_all (\<lambda>(ev, n, ok). pl_nodes p1 n \<noteq> None \<and> (is_hup ev \<longrightarrow> ok)) es"
    "list_all (\<lambda>(_, n', _). n' \<noteq> n0 \<and> pl_nodes p1 n' = pl_nodes p n') es"
    by (rule server_event_step [OF Cons.prems(1-4) [unfolded e]])
  have d: "distinct (map (\<lambda>(ev, n, ok). n) es)" using Cons.prems(2) by simp
  have lt: "i < sv_next sv"
    using server_wfD(2) [OF Cons.prems(1), of i] map_of_key [of "sv_clients sv" i cl] Cons.prems(5) by (simp add: client_of_def)
  show ?case
  proof (cases "n = n0")
    case True
    then have q: "ev = ev0" "ok = ok0" using Cons.prems(6) s1(5) by (auto simp: e list_all_iff)
    obtain f where f: "handle_dispatch E (xlate_epoll_to_mask ev) cl = Some (Inr f)" "client_of i sv1 = fate_client f" "sv_next sv1 = sv_next sv"
      using dispatch_event_turns_client [OF s1(1) _ Cons.prems(5)] Cons.prems(7) by (auto simp: True q)
    have "list_all (\<lambda>(ev, n, ok). \<forall>fd. pl_nodes p1 n \<noteq> Some (fd, Some (ClientCb i))) es"
      using server_wfD(4) [OF Cons.prems(1)] Cons.prems(7) s1(5) by (fastforce simp: list_all_iff True)
    from server_events_keep [OF s1(3) d s1(4,2) _ this] lt f show ?thesis by simp
  next
    case False
    then have m: "(ev, n, ok) \<in> set es" using Cons.prems(6) by (simp add: e)
    obtain fd0 cb where nd: "pl_nodes p n0 = Some (fd0, cb)" using Cons.prems(3) by (auto simp: e)
    have "cb \<noteq> Some (ClientCb i)" using server_wfD(4) [OF Cons.prems(1)] Cons.prems(7) nd False by auto
    then have "client_of i sv1 = Some cl" using dispatch_event_keeps_client [OF s1(1) lt nd] Cons.prems(5) by simp
    from Cons.IH [OF s1(3) d s1(4,2) this m] bspec [OF s1(5) [unfolded list_all_iff] m] Cons.prems(7) show ?thesis by simp
  qed
qed simp

lemma server_events_clients:
  assumes "server_wf (p, sv)" "distinct (map (\<lambda>(ev, n, ok). n) es)"
    and "list_all (\<lambda>(ev, n, ok). pl_nodes p n \<noteq> None \<and> (is_hup ev \<longrightarrow> ok)) es"
    and "poll_dispatch (run_callback ntop show_port E) (Events es) (p, Running sv) = Inr (b, p', Running sv')"
    and "client_of i sv = Some cl"
  shows "(list_all (\<lambda>(ev, n, ok). \<forall>fd. pl_nodes p n \<noteq> Some (fd, Some (ClientCb i))) es \<longrightarrow> client_of i sv' = Some cl) \<and>
    (\<forall>ev n ok fd. (ev, n, ok) \<in> set es \<longrightarrow> pl_nodes p n = Some (fd, Some (ClientCb i)) \<longrightarrow>
      (\<exists>f. handle_dispatch E (xlate_epoll_to_mask ev) cl = Some (Inr f) \<and> client_of i sv' = fate_client f))"
proof -
  have d: "dispatch_events (run_callback ntop show_port E) es (p, Running sv) = Inr (p', Running sv')"
    using assms(4) by (auto simp: poll_dispatch_def bindE_eq_Inr)
  have "i < sv_next sv"
    using server_wfD(2) [OF assms(1), of i] map_of_key [of "sv_clients sv" i cl] assms(5) by (simp add: client_of_def)
  then show ?thesis
    using server_events_keep [OF assms(1-3) d] server_events_turn [OF assms(1-3) d assms(5)] assms(5) by auto
qed

section \<open>The states the daemon can reach\<close>

text \<open>
  What the kernel may report: each node once, only addresses it was given, and the descriptor
  of a hang-up can be dropped.
\<close>

definition reports_held :: "server_poll \<Rightarrow> u32 \<times> nat \<times> bool \<Rightarrow> bool" where
  "reports_held p = (\<lambda>(ev, n, ok). case pl_nodes p n of
     None \<Rightarrow> False
   | Some (fd, _) \<Rightarrow> map_option snd (pl_kernel p fd) = Some n \<and> (is_hup ev \<longrightarrow> ok))"

definition honest :: "server_poll \<Rightarrow> wait \<Rightarrow> bool" where
  "honest p w = (case w of
     Interrupted \<Rightarrow> True
   | WaitFailed \<Rightarrow> False
   | Events es \<Rightarrow> distinct (map (\<lambda>(ev, n, ok). n) es) \<and> list_all (reports_held p) es)"

inductive serving ::
    "(sockaddr \<Rightarrow> string option) \<Rightarrow> (nat \<Rightarrow> string) \<Rightarrow> env \<Rightarrow> server_poll \<times> server \<Rightarrow> bool" for ntop show_port E where
  start: "epoll_new True = Inr p0 \<Longrightarrow> add_fd ctl_ok (so_fd s) ev_read (Some AcceptCb) p0 = (True, p) \<Longrightarrow>
    serving ntop show_port E (p, server_start s backlog)"
| network: "serving ntop show_port E (p, sv) \<Longrightarrow> serving ntop show_port E (p, traffic a sv)"
| poll: "serving ntop show_port E (p, sv) \<Longrightarrow> honest p w \<Longrightarrow>
    poll_dispatch (run_callback ntop show_port E) w (p, Running sv) = Inr (r, p', Running sv') \<Longrightarrow>
    serving ntop show_port E (p', sv')"

text \<open>\<open>init_fds\<close> gives the start.\<close>

lemma init_fds_watched:
  assumes "init_fds B L ntop show_port hostlookup try listens created ctl_ok config = Some (Inr (b, Some p, s))"
  obtains sk where "bindE (epoll_new created) (\<lambda>p0. case add_fd ctl_ok (so_fd sk) ev_read (Some AcceptCb) p0 of
        (added, p1) \<Rightarrow> bindE (assertr added) (\<lambda>_. Inr (True, Some p1, sk))) = Inr (b, Some p, s)"
  using assms unfolding init_fds_def
  by (auto split: sum.splits option.splits prod.splits bool.splits if_splits)

lemma init_fds_serving:
  assumes "init_fds B L ntop show_port hostlookup try listens created ctl_ok config = Some (Inr (b, Some p, s))"
  shows "serving ntop show_port E (p, server_start s backlog)"
proof -
  obtain sk where sk: "bindE (epoll_new created) (\<lambda>p0. case add_fd ctl_ok (so_fd sk) ev_read (Some AcceptCb) p0 of
        (added, p1) \<Rightarrow> bindE (assertr added) (\<lambda>_. Inr (True, Some p1, sk))) = Inr (b, Some p, s)"
    by (rule init_fds_watched [OF assms])
  then show ?thesis
    by (auto simp: bindE_eq_Inr assertr_def epoll_new_def split: prod.splits if_splits intro!: serving.start)
qed

lemma map_of_map_val: "map_of (map (\<lambda>(k, v). (k, f k v)) m) i = map_option (f i) (map_of m i)"
  by (induction m) auto

lemma client_of_traffic:
  "client_of i (traffic (ins, outs, backlog) sv) =
   map_option (on_base (\<lambda>b. b\<lparr>cb_sock := (cb_sock b)\<lparr>so_in := ins i, so_out := outs i\<rparr>\<rparr>)) (client_of i sv)"
  by (simp add: client_of_def traffic_def map_of_map_val)

lemma traffic_wf: "server_wf (p, sv) \<Longrightarrow> server_wf (p, traffic a sv)"
proof -
  have "fst ` set (sv_clients (traffic a sv)) = fst ` set (sv_clients sv)" "sv_next (traffic a sv) = sv_next sv"
    by (cases a; force simp: traffic_def)+
  then show "server_wf (p, sv) \<Longrightarrow> server_wf (p, traffic a sv)" by (simp add: server_wf_def)
qed

lemma honest_events:
  "honest p (Events es) \<Longrightarrow> distinct (map (\<lambda>(ev, n, ok). n) es) \<and>
     list_all (\<lambda>(ev, n, ok). pl_nodes p n \<noteq> None \<and> (is_hup ev \<longrightarrow> ok)) es"
  by (auto simp: honest_def reports_held_def list_all_iff split: option.splits)

subsection \<open>Every client of the daemon is a connection that can be reached\<close>

definition all_reachable :: "env \<Rightarrow> server \<Rightarrow> bool" where
  "all_reachable E sv \<longleftrightarrow> (\<forall>i cl. client_of i sv = Some cl \<longrightarrow> reachable E cl)"

lemma accept_loop_reachable:
  "all_reachable E (snd ps) \<Longrightarrow> all_reachable E (snd (accept_loop ntop show_port rs ps))"
proof (induction rs arbitrary: ps)
  case Nil
  then show ?case by (cases ps) (simp add: all_reachable_def client_of_def)
next
  case (Cons r rs)
  obtain p sv where ps: "ps = (p, sv)" by (cases ps)
  have "all_reachable E (snd (emplace_client s ok ps))" for s ok
    using Cons.prems
    by (auto simp: all_reachable_def client_of_def emplace_client_def ps map_add_def intro: reachable.start
        split: prod.splits option.splits if_splits)
  note step = Cons.IH [OF this]
  have "all_reachable E (sv\<lparr>sv_backlog := rs\<rparr>)" using Cons.prems by (simp add: ps all_reachable_def client_of_def)
  with step show ?case by (cases r) (auto simp: ps Let_def)
qed

lemma run_callback_reachable:
  assumes "snd (run_callback ntop show_port E f fd m (p, Running sv)) = Running sv'" "all_reachable E sv"
  shows "all_reachable E sv'"
proof (cases f)
  case AcceptCb
  then have "sv' = snd (accept_cb ntop show_port m (p, sv))"
    using assms(1) by (auto simp: run_callback_def split: prod.splits)
  then show ?thesis
    using accept_loop_reachable [of E "(p, sv)"] assms(2) by (simp add: accept_cb_def)
next
  case (ClientCb j)
  then obtain cl where cl: "client_of j sv = Some cl"
    using assms(1) by (auto simp: run_callback_def client_of_def split: option.splits)
  consider (turn) cl1 where "sv' = set_client j cl1 sv" "handle_dispatch E m cl = Some (Inr (Alive cl1))"
    | (gone) "sv' = erase_client j sv"
    using assms(1) cl by (auto simp: run_callback_def ClientCb client_of_def split: option.splits sum.splits fate.splits)
  then show ?thesis
  proof cases
    case turn
    then have "client_of i sv' = (if i = j then Some cl1 else client_of i sv)" for i
      by (simp add: client_of_def set_client_def update_conv)
    moreover have "reachable E cl1" using reachable.turn [OF _ turn(2)] cl assms(2) by (simp add: all_reachable_def)
    ultimately show ?thesis using assms(2) by (auto simp: all_reachable_def)
  next
    case gone
    then show ?thesis using assms(2) by (auto simp: all_reachable_def client_of_erase)
  qed
qed

lemma dispatch_events_reachable:
  "dispatch_events (run_callback ntop show_port E) es (p, Running sv) = Inr (p', Running sv') \<Longrightarrow> all_reachable E sv \<Longrightarrow>
   all_reachable E sv'"
proof (induction es arbitrary: p sv)
  case (Cons e es)
  obtain ev n ok where e: "e = (ev, n, ok)" by (metis prod_cases3)
  obtain p1 w1 where s1: "dispatch_event (run_callback ntop show_port E) e (p, Running sv) = Inr (p1, w1)"
      "dispatch_events (run_callback ntop show_port E) es (p1, w1) = Inr (p', Running sv')"
    using Cons.prems(1) by (auto simp: bindE_eq_Inr)
  obtain sv1 where w1: "w1 = Running sv1" using dispatch_events_running [OF s1(2)] by blast
  obtain fd cb where nd: "pl_nodes p n = Some (fd, cb)"
    using s1(1) by (cases "pl_nodes p n") (auto simp: dispatch_event_def Let_def e)
  obtain p2 where p2: "snd (case cb of Some f \<Rightarrow> run_callback ntop show_port E f fd (xlate_epoll_to_mask ev) (p2, Running sv)
      | None \<Rightarrow> (p2, Running sv)) = Running sv1"
    using dispatch_event_runs [OF s1(1) [unfolded e w1] nd] by blast
  have "all_reachable E sv1"
    using p2 run_callback_reachable Cons.prems(2) by (cases cb) (auto simp del: split_paired_Ex)
  then show ?case using Cons.IH s1(2) w1 by blast
qed simp

lemma serving_invariant: "serving ntop show_port E ps \<Longrightarrow> server_wf ps \<and> all_reachable E (snd ps)"
proof (induction rule: serving.induct)
  case (start p0 ctl_ok s p backlog)
  then show ?case using start_wf [OF start] by (simp add: all_reachable_def client_of_def server_start_def)
next
  case (network p sv a)
  obtain ins outs bl where "a = (ins, outs, bl)" by (metis prod_cases3)
  then show ?case using network by (auto simp: traffic_wf all_reachable_def client_of_traffic intro: reachable.network)
next
  case (poll p sv w r p' sv')
  show ?case
  proof (cases w)
    case (Events es)
    then have d: "dispatch_events (run_callback ntop show_port E) es (p, Running sv) = Inr (p', Running sv')"
      using poll(3) by (auto simp: poll_dispatch_def bindE_eq_Inr)
    from server_events_wf [OF _ _ _ d] dispatch_events_reachable [OF d] honest_events [of p es] poll(2,4) Events
    show ?thesis by simp
  qed (use poll in \<open>auto simp: poll_dispatch_def honest_def\<close>)
qed

text \<open>The kernel only holds addresses of live nodes, and these only call live clients.\<close>

lemma serving_kernel:
  assumes "wf_env E" "serving ntop show_port E (p, sv)" "pl_kernel p fd = Some (m, n)"
  shows "pl_nodes p n = Some (fd, None) \<or> pl_nodes p n = Some (fd, Some AcceptCb) \<or>
    (\<exists>i cl. pl_nodes p n = Some (fd, Some (ClientCb i)) \<and> client_of i sv = Some cl \<and> conn_idle E cl)"
proof -
  have inv: "server_wf (p, sv)" "all_reachable E sv" using serving_invariant [OF assms(2)] by simp_all
  obtain cb where cb: "pl_nodes p n = Some (fd, cb)"
    using wf_pollD(1,4) [OF server_wfD(1) [OF inv(1)], unfolded fst_conv] assms(3) by blast
  show ?thesis
  proof (cases "\<exists>i. cb = Some (ClientCb i)")
    case True
    then obtain i where i: "cb = Some (ClientCb i)" by blast
    then obtain cl where cl: "client_of i sv = Some cl"
      using server_wfD(3) [OF inv(1), of n fd i] cb map_of_eq_None_iff [of "sv_clients sv" i]
      by (cases "client_of i sv") (auto simp: client_of_def)
    then have "conn_idle E cl" using reachable_idle assms(1) inv(2) by (simp add: all_reachable_def)
    then show ?thesis using cb cl i by blast
  next
    case False
    then show ?thesis using cb by (metis callback.exhaust option.exhaust)
  qed
qed

end
