(* ===== verification/Theme_Daemon.thy ===== *)
theory Theme_Daemon
  imports Theme_Serving
begin

text \<open>
  The event loop of the whole daemon: in every turn a poll of a kernel that reports only what the
  daemon asked for succeeds, no callback of it can kill the process but by an assertion or the
  one access outside a buffer, and a process that goes on is again in a state it can reach.
\<close>

section \<open>What a poll can do to the process\<close>

text \<open>
  The kernel reports a socket whose two directions have been shut down as hung up, which keeps
  a connection without a message to wait for from reading.
\<close>

definition hup_reported :: "server_poll \<Rightarrow> server \<Rightarrow> u32 \<times> nat \<times> bool \<Rightarrow> bool" where
  "hup_reported p sv = (\<lambda>(ev, n, ok). case pl_nodes p n of
     Some (fd, Some (ClientCb i)) \<Rightarrow>
       (case client_of i sv of Some cl \<Rightarrow> so_shut (cb_sock (cl_base cl)) \<longrightarrow> is_hup ev | None \<Rightarrow> True)
   | _ \<Rightarrow> True)"

text \<open>A process after an event: it goes on, it is stuck, or it died of a fault a turn may end in.\<close>

fun sound_world :: "build \<Rightarrow> 'a world \<Rightarrow> bool" where
  "sound_world B (Running a) = True"
| "sound_world B Hung = True"
| "sound_world B (Dead e) = tame_fault B e"

lemma client_callback_sound:
  assumes "wf_env E" "all_reachable E sv" "client_of i sv = Some cl" "so_shut (cb_sock (cl_base cl)) \<longrightarrow> m AND ev_hup \<noteq> 0"
  shows "sound_world (en_build E) (snd (run_callback ntop show_port E (ClientCb i) fd m (p, Running sv)))"
proof -
  have r: "reachable E cl" using assms(2,3) by (simp add: all_reachable_def)
  have "tame_fault (en_build E) e" if h: "handle_dispatch E m cl = Some (Inl e)" for e
  proof -
    have "m AND ev_hup = 0" using h by (auto simp: handle_dispatch_def split: if_splits)
    then have "has_pending_read (cl_base cl)" using assms(4) no_read_is_shut [OF assms(1) r] by blast
    then show ?thesis using turn_faults [OF assms(1) reachable_idle [OF r assms(1)] _ h] by blast
  qed
  then show ?thesis
    using assms(3) by (auto simp: run_callback_def client_of_def split: option.splits sum.splits fate.splits)
qed

lemma event_sound:
  assumes "wf_env E" "server_wf (p, sv)" "all_reachable E sv" "pl_nodes p n \<noteq> None" "is_hup ev \<longrightarrow> ok" "hup_reported p sv (ev, n, ok)"
  shows "\<exists>p' w'. dispatch_event (run_callback ntop show_port E) (ev, n, ok) (p, Running sv) = Inr (p', w') \<and> wf_poll p' \<and>
    sound_world (en_build E) w' \<and> (\<forall>n' x. n' \<noteq> n \<longrightarrow> pl_nodes p n' = Some x \<longrightarrow> pl_nodes p' n' = Some x)"
proof -
  obtain fd cb where nd: "pl_nodes p n = Some (fd, cb)" using assms(4) by auto
  obtain p' w' where d: "dispatch_event (run_callback ntop show_port E) (ev, n, ok) (p, Running sv) = Inr (p', w')" "wf_poll p'"
      "\<forall>n' x. n' \<noteq> n \<longrightarrow> pl_nodes p n' = Some x \<longrightarrow> pl_nodes p' n' = Some x"
    using dispatch_event_safe [OF _ run_callback_only_adds [of ntop show_port E], of "(p, Running sv)" n fd cb ev ok]
      server_wfD(1) [OF assms(2)] nd assms(5) by auto
  define p1 where "p1 = (if is_hup ev \<and> ok then p\<lparr>pl_kernel := (pl_kernel p)(fd := None)\<rparr> else p)"
  have w': "w' = snd (case cb of Some f \<Rightarrow> run_callback ntop show_port E f fd (xlate_epoll_to_mask ev) (p1, Running sv)
      | None \<Rightarrow> (p1, Running sv))"
    using d(1) nd by (cases cb) (auto simp: dispatch_event_def Let_def is_hup_def p1_def split: option.splits if_splits)
  have "sound_world (en_build E) w'"
  proof (cases "\<exists>i. cb = Some (ClientCb i)")
    case True
    then obtain i where i: "cb = Some (ClientCb i)" by blast
    obtain cl where cl: "client_of i sv = Some cl"
      using server_wfD(3) [OF assms(2), of n fd i] nd i map_of_eq_None_iff [of "sv_clients sv" i]
      by (cases "client_of i sv") (auto simp: client_of_def)
    show ?thesis
      using client_callback_sound [OF assms(1,3) cl, of "xlate_epoll_to_mask ev"] assms(6) nd cl
      by (simp add: w' i hup_reported_def is_hup_def)
  next
    case False
    then consider "cb = None" | "cb = Some AcceptCb" by (metis callback.exhaust option.exhaust)
    then show ?thesis by cases (simp_all add: w' run_callback_def split: prod.splits)
  qed
  with d show ?thesis by blast
qed

text \<open>Once it has stopped, the other events of a poll change nothing.\<close>

lemma stopped_event:
  assumes "dispatch_event (run_callback ntop show_port E) e (p, w) = Inr (p', w')" "\<And>sv. w \<noteq> Running sv"
  shows "w' = w"
proof (cases w)
  case (Running sv)
  then show ?thesis using assms(2) by simp
qed (use assms(1) in \<open>auto simp: dispatch_event_def run_callback_def Let_def split: prod.splits option.splits if_splits\<close>)

lemma stopped_events:
  "dispatch_events (run_callback ntop show_port E) es (p, w) = Inr (p', w') \<Longrightarrow> (\<And>sv. w \<noteq> Running sv) \<Longrightarrow> w' = w"
proof (induction es arbitrary: p)
  case (Cons e es)
  obtain p1 w1 where s1: "dispatch_event (run_callback ntop show_port E) e (p, w) = Inr (p1, w1)"
      "dispatch_events (run_callback ntop show_port E) es (p1, w1) = Inr (p', w')"
    using Cons.prems(1) by (auto simp: bindE_eq_Inr)
  then show ?case using stopped_event [OF s1(1) Cons.prems(2)] Cons.IH [of p1] Cons.prems(2) by simp
qed simp

definition event_fine :: "server_poll \<Rightarrow> server \<Rightarrow> u32 \<times> nat \<times> bool \<Rightarrow> bool" where
  "event_fine p sv e \<longleftrightarrow> (case e of (ev, n, ok) \<Rightarrow> pl_nodes p n \<noteq> None \<and> (is_hup ev \<longrightarrow> ok)) \<and> hup_reported p sv e"

lemma events_sound:
  "wf_env E \<Longrightarrow> server_wf (p, sv) \<Longrightarrow> all_reachable E sv \<Longrightarrow> distinct (map (\<lambda>(ev, n, ok). n) es) \<Longrightarrow>
   list_all (event_fine p sv) es \<Longrightarrow>
   \<exists>p' w'. dispatch_events (run_callback ntop show_port E) es (p, Running sv) = Inr (p', w') \<and> sound_world (en_build E) w'"
proof (induction es arbitrary: p sv)
  case (Cons e es)
  let ?run = "run_callback ntop show_port E"
  obtain ev n ok where e: "e = (ev, n, ok)" by (metis prod_cases3)
  have f: "pl_nodes p n \<noteq> None" "is_hup ev \<longrightarrow> ok" "hup_reported p sv (ev, n, ok)"
    using Cons.prems(5) by (auto simp: e event_fine_def)
  obtain p1 w1 where s1: "dispatch_event ?run (ev, n, ok) (p, Running sv) = Inr (p1, w1)" "wf_poll p1" "sound_world (en_build E) w1"
      "\<forall>n' x. n' \<noteq> n \<longrightarrow> pl_nodes p n' = Some x \<longrightarrow> pl_nodes p1 n' = Some x"
    using event_sound [OF Cons.prems(1-3) f] by blast
  have d: "distinct (map (\<lambda>(ev, n, ok). n) es)" using Cons.prems(4) by simp
  have rest: "n' \<noteq> n \<and> event_fine p sv (ev', n', ok')" if m: "(ev', n', ok') \<in> set es" for ev' n' ok'
    using Cons.prems(4,5) m by (force simp: e list_all_iff)
  have there: "list_all (\<lambda>(ev, n, ok). pl_nodes p1 n \<noteq> None \<and> (is_hup ev \<longrightarrow> ok)) es"
    using rest s1(4) by (fastforce simp: list_all_iff event_fine_def)
  show ?case
  proof (cases "\<exists>sv1. w1 = Running sv1")
    case True
    then obtain sv1 where w1: "w1 = Running sv1" by blast
    obtain fd cb where nd: "pl_nodes p n = Some (fd, cb)" using f(1) by auto
    have wf1: "server_wf (p1, sv1)" by (rule server_event_wf [OF Cons.prems(2) nd f(2)]) (use s1(1) w1 in simp)
    have re1: "all_reachable E sv1"
      using dispatch_events_reachable [of ntop show_port E "[(ev, n, ok)]" p sv p1 sv1] s1(1) w1 Cons.prems(3) by simp
    have "event_fine p1 sv1 (ev', n', ok')" if m: "(ev', n', ok') \<in> set es" for ev' n' ok'
    proof -
      obtain fd' cb' where nd': "pl_nodes p n' = Some (fd', cb')" using rest [OF m] by (auto simp: event_fine_def)
      have "client_of i sv1 = client_of i sv" if i: "cb' = Some (ClientCb i)" for i
      proof -
        have "i < sv_next sv" using server_wfD(2,3) [OF Cons.prems(2)] nd' i by auto
        moreover have "cb \<noteq> Some (ClientCb i)" using server_wfD(4) [OF Cons.prems(2)] nd nd' i rest [OF m] by auto
        ultimately show ?thesis using dispatch_event_keeps_client [OF s1(1) [unfolded w1] _ nd] by simp
      qed
      then show ?thesis
        using rest [OF m] s1(4) nd' by (auto simp: event_fine_def hup_reported_def split: option.splits callback.splits)
    qed
    then have "list_all (event_fine p1 sv1) es" by (auto simp: list_all_iff)
    from Cons.IH [OF Cons.prems(1) wf1 re1 d this] show ?thesis using s1(1) by (simp add: e w1)
  next
    case False
    obtain s' where s': "dispatch_events ?run es (p1, w1) = Inr s'"
      using dispatch_events_safe [OF run_callback_only_adds [of ntop show_port E], of "(p1, w1)" es] s1(2) d there by auto
    then have "snd s' = w1" using stopped_events [of ntop show_port E es p1 w1 "fst s'" "snd s'"] False by auto
    then show ?thesis using s1(1,3) s' by (cases s') (simp add: e)
  qed
qed simp

section \<open>The loop\<close>

text \<open>A kernel that is honest in every turn, whatever state the turn before has left.\<close>

fun honest_turns :: "(sockaddr \<Rightarrow> string option) \<Rightarrow> (nat \<Rightarrow> string) \<Rightarrow> env \<Rightarrow> (arrivals \<times> wait) list
    \<Rightarrow> server_poll \<times> server world \<Rightarrow> bool" where
  "honest_turns ntop show_port E [] s = True"
| "honest_turns ntop show_port E ((a, w) # ws) s =
     (case snd s of
        Running sv \<Rightarrow> honest (fst s) w \<and>
          (case w of Events es \<Rightarrow> list_all (hup_reported (fst s) (traffic a sv)) es | _ \<Rightarrow> True) \<and>
          (case poll_dispatch (run_callback ntop show_port E) w (fst s, Running (traffic a sv)) of
             Inr (_, s1) \<Rightarrow> honest_turns ntop show_port E ws s1 | Inl _ \<Rightarrow> True)
      | _ \<Rightarrow> True)"

definition loop_outcome :: "(sockaddr \<Rightarrow> string option) \<Rightarrow> (nat \<Rightarrow> string) \<Rightarrow> env \<Rightarrow> server_poll \<times> server world \<Rightarrow> bool" where
  "loop_outcome ntop show_port E s \<longleftrightarrow>
     (case snd s of Running sv \<Rightarrow> serving ntop show_port E (fst s, sv) | Dead e \<Rightarrow> tame_fault (en_build E) e | Hung \<Rightarrow> True)"

lemma turn_sound:
  assumes "wf_env E" "serving ntop show_port E (p, sv)" "honest p w"
    and "\<And>es. w = Events es \<Longrightarrow> list_all (hup_reported p sv) es"
  shows "\<exists>b s'. poll_dispatch (run_callback ntop show_port E) w (p, Running sv) = Inr (b, s') \<and> loop_outcome ntop show_port E s'"
proof -
  have "\<exists>b p' w'. poll_dispatch (run_callback ntop show_port E) w (p, Running sv) = Inr (b, p', w') \<and> sound_world (en_build E) w'"
  proof (cases w)
    case (Events es)
    have inv: "server_wf (p, sv)" "all_reachable E sv" using serving_invariant [OF assms(2)] by simp_all
    have "list_all (event_fine p sv) es"
      using honest_events [of p es] assms(3,4) Events by (auto simp: list_all_iff event_fine_def)
    then show ?thesis
      using events_sound [OF assms(1) inv, of es ntop show_port] honest_events [of p es] assms(3) Events by (auto simp: poll_dispatch_def)
  qed (use assms(3) in \<open>auto simp: poll_dispatch_def honest_def\<close>)
  then obtain b p' w' where r: "poll_dispatch (run_callback ntop show_port E) w (p, Running sv) = Inr (b, p', w')"
      "sound_world (en_build E) w'" by blast
  then show ?thesis
    using serving.poll [OF assms(2,3), of b p'] by (cases w') (auto simp: loop_outcome_def)
qed

lemma loop_sound:
  "wf_env E \<Longrightarrow> loop_outcome ntop show_port E s \<Longrightarrow> honest_turns ntop show_port E ws s \<Longrightarrow>
   \<exists>s'. dispatch_loop ntop show_port E ws s = Inr s' \<and> loop_outcome ntop show_port E s'"
proof (induction ws arbitrary: s)
  case (Cons x ws)
  obtain a w where x: "x = (a, w)" by (cases x)
  show ?case
  proof (cases "snd s")
    case (Running sv)
    have sv: "serving ntop show_port E (fst s, traffic a sv)"
      using Cons.prems(2) Running by (auto simp: loop_outcome_def intro: serving.network)
    have h: "honest (fst s) w" "\<And>es. w = Events es \<Longrightarrow> list_all (hup_reported (fst s) (traffic a sv)) es"
      using Cons.prems(3) by (auto simp: x Running)
    obtain b s1 where s1: "poll_dispatch (run_callback ntop show_port E) w (fst s, Running (traffic a sv)) = Inr (b, s1)"
        "loop_outcome ntop show_port E s1"
      using turn_sound [OF Cons.prems(1) sv h] by blast
    have "honest_turns ntop show_port E ws s1" using Cons.prems(3) by (simp add: x Running s1(1))
    from Cons.IH [OF Cons.prems(1) s1(2) this] show ?thesis by (simp add: x Running s1(1))
  qed (use Cons.prems in \<open>simp_all add: x\<close>)
qed simp

end
