(* ===== verification/Theme_Main.thy ===== *)
theory Theme_Main
  imports Theme_Daemon
begin

text \<open>
  The program from its command line to its event loop (\<open>daemon/main.cpp\<close>), and that, whatever the
  configuration file holds, only a failed assertion keeps it from exiting or from serving.
\<close>

section \<open>The program\<close>

text \<open>
  What the process finds around it: the string library and OpenSSL, whether \<open>RAND_poll\<close> and the
  calls that set up the poll succeed, name lookup and the attempts to bind, and how numbers and
  addresses are rendered.
\<close>

record 'f platform =
  pf_strings :: "'f string_lib"
  pf_crypto :: crypto_lib
  pf_rand_poll :: bool
  pf_show_uint :: "u32 \<Rightarrow> string"
  pf_ntop :: "sockaddr \<Rightarrow> string option"
  pf_show_port :: "nat \<Rightarrow> string"
  pf_hostlookup :: "string \<Rightarrow> u16 \<Rightarrow> sockaddr list option"
  pf_try :: "nat \<Rightarrow> sockaddr \<Rightarrow> attempt"
  pf_listens :: bool
  pf_epoll :: bool
  pf_epoll_ctl :: bool
  pf_compiler :: string
  pf_ptrsz :: nat
  pf_build_info :: build_info

text \<open>
  What \<open>main\<close> leaves: the banner, the two files it may write, and either an exit status or the
  state its event loop is in.
\<close>

datatype ending = Exited int | Looping server_poll "server world"

record main_result =
  mr_banner :: "string list"
  mr_client_ini :: "string list option"
  mr_saved :: "string list option"
  mr_ending :: ending

definition theme_main ::
    "build \<Rightarrow> 'f platform \<Rightarrow> (gatekeeper_daemon \<Rightarrow> env) \<Rightarrow> flags \<Rightarrow> string list option \<Rightarrow> backlog \<Rightarrow> (arrivals \<times> wait) list
     \<Rightarrow> main_result res option" where
  "theme_main B P mkenv fl file backlog rounds =
     (let L = pf_strings P; C = pf_crypto P;
          banner = build_info_lines (pf_compiler P) (pf_ptrsz P) (pf_build_info P)
      in case bindE (crypto_new False (pf_rand_poll P)) (\<lambda>_. main_setup B L C (pf_show_uint P) file fl) of
           Inl e \<Rightarrow> Some (Inl e)
         | Inr (config, ini, saved) \<Rightarrow>
             (case server_run B L C (pf_ntop P) (pf_show_port P)
                (init_fds B L (pf_ntop P) (pf_show_port P) (pf_hostlookup P) (pf_try P) (pf_listens P) (pf_epoll P) (pf_epoll_ctl P) config)
                mkenv backlog rounds config of
                None \<Rightarrow> None
              | Some (Inl e) \<Rightarrow> Some (Inl e)
              | Some (Inr r) \<Rightarrow>
                  Some (Inr \<lparr>mr_banner = banner, mr_client_ini = ini, mr_saved = saved,
                    mr_ending = (case r of None \<Rightarrow> Exited (exit_status False) | Some (p, w) \<Rightarrow> Looping p w)\<rparr>)))"

section \<open>Only assertions stop it\<close>

text \<open>
  The assertions that stay in every build guard calls to OpenSSL and to the kernel; \<open>ok\<close> says that
  those succeed. What is left are the assertions a build with \<open>NDEBUG\<close> does not have.
\<close>

definition only_asserts :: "build \<Rightarrow> bool \<Rightarrow> 'a res \<Rightarrow> bool" where
  "only_asserts B ok r \<longleftrightarrow> (case r of Inl e \<Rightarrow> e = AssertFailed \<and> \<not> (ndebug B \<and> ok) | Inr _ \<Rightarrow> True)"

lemma only_asserts_basic [simp]:
  "only_asserts B ok (Inr x)" "only_asserts B ok (assertd B b)" "only_asserts B ok (assertr b) \<longleftrightarrow> (ndebug B \<and> ok \<longrightarrow> b)"
  by (auto simp: only_asserts_def assertd_def assertr_def)

lemma only_asserts_bind [intro!]:
  "only_asserts B ok r \<Longrightarrow> (\<And>x. r = Inr x \<Longrightarrow> only_asserts B ok (f x)) \<Longrightarrow> only_asserts B ok (bindE r f)"
  by (cases r) (simp_all add: only_asserts_def)

lemma mem_write_fits: "length bs \<le> length m \<Longrightarrow> only_asserts B ok (mem_write m 0 bs)"
  by (simp add: mem_write_in)

text \<open>
  What is documented of OpenSSL and the base-64 decoder: a prime of the size asked for fits the
  key array, and so many bytes as the array has are decoded at most.
\<close>

definition crypto_fits :: "crypto_lib \<Rightarrow> bool" where
  "crypto_fits C \<longleftrightarrow>
     (\<forall>k. fst (cr_primes C) = Some k \<longrightarrow> bn_num_bytes k \<le> kKeySize) \<and>
     (\<forall>n. snd (cr_primes C) = Some n \<longrightarrow> bn_num_bytes n \<le> kKeySize) \<and>
     length (fst (cr_key_junk C)) = kKeySize \<and> length (fst (snd (cr_key_junk C))) = kKeySize \<and>
     length (snd (snd (cr_key_junk C))) = kKeySize \<and> length (cr_load_junk C) = kKeySize \<and>
     (\<forall>s bs. cr_decode C s kKeySize = Some bs \<longrightarrow> length bs \<le> kKeySize)"

lemma prime_fits: "r = Some p \<and> bn_num_bytes p \<le> n \<or> r = None \<Longrightarrow> prime_result B r = Inr q \<Longrightarrow> bn_num_bytes q \<le> n"
  by (auto simp: prime_result_def bindE_eq_Inr bn_num_bytes.simps [of 0] split: option.splits)

lemma crypto_generate_asserts: "crypto_fits C \<Longrightarrow> only_asserts B ok (crypto_generate B C g)"
proof -
  assume C: "crypto_fits C"
  let ?k = "fst (cr_primes C)" and ?n = "snd (cr_primes C)"
  have p: "only_asserts B ok (prime_result B r)" for r by (auto simp: prime_result_def split: option.splits)
  have k: "bn_num_bytes q \<le> kKeySize" if "prime_result B ?k = Inr q" for q
    using C that prime_fits [of ?k _ kKeySize B q] by (cases ?k) (auto simp: crypto_fits_def)
  have n: "bn_num_bytes q \<le> kKeySize" if "prime_result B ?n = Inr q" for q
    using C that prime_fits [of ?n _ kKeySize B q] by (cases ?n) (auto simp: crypto_fits_def)
  have x: "bn_num_bytes (bn_mod_exp g k n) \<le> kKeySize" if "bn_num_bytes n \<le> kKeySize" for g k n
  proof (cases "n = 0")
    case True
    then show ?thesis by (simp add: bn_mod_exp_def bn_num_bytes.simps [of 0])
  next
    case False
    then have "bn_mod_exp g k n < n" by (intro bn_mod_exp_less) simp
    then show ?thesis using that bn_num_bytes_le [of n kKeySize] bn_num_bytes_le [of "bn_mod_exp g k n" kKeySize] by simp
  qed
  show ?thesis
    using C k n x unfolding crypto_generate_def generate_keys_def Let_def
    by (intro only_asserts_bind p mem_write_fits) (auto simp: crypto_fits_def bn_bn2bin_def)
qed

lemma load_key_asserts: "crypto_fits C \<Longrightarrow> only_asserts B ok (load_key B (cr_decode C) (cr_load_junk C) s)"
  by (auto simp: load_key_def crypto_fits_def intro!: mem_write_fits split: option.splits)

text \<open>A configuration in which everything is there that the program asks for.\<close>

definition complete :: "(string \<Rightarrow> string) \<Rightarrow> configmap \<Rightarrow> bool" where
  "complete f m \<longleftrightarrow> (\<forall>it \<in> set s_daemonConfig. item_there f (ci_type it) (ci_section it) (ci_key it) m)"

lemma completeD:
  assumes "complete f m"
  shows "item_there f vt_string ''lobby'' ''bindaddr'' m" "item_there f vt_string ''lobby'' ''extaddr'' m"
    "item_there f vt_integer ''lobby'' ''port'' m" "item_there f vt_string ''gate'' ''crypt_k'' m"
    "item_there f vt_string ''gate'' ''crypt_n'' m" "item_there f vt_string ''gate'' ''crypt_x'' m"
    "item_there f vt_integer ''gate'' ''crypt_g'' m" "item_there f vt_string ''gate'' ''fileaddr'' m"
    "item_there f vt_string ''gate'' ''authaddr'' m"
  using assms by (simp_all add: complete_def s_daemonConfig_def cfg_str_def cfg_int_def)

lemma complete_same: "same_items m m' \<Longrightarrow> complete f m \<Longrightarrow> complete f m'"
  using item_there_same by (auto simp: complete_def)

lemma server_new_complete: "names_apart (st_fold L) s_daemonConfig \<Longrightarrow> complete (st_fold L) (server_new L file)"
proof -
  assume n: "names_apart (st_fold L) s_daemonConfig"
  obtain ok m lg where r: "config_read L file (config_parser L s_daemonConfig) = (ok, m, lg)" by (metis prod_cases3)
  have "complete (st_fold L) (config_parser L s_daemonConfig)" using config_parser_there [OF n] by (simp add: complete_def)
  then show ?thesis using complete_same [OF config_read_same [OF r]] by (simp add: server_new_def r)
qed

lemma find_typed_there: "item_there (st_fold L) t s k m \<Longrightarrow> only_asserts B ok (find_typed B L t s k m)"
  using item_there_find [of L t s k m B] by (auto simp: only_asserts_def)

lemmas getters = config_get_string_def config_get_cstr_def config_get_u16string_def config_get_uint_def

lemma set_string_there:
  assumes "item_there (st_fold L) vt_string s k m"
  shows "only_asserts B ok (config_set_string B L s k v m)" "config_set_string B L s k v m = Inr m' \<Longrightarrow> same_items m m'"
proof -
  obtain e where "find_item B L s k m = Inr e" using assms by (auto simp: item_there_def find_item_lookup)
  then show "only_asserts B ok (config_set_string B L s k v m)" "config_set_string B L s k v m = Inr m' \<Longrightarrow> same_items m m'"
    using store_value_same [of m L s k v] by (auto simp: config_set_string_def set_typed_def bindE_eq_Inr)
qed

lemma set_key_complete:
  assumes "config_set_string B L ''gate'' k v m = Inr m'" "complete (st_fold L) m" "k \<in> {''crypt_k'', ''crypt_n'', ''crypt_x''}"
  shows "complete (st_fold L) m'" "same_items m m'"
proof -
  have "item_there (st_fold L) vt_string ''gate'' k m" using assms(3) completeD(4-6) [OF assms(2)] by auto
  then show "same_items m m'" using set_string_there(2) [OF _ assms(1)] by blast
  then show "complete (st_fold L) m'" using complete_same assms(2) by blast
qed

lemma generate_daemon_keys_asserts:
  assumes "complete (st_fold L) m" "crypto_fits C"
  shows "only_asserts B ok (generate_daemon_keys B L C m)"
  unfolding generate_daemon_keys_def getters using assms
  by (auto intro!: find_typed_there crypto_generate_asserts set_string_there(1) completeD dest!: set_key_complete(1))

lemma generate_daemon_keys_same:
  assumes "complete (st_fold L) m" "generate_daemon_keys B L C m = Inr m'"
  shows "same_items m m'"
proof -
  obtain k n x d1 d2 where d: "config_set_string B L ''gate'' ''crypt_k'' k m = Inr d1"
      "config_set_string B L ''gate'' ''crypt_n'' n d1 = Inr d2" "config_set_string B L ''gate'' ''crypt_x'' x d2 = Inr m'"
    using assms(2) by (auto simp: generate_daemon_keys_def bindE_eq_Inr)
  note k = set_key_complete [OF d(1) assms(1), simplified] and n = set_key_complete [OF d(2) k(1), simplified]
  show ?thesis
    using k(2) n(2) set_key_complete(2) [OF d(3) n(1)] by (simp add: same_items_trans [OF same_items_trans])
qed

lemma generate_client_ini_asserts: "complete (st_fold L) m \<Longrightarrow> only_asserts B ok (generate_client_ini B L show_uint m)"
  unfolding generate_client_ini_def getters by (auto intro!: find_typed_there completeD)

lemma main_setup_asserts:
  assumes "names_apart (st_fold L) s_daemonConfig" "crypto_fits C"
  shows "only_asserts B ok (main_setup B L C show_uint file fl)"
    "main_setup B L C show_uint file fl = Inr (config, ini, saved) \<Longrightarrow> complete (st_fold L) config"
proof -
  have c0: "complete (st_fold L) (server_new L file)" by (rule server_new_complete [OF assms(1)])
  have c: "complete (st_fold L) m" if "(if fl_generate_keys fl then generate_daemon_keys B L C (server_new L file)
      else Inr (server_new L file)) = Inr m" for m
    using that c0 generate_daemon_keys_same [OF c0, of B C m] complete_same [of "server_new L file" m] by (auto split: if_splits)
  show "only_asserts B ok (main_setup B L C show_uint file fl)"
    unfolding main_setup_def Let_def using c c0 assms(2)
    by (auto intro!: generate_daemon_keys_asserts generate_client_ini_asserts)
  show "main_setup B L C show_uint file fl = Inr (config, ini, saved) \<Longrightarrow> complete (st_fold L) config"
    using c by (auto simp: main_setup_def Let_def bindE_eq_Inr split del: if_split)
qed

text \<open>A server that starts again from the file it saved has the configuration it had.\<close>

lemma main_setup_same:
  assumes "names_apart (st_fold L) s_daemonConfig" "main_setup B L C show_uint file fl = Inr (config, ini, saved)"
  shows "same_items (config_parser L s_daemonConfig) config"
proof -
  obtain ok m lg where r: "config_read L file (config_parser L s_daemonConfig) = (ok, m, lg)" by (metis prod_cases3)
  have s: "same_items (config_parser L s_daemonConfig) (server_new L file)"
    using config_read_same [OF r] by (simp add: server_new_def r)
  have c: "complete (st_fold L) (server_new L file)" by (rule server_new_complete [OF assms(1)])
  have "same_items (server_new L file) config"
    using assms(2) generate_daemon_keys_same [OF c]
    by (auto simp: main_setup_def Let_def bindE_eq_Inr split: if_splits)
  then show ?thesis by (rule same_items_trans [OF s])
qed

lemma saved_config_restarts:
  assumes "names_apart (st_fold L) s_daemonConfig" "st_trim L = trimmed"
    and "main_setup B L C show_uint file fl = Inr (config, ini, Some saved)" "good_config (st_fold L) config"
  shows "main_setup B' L C' show_uint' (Some saved) default_flags = Inr (config, None, None)"
proof -
  have "saved = snd (config_write L True config)"
    using assms(3) by (auto simp: main_setup_def Let_def bindE_eq_Inr split: if_splits)
  then have "server_new L (Some saved) = config"
    using config_written_reads_back [OF assms(2,4) same_items_sym [OF main_setup_same [OF assms(1,3)]]] by (simp add: server_new_def)
  then show ?thesis by (simp add: main_setup_def default_flags_def)
qed

lemma load_keys_asserts:
  "complete (st_fold L) m \<Longrightarrow> crypto_fits C \<Longrightarrow> only_asserts B ok (load_keys B L C m ''gate'')"
  unfolding load_keys_def getters
  by (auto intro!: find_typed_there crypto_generate_asserts load_key_asserts completeD)

lemma init_servers_asserts:
  "complete (st_fold L) m \<Longrightarrow> crypto_fits C \<Longrightarrow> only_asserts B ok (init_servers B L C m)"
  unfolding init_servers_def gatekeeper_daemon_new_def getters
  by (auto intro!: find_typed_there load_keys_asserts [unfolded getters] completeD)

section \<open>Coming up\<close>

lemma bind_loop_asserts: "bind_loop B attempts addrs k it = Some r \<Longrightarrow> only_asserts B ok r"
  by (induction rule: bind_loop_induct) (auto simp: only_asserts_def)

lemma sock_bind_asserts: "sock_bind B ntop show_port hostlookup attempts addr port s = Some r \<Longrightarrow> only_asserts B ok r"
  by (auto simp: sock_bind_def only_asserts_def dest!: bind_loop_asserts [where ok = ok] split: option.splits sum.splits)

lemma init_fds_asserts:
  assumes "init_fds B L ntop show_port hostlookup attempts listens created ctl_ok config = Some r" "complete (st_fold L) config" "ok \<longrightarrow> created \<and> ctl_ok"
  shows "only_asserts B ok r"
proof -
  obtain addr port where cfg: "config_get_cstr B L ''lobby'' ''bindaddr'' config = Inr addr"
      "config_get_uint B L ''lobby'' ''port'' config = Inr port"
    using item_there_find [OF completeD(1) [OF assms(2)], of B] item_there_find [OF completeD(3) [OF assms(2)], of B] by (auto simp: getters)
  have ep: "only_asserts B ok (bindE (epoll_new created) (\<lambda>p0.
      case add_fd ctl_ok fd ev_read (Some AcceptCb) p0 of (added, p1) \<Rightarrow> bindE (assertr added) (\<lambda>_. Inr (True, Some p1, s))))" for fd s
    using assms(3) by (cases created; cases ctl_ok) (auto simp: epoll_new_def assertr_def add_fd_def Let_def only_asserts_def)
  show ?thesis
  proof (cases "sock_bind B ntop show_port hostlookup attempts addr (ucast port) sock_new")
    case None
    then show ?thesis using assms(1) by (simp add: init_fds_def cfg)
  next
    case (Some q)
    note q = sock_bind_asserts [OF Some, of ok]
    show ?thesis
    proof (cases q)
      case (Inl e)
      then show ?thesis using assms(1) q Some by (auto simp: init_fds_def cfg only_asserts_def)
    next
      case (Inr bs)
      obtain b s where bs: "bs = (b, s)" by (cases bs)
      show ?thesis
        using assms(1) Some ep [of s "so_fd s"]
        by (cases b) (auto simp: init_fds_def cfg Inr bs simp del: only_asserts_basic(3) split: if_splits del: only_asserts_bind)
    qed
  qed
qed

text \<open>
  Whatever the configuration file holds: unless binding hangs, \<open>main\<close> gives up with status 1 or
  is about to run its loop in a state of a daemon that serves; only an assertion can stop it, and
  none does in a build without them when the calls to OpenSSL and the kernel succeed.
\<close>

lemma main_comes_up:
  assumes "names_apart (st_fold (pf_strings P)) s_daemonConfig" "crypto_fits (pf_crypto P)"
    and "theme_main B P mkenv fl file backlog [] = Some r"
  shows "case r of Inl e \<Rightarrow> e = AssertFailed \<and> \<not> (ndebug B \<and> pf_rand_poll P \<and> pf_epoll P \<and> pf_epoll_ctl P)
    | Inr res \<Rightarrow> (case mr_ending res of Exited st \<Rightarrow> st = 1
        | Looping p w \<Rightarrow> \<exists>gate sv. w = Running sv \<and> serving (pf_ntop P) (pf_show_port P) (mkenv gate) (p, sv))"
proof -
  let ?L = "pf_strings P" and ?C = "pf_crypto P"
  let ?pre = "bindE (crypto_new False (pf_rand_poll P)) (\<lambda>_. main_setup B ?L ?C (pf_show_uint P) file fl)"
  let ?ok = "pf_rand_poll P \<and> pf_epoll P \<and> pf_epoll_ctl P"
  have pre: "only_asserts B ?ok ?pre" using main_setup_asserts(1) [OF assms(1,2)] by (auto simp: crypto_new_def)
  show ?thesis
  proof (cases ?pre)
    case (Inl e)
    then show ?thesis using assms(3) pre by (auto simp: theme_main_def Let_def only_asserts_def)
  next
    case (Inr x)
    obtain config ini saved where x: "x = (config, ini, saved)" by (metis prod_cases3)
    have c: "complete (st_fold ?L) config"
      using main_setup_asserts(2) [OF assms(1,2)] Inr by (auto simp: bindE_eq_Inr x)
    let ?fds = "init_fds B ?L (pf_ntop P) (pf_show_port P) (pf_hostlookup P) (pf_try P) (pf_listens P) (pf_epoll P) (pf_epoll_ctl P) config"
    obtain q where q: "?fds = Some q" using assms(3) Inr by (cases ?fds) (auto simp: theme_main_def Let_def x server_run_def)
    have qa: "only_asserts B ?ok q" by (rule init_fds_asserts [OF q c]) simp
    show ?thesis
    proof (cases q)
      case (Inl e)
      then show ?thesis using assms(3) Inr q qa by (auto simp: theme_main_def Let_def x server_run_def only_asserts_def)
    next
      case (Inr y)
      obtain ok po s where y: "y = (ok, po, s)" by (metis prod_cases3)
      show ?thesis
      proof (cases po)
        case None
        then show ?thesis using assms(3) \<open>?pre = Inr x\<close> q Inr y
          by (auto simp: theme_main_def Let_def x server_run_def exit_status_def)
      next
        case (Some p)
        have st: "serving (pf_ntop P) (pf_show_port P) (mkenv gate) (p, server_start s backlog)" for gate
          by (rule init_fds_serving) (use q Inr y Some in simp)
        show ?thesis
          using assms(3) \<open>?pre = Inr x\<close> q Inr y Some st init_servers_asserts [OF c assms(2), of B ?ok]
          by (cases "init_servers B ?L ?C config") (auto simp: theme_main_def Let_def x server_run_def only_asserts_def)
      qed
    qed
  qed
qed

text \<open>Once the descriptors are set up, the loop runs unless an assertion fails.\<close>

lemma main_starts:
  assumes "bindE (crypto_new False (pf_rand_poll P)) (\<lambda>_. main_setup B (pf_strings P) (pf_crypto P) (pf_show_uint P) file fl) = Inr (config, ini, saved)"
    and "init_fds B (pf_strings P) (pf_ntop P) (pf_show_port P) (pf_hostlookup P) (pf_try P) (pf_listens P) (pf_epoll P) (pf_epoll_ctl P) config
      = Some (Inr (True, Some p, s))"
  shows "(\<exists>e. theme_main B P mkenv fl file backlog [] = Some (Inl e)) \<or>
    (\<exists>res w. theme_main B P mkenv fl file backlog [] = Some (Inr res) \<and> mr_ending res = Looping p w)"
  using assms by (cases "init_servers B (pf_strings P) (pf_crypto P) config") (auto simp: theme_main_def Let_def server_run_def)

end
