(* ===== verification/Theme_Own_Turns.thy ===== *)
theory Theme_Own_Turns
  imports Theme_Daemon
begin

text \<open>
  The event loop as a client sees it. Whatever happens to the others, what the loop does to a
  client over any number of rounds is what the client's own turns do to it alone, and a client
  that is gone does not come back.
\<close>

section \<open>The loop, seen from one client\<close>

text \<open>The event a poll reports for a node.\<close>

definition event_of :: "nat \<Rightarrow> (u32 \<times> nat \<times> bool) list \<Rightarrow> u32 option" where
  "event_of n es = map_of (map (\<lambda>(ev, n, ok). (n, ev)) es) n"

definition reported :: "nat \<Rightarrow> wait \<Rightarrow> u32 option" where
  "reported n w = (case w of Events es \<Rightarrow> event_of n es | _ \<Rightarrow> None)"

lemma reported_simps [simp]:
  "reported n (Events es) = event_of n es" "reported n Interrupted = None" "reported n WaitFailed = None"
  by (simp_all add: reported_def)

text \<open>What arrives for client \<open>i\<close> before a poll.\<close>

definition arrive :: "nat \<Rightarrow> arrivals \<Rightarrow> client \<Rightarrow> client" where
  "arrive i a = on_base (\<lambda>b. b\<lparr>cb_sock := (cb_sock b)\<lparr>so_in := fst a i, so_out := fst (snd a) i\<rparr>\<rparr>)"

text \<open>What client \<open>i\<close> with node \<open>n\<close> does in some rounds of the loop if it is alone.\<close>

fun own_turns :: "env \<Rightarrow> nat \<Rightarrow> nat \<Rightarrow> (arrivals \<times> wait) list \<Rightarrow> client \<Rightarrow> fate res option" where
  "own_turns E i n [] cl = Some (Inr (Alive cl))"
| "own_turns E i n ((a, w) # rounds) cl =
     (case reported n w of
        None \<Rightarrow> own_turns E i n rounds (arrive i a cl)
      | Some ev \<Rightarrow>
          (case handle_dispatch E (xlate_epoll_to_mask ev) (arrive i a cl) of
             Some (Inr (Alive cl1)) \<Rightarrow> own_turns E i n rounds cl1
           | r \<Rightarrow> r))"

lemma client_of_arrive: "client_of i (traffic a sv) = map_option (arrive i a) (client_of i sv)"
  by (cases a) (simp add: client_of_traffic arrive_def)

lemma event_of_Some:
  assumes "distinct (map (\<lambda>(ev, n, ok). n) es)"
  shows "event_of n es = Some ev \<longleftrightarrow> (\<exists>ok. (ev, n, ok) \<in> set es)"
proof -
  have "map fst (map (\<lambda>(ev, n, ok). (n, ev)) es) = map (\<lambda>(ev, n, ok). n) es" by auto
  then have "distinct (map fst (map (\<lambda>(ev, n, ok). (n, ev)) es))" using assms by (simp only:)
  then show ?thesis by (force simp: event_of_def map_of_eq_Some_iff)
qed

text \<open>A node stays until its descriptor hangs up.\<close>

lemma event_keeps_node:
  assumes "server_wf (p, sv)" "pl_nodes p n \<noteq> None" "is_hup ev \<longrightarrow> ok"
    and "dispatch_event (run_callback ntop show_port E) (ev, n, ok) (p, Running sv) = Inr (p', w')"
    and "pl_nodes p m = Some x" "m = n \<longrightarrow> \<not> is_hup ev"
  shows "pl_nodes p' m = Some x"
proof -
  obtain fd cb where nd: "pl_nodes p n = Some (fd, cb)" using assms(2) by auto
  have wf: "wf_poll p" using server_wfD(1) [OF assms(1)] by simp
  show ?thesis
  proof (cases "m = n")
    case True
    define s2 where "s2 = (case cb of Some f \<Rightarrow> run_callback ntop show_port E f fd (xlate_epoll_to_mask ev) (p, Running sv)
      | None \<Rightarrow> (p, Running sv))"
    have "dispatch_event (run_callback ntop show_port E) (ev, n, ok) (p, Running sv) = Inr s2" "pl_nodes (fst s2) n = Some (fd, cb)"
      using dispatch_event_result(1,2) [OF wf nd assms(3) _ s2_def] assms(6) True by simp_all
    then show ?thesis using assms(4,5) nd True by (cases s2) simp
  next
    case False
    then show ?thesis
      using dispatch_event_safe [OF _ run_callback_only_adds [of ntop show_port E], of "(p, Running sv)" n fd cb ev ok] wf nd assms(3-5)
      by (cases x) auto
  qed
qed

lemma events_keep_node:
  "server_wf (p, sv) \<Longrightarrow> distinct (map (\<lambda>(ev, n, ok). n) es) \<Longrightarrow>
   list_all (\<lambda>(ev, n, ok). pl_nodes p n \<noteq> None \<and> (is_hup ev \<longrightarrow> ok)) es \<Longrightarrow>
   dispatch_events (run_callback ntop show_port E) es (p, Running sv) = Inr (p', Running sv') \<Longrightarrow>
   pl_nodes p m = Some x \<Longrightarrow> (\<And>ev. event_of m es = Some ev \<Longrightarrow> \<not> is_hup ev) \<Longrightarrow> pl_nodes p' m = Some x"
proof (induction es arbitrary: p sv)
  case (Cons e es)
  obtain ev n ok where e: "e = (ev, n, ok)" by (metis prod_cases3)
  obtain p1 sv1 where s1: "dispatch_event (run_callback ntop show_port E) (ev, n, ok) (p, Running sv) = Inr (p1, Running sv1)"
    "dispatch_events (run_callback ntop show_port E) es (p1, Running sv1) = Inr (p', Running sv')" "server_wf (p1, sv1)"
    "list_all (\<lambda>(ev, n, ok). pl_nodes p1 n \<noteq> None \<and> (is_hup ev \<longrightarrow> ok)) es"
    "list_all (\<lambda>(_, n', _). n' \<noteq> n \<and> pl_nodes p1 n' = pl_nodes p n') es"
    by (rule server_event_step [OF Cons.prems(1-4) [unfolded e]])
  have "pl_nodes p1 m = Some x"
    using event_keeps_node [OF Cons.prems(1) _ _ s1(1) Cons.prems(5)] Cons.prems(3,6) by (auto simp: e event_of_def)
  moreover have "\<not> is_hup ev'" if "event_of m es = Some ev'" for ev'
  proof -
    have "m \<noteq> n" using that s1(5) Cons.prems(2) by (auto simp: event_of_Some list_all_iff)
    then show ?thesis using Cons.prems(6) [of ev'] that by (simp add: e event_of_def)
  qed
  ultimately show ?case using Cons.IH [OF s1(3) _ s1(4,2)] Cons.prems(2) by simp
qed simp

text \<open>One poll.\<close>

lemma poll_own_turn:
  assumes "serving ntop show_port E (p, sv)" "honest p w"
    and "poll_dispatch (run_callback ntop show_port E) w (p, Running sv) = Inr (b, p', Running sv')"
    and "client_of i sv = Some cl" "pl_nodes p n = Some (fd, Some (ClientCb i))"
  shows "case reported n w of
      None \<Rightarrow> client_of i sv' = Some cl \<and> pl_nodes p' n = Some (fd, Some (ClientCb i))
    | Some ev \<Rightarrow> \<exists>f. handle_dispatch E (xlate_epoll_to_mask ev) cl = Some (Inr f) \<and> client_of i sv' = fate_client f \<and>
        (\<forall>cl1. f = Alive cl1 \<longrightarrow> pl_nodes p' n = Some (fd, Some (ClientCb i)))"
proof (cases w)
  case (Events es)
  have wf: "server_wf (p, sv)" using serving_invariant [OF assms(1)] by simp
  have es: "distinct (map (\<lambda>(ev, n, ok). n) es)" "list_all (\<lambda>(ev, n, ok). pl_nodes p n \<noteq> None \<and> (is_hup ev \<longrightarrow> ok)) es"
    using honest_events assms(2) Events by simp_all
  have d: "dispatch_events (run_callback ntop show_port E) es (p, Running sv) = Inr (p', Running sv')"
    using assms(3) by (auto simp: Events poll_dispatch_def bindE_eq_Inr)
  note cs = server_events_clients [OF wf es assms(3) [unfolded Events] assms(4)]
  note keep = events_keep_node [OF wf es d assms(5)]
  show ?thesis
  proof (cases "event_of n es")
    case None
    have "list_all (\<lambda>(ev, n, ok). \<forall>fd. pl_nodes p n \<noteq> Some (fd, Some (ClientCb i))) es"
      using server_wfD(4) [OF wf, unfolded fst_conv, OF assms(5)] None event_of_Some [OF es(1), of n]
      by (auto simp: list_all_iff)
    then show ?thesis using cs keep None Events by simp
  next
    case (Some ev)
    then obtain ok where "(ev, n, ok) \<in> set es" using event_of_Some [OF es(1)] by blast
    then obtain f where f: "handle_dispatch E (xlate_epoll_to_mask ev) cl = Some (Inr f)" "client_of i sv' = fate_client f"
      using cs assms(5) by blast
    have "\<not> is_hup ev" if "f = Alive cl1" for cl1 using f(1) that by (auto simp: handle_dispatch_def is_hup_def split: if_splits)
    then show ?thesis using f keep Some Events by auto
  qed
qed (use assms in \<open>auto simp: poll_dispatch_def honest_def\<close>)

lemma accept_loop_next: "sv_next (snd ps) \<le> sv_next (snd (accept_loop ntop show_port rs ps))"
proof (induction rs arbitrary: ps)
  case Nil
  then show ?case by (cases ps) simp
next
  case (Cons r rs)
  obtain p sv where ps: "ps = (p, sv)" by (cases ps)
  have "sv_next sv \<le> sv_next (snd (accept_loop ntop show_port rs (emplace_client s ok (p, sv))))" for s ok
    using Cons [of "emplace_client s ok (p, sv)"] by (simp add: emplace_client_def split: prod.splits)
  then show ?case by (cases r) (auto simp: ps Let_def)
qed

lemma run_callback_next:
  "snd (run_callback ntop show_port E f fd m (p, Running sv)) = Running sv' \<Longrightarrow> sv_next sv \<le> sv_next sv'"
  using accept_loop_next [of "(p, sv)" ntop show_port "sv_backlog sv"]
  by (cases f) (auto simp: run_callback_def accept_cb_def set_client_def erase_client_def
      split: prod.splits option.splits sum.splits fate.splits if_splits)

lemma server_events_next:
  "server_wf (p, sv) \<Longrightarrow> distinct (map (\<lambda>(ev, n, ok). n) es) \<Longrightarrow>
   list_all (\<lambda>(ev, n, ok). pl_nodes p n \<noteq> None \<and> (is_hup ev \<longrightarrow> ok)) es \<Longrightarrow>
   dispatch_events (run_callback ntop show_port E) es (p, Running sv) = Inr (p', Running sv') \<Longrightarrow> sv_next sv \<le> sv_next sv'"
proof (induction es arbitrary: p sv)
  case (Cons e es)
  obtain ev n ok where e: "e = (ev, n, ok)" by (metis prod_cases3)
  obtain p1 sv1 where s1: "dispatch_event (run_callback ntop show_port E) (ev, n, ok) (p, Running sv) = Inr (p1, Running sv1)"
    "dispatch_events (run_callback ntop show_port E) es (p1, Running sv1) = Inr (p', Running sv')" "server_wf (p1, sv1)"
    "list_all (\<lambda>(ev, n, ok). pl_nodes p1 n \<noteq> None \<and> (is_hup ev \<longrightarrow> ok)) es"
    "list_all (\<lambda>(_, n', _). n' \<noteq> n \<and> pl_nodes p1 n' = pl_nodes p n') es"
    by (rule server_event_step [OF Cons.prems(1-4) [unfolded e]])
  obtain fd cb where nd: "pl_nodes p n = Some (fd, cb)" using Cons.prems(3) by (auto simp: e)
  obtain p2 where "snd (case cb of Some f \<Rightarrow> run_callback ntop show_port E f fd (xlate_epoll_to_mask ev) (p2, Running sv)
      | None \<Rightarrow> (p2, Running sv)) = Running sv1"
    using dispatch_event_runs [OF s1(1) nd] by blast
  then have "sv_next sv \<le> sv_next sv1" by (cases cb) (auto dest: run_callback_next)
  then show ?case using Cons.IH [OF s1(3) _ s1(4,2)] Cons.prems(2) by simp
qed simp

text \<open>Once gone a client does not come back: numbers are not used again.\<close>

lemma poll_gone:
  assumes "serving ntop show_port E (p, sv)" "honest p w"
    and "poll_dispatch (run_callback ntop show_port E) w (p, Running sv) = Inr (b, p', Running sv')"
    and "client_of i sv = None" "i < sv_next sv"
  shows "client_of i sv' = None \<and> i < sv_next sv'"
proof (cases w)
  case (Events es)
  have wf: "server_wf (p, sv)" using serving_invariant [OF assms(1)] by simp
  have es: "distinct (map (\<lambda>(ev, n, ok). n) es)" "list_all (\<lambda>(ev, n, ok). pl_nodes p n \<noteq> None \<and> (is_hup ev \<longrightarrow> ok)) es"
    using honest_events assms(2) Events by simp_all
  have d: "dispatch_events (run_callback ntop show_port E) es (p, Running sv) = Inr (p', Running sv')"
    using assms(3) by (auto simp: Events poll_dispatch_def bindE_eq_Inr)
  have "i \<notin> fst ` set (sv_clients sv)" using assms(4) map_of_eq_None_iff [of "sv_clients sv" i] by (simp add: client_of_def)
  then have "list_all (\<lambda>(ev, n, ok). \<forall>fd. pl_nodes p n \<noteq> Some (fd, Some (ClientCb i))) es"
    using server_wfD(3) [OF wf, unfolded fst_conv snd_conv] by (auto simp: list_all_iff)
  from server_events_keep [OF wf es d assms(5) this] server_events_next [OF wf es d] assms(4,5) show ?thesis by simp
qed (use assms in \<open>auto simp: poll_dispatch_def honest_def\<close>)


text \<open>
  The loop as a whole, under a kernel that reports live nodes only. (That it reports sockets that
  are shut, as \<open>honest_turns\<close> asks, matters for surviving a round, not for what a round that was
  survived did.)
\<close>

fun honest_polls :: "(sockaddr \<Rightarrow> string option) \<Rightarrow> (nat \<Rightarrow> string) \<Rightarrow> env \<Rightarrow> (arrivals \<times> wait) list
    \<Rightarrow> server_poll \<times> server world \<Rightarrow> bool" where
  "honest_polls ntop show_port E [] s = True"
| "honest_polls ntop show_port E ((a, w) # ws) s =
     (case snd s of
        Running sv \<Rightarrow> honest (fst s) w \<and>
          (case poll_dispatch (run_callback ntop show_port E) w (fst s, Running (traffic a sv)) of
             Inr (_, s1) \<Rightarrow> honest_polls ntop show_port E ws s1 | Inl _ \<Rightarrow> True)
      | _ \<Rightarrow> True)"

lemma honest_turns_polls: "honest_turns ntop show_port E ws s \<Longrightarrow> honest_polls ntop show_port E ws s"
proof (induction ws arbitrary: s)
  case (Cons x ws)
  then show ?case by (cases x) (auto split: world.splits sum.splits)
qed simp

lemma loop_turn:
  assumes "honest_polls ntop show_port E ((a, w) # rounds) (p, Running sv)"
    and "dispatch_loop ntop show_port E ((a, w) # rounds) (p, Running sv) = Inr (p', Running sv')"
    and "serving ntop show_port E (p, sv)"
  obtains b p1 sv1 where "poll_dispatch (run_callback ntop show_port E) w (p, Running (traffic a sv)) = Inr (b, p1, Running sv1)"
    "dispatch_loop ntop show_port E rounds (p1, Running sv1) = Inr (p', Running sv')"
    "honest p w" "honest_polls ntop show_port E rounds (p1, Running sv1)"
    "serving ntop show_port E (p, traffic a sv)" "serving ntop show_port E (p1, sv1)"
proof -
  obtain b s1 where s1: "poll_dispatch (run_callback ntop show_port E) w (p, Running (traffic a sv)) = Inr (b, s1)"
      "dispatch_loop ntop show_port E rounds s1 = Inr (p', Running sv')"
    using assms(2) by (auto simp: bindE_eq_Inr)
  have "\<exists>sv1. snd s1 = Running sv1"
    using s1(2) by (cases rounds; cases "snd s1") auto
  then obtain p1 sv1 where "s1 = (p1, Running sv1)" by (cases s1) auto
  then show thesis
    using that s1 assms(1) serving.network [OF assms(3), of a] serving.poll [OF serving.network [OF assms(3), of a], of w b p1 sv1]
    by auto
qed

lemma loop_gone:
  "serving ntop show_port E (p, sv) \<Longrightarrow> honest_polls ntop show_port E rounds (p, Running sv) \<Longrightarrow>
   dispatch_loop ntop show_port E rounds (p, Running sv) = Inr (p', Running sv') \<Longrightarrow>
   client_of i sv = None \<Longrightarrow> i < sv_next sv \<Longrightarrow> client_of i sv' = None"
proof (induction rounds arbitrary: p sv)
  case (Cons r rounds)
  obtain a w where r: "r = (a, w)" by (cases r)
  obtain b p1 sv1 where s1: "poll_dispatch (run_callback ntop show_port E) w (p, Running (traffic a sv)) = Inr (b, p1, Running sv1)"
    "dispatch_loop ntop show_port E rounds (p1, Running sv1) = Inr (p', Running sv')"
    "honest p w" "honest_polls ntop show_port E rounds (p1, Running sv1)"
    "serving ntop show_port E (p, traffic a sv)" "serving ntop show_port E (p1, sv1)"
    by (rule loop_turn [OF Cons.prems(2,3) [unfolded r] Cons.prems(1)])
  have "client_of i (traffic a sv) = None" "i < sv_next (traffic a sv)"
    using Cons.prems(4,5) by (simp add: client_of_arrive, cases a, simp add: traffic_def)
  from poll_gone [OF s1(5,3,1) this] Cons.IH [OF s1(6,4,2)] show ?case by simp
qed simp

lemma loop_own_turns:
  "serving ntop show_port E (p, sv) \<Longrightarrow> honest_polls ntop show_port E rounds (p, Running sv) \<Longrightarrow>
   dispatch_loop ntop show_port E rounds (p, Running sv) = Inr (p', Running sv') \<Longrightarrow>
   client_of i sv = Some cl \<Longrightarrow> pl_nodes p n = Some (fd, Some (ClientCb i)) \<Longrightarrow>
   \<exists>f. own_turns E i n rounds cl = Some (Inr f) \<and> client_of i sv' = fate_client f"
proof (induction rounds arbitrary: p sv cl)
  case Nil
  then show ?case by (simp add: fate_client_def)
next
  case (Cons r rounds)
  obtain a w where r: "r = (a, w)" by (cases r)
  obtain b p1 sv1 where s1: "poll_dispatch (run_callback ntop show_port E) w (p, Running (traffic a sv)) = Inr (b, p1, Running sv1)"
    "dispatch_loop ntop show_port E rounds (p1, Running sv1) = Inr (p', Running sv')"
    "honest p w" "honest_polls ntop show_port E rounds (p1, Running sv1)"
    "serving ntop show_port E (p, traffic a sv)" "serving ntop show_port E (p1, sv1)"
    by (rule loop_turn [OF Cons.prems(2,3) [unfolded r] Cons.prems(1)])
  have c: "client_of i (traffic a sv) = Some (arrive i a cl)" using Cons.prems(4) by (simp add: client_of_arrive)
  note t = poll_own_turn [OF s1(5,3,1) c Cons.prems(5)]
  note IH = Cons.IH [OF s1(6,4,2)]
  show ?case
  proof (cases "reported n w")
    case None
    then show ?thesis using t IH by (simp add: r)
  next
    case (Some ev)
    then obtain f where f: "handle_dispatch E (xlate_epoll_to_mask ev) (arrive i a cl) = Some (Inr f)" "client_of i sv1 = fate_client f"
        "\<forall>cl1. f = Alive cl1 \<longrightarrow> pl_nodes p1 n = Some (fd, Some (ClientCb i))"
      using t by auto
    show ?thesis
    proof (cases f)
      case (Alive cl1)
      then show ?thesis using f IH [of cl1] Some by (simp add: r fate_client_def)
    next
      case (Erased cl1)
      have "server_wf (p, traffic a sv)" using serving_invariant [OF s1(5)] by simp
      then have "i < sv_next (traffic a sv)" using server_wfD(2) [of "(p, traffic a sv)" i] map_of_key [of "sv_clients (traffic a sv)" i] c
        by (simp add: client_of_def)
      then have "i < sv_next sv1"
        using s1(1,3) Some server_events_next [OF \<open>server_wf (p, traffic a sv)\<close>, of _ ntop show_port E p1 sv1] honest_events
        by (cases w) (force simp: poll_dispatch_def bindE_eq_Inr)+
      then have "client_of i sv' = None" using loop_gone [OF s1(6,4,2)] f(2) by (simp add: Erased fate_client_def)
      then show ?thesis using f(1) Some by (simp add: r Erased fate_client_def)
    qed
  qed
qed

end
