(* ===== verification/Theme_Edges.thy ===== *)
theory Theme_Edges
  imports Theme_Serving
begin

text \<open>
  Edge-triggered polling. Every descriptor is registered with \<open>EPOLLET\<close>, so the kernel reports input
  when it arrives and not again while it lies there: a turn has to read until the kernel has
  nothing left, and \<open>accept_cb\<close> has to accept until nobody waits. Reading does; accepting stops at
  any error.
\<close>

section \<open>Reading until the kernel has nothing left\<close>

text \<open>
  What a socket still has to give behind the first read that would block; \<open>None\<close> when the stream
  ends or fails before one does.
\<close>

fun after_block :: "recv_ev list \<Rightarrow> recv_ev list option" where
  "after_block [] = Some []"
| "after_block (Rchunk bs # evs) = after_block evs"
| "after_block (Reof # evs) = None"
| "after_block (Rfail e # evs) = (if e = EOTHER then None else Some evs)"

abbreviation unread :: "client_base \<Rightarrow> recv_ev list" where
  "unread c \<equiv> so_in (cb_sock c)"

definition reads_on :: "client_base \<Rightarrow> client_base \<Rightarrow> bool" where
  "reads_on c c' \<longleftrightarrow> after_block (unread c') = after_block (unread c)"

definition reads_up :: "client_base \<Rightarrow> client_base \<Rightarrow> bool" where
  "reads_up c c' \<longleftrightarrow> so_shut (cb_sock c') \<or> after_block (unread c) = Some (unread c')"

lemma reads_on_same [simp]: "unread c' = unread c \<Longrightarrow> reads_on c c'"
  by (simp add: reads_on_def)

lemma reads_on_trans: "reads_on a b \<Longrightarrow> reads_on b c \<Longrightarrow> reads_on a c"
  by (simp add: reads_on_def)

lemma reads_on_up: "reads_on a b \<Longrightarrow> reads_up b c \<Longrightarrow> reads_up a c"
  by (simp add: reads_on_def reads_up_def)

lemma sock_read_until:
  assumes "sock_read n s = ((ok, cnt), data, s')"
  shows "ok \<Longrightarrow> after_block (so_in s') = after_block (so_in s)"
    "\<not> ok \<Longrightarrow> cnt \<noteq> size_max \<Longrightarrow> after_block (so_in s) = Some (so_in s')"
proof -
  show "after_block (so_in s') = after_block (so_in s)" if ok
    using assms that by (cases "so_in s"; cases "hd (so_in s)") (auto simp: sock_read_def sys_read_def split: if_splits)
  show "after_block (so_in s) = Some (so_in s')" if "\<not> ok" "cnt \<noteq> size_max"
    using assms that by (cases "so_in s"; cases "hd (so_in s)")
      (auto simp: sock_read_def sys_read_def split: if_splits intro: errno.exhaust)
qed

definition pass_until :: "client_base \<Rightarrow> client_base pass \<Rightarrow> bool" where
  "pass_until c p \<longleftrightarrow> (case p of Returned b c' \<Rightarrow> if b then reads_on c c' else reads_up c c' | Again c' \<Rightarrow> reads_on c c')"

lemma pass_reads_until:
  assumes "resume_read_pass B ks c = Inr p"
  shows "pass_until c p"
  using assms
proof (cases rule: resume_read_pass_cases)
  case (refused st1 n cnt data so)
  then show ?thesis using sock_read_until(2) [OF refused(2)] by (simp add: pass_until_def reads_up_def sock_shutdown_def)
next
  case (got st1 n cnt data so ns memsz complete st2 dec)
  then show ?thesis using sock_read_until(1) [OF got(2)] by (simp add: pass_until_def reads_on_def)
qed (simp_all add: pass_until_def reads_up_def sock_shutdown_def)

lemma resume_reads_until:
  assumes "resume_read B ks c = Some (Inr (b, c'))"
  shows "if b then reads_on c c' else reads_up c c'"
proof -
  obtain res where res: "resume_read B ks c = Some res" "res = Inr (b, c')" using assms by blast
  from res(1) have "\<forall>b c'. res = Inr (b, c') \<longrightarrow> (if b then reads_on c c' else reads_up c c')"
  proof (induction rule: resume_read_induct)
    case (stop c b c')
    then show ?case using pass_reads_until [of B ks c] by (auto simp: pass_until_def)
  next
    case (again c c1 r)
    then have "reads_on c c1" using pass_reads_until [of B ks c] by (auto simp: pass_until_def)
    then show ?case using again(2) reads_on_trans [of c c1] reads_on_up [of c c1] by (auto split: if_splits)
  qed simp
  then show ?thesis using res(2) by blast
qed

lemma handle_reads_until:
  assumes "handle_read B ks c = Some (Inr (buf, c'))"
  shows "if buf = None then reads_up c c' else reads_on c c'"
proof -
  obtain b c1 where r: "resume_read B ks c = Some (Inr (b, c1))"
    using assms by (auto simp: handle_read_def split: option.splits sum.splits if_splits)
  show ?thesis using resume_reads_until [OF r] resume_read_frame [OF r] assms r
    by (cases b) (auto simp: handle_read_def reads_on_def)
qed

section \<open>Handlers leave the input alone\<close>

locale quiet_handler =
  fixes hread :: "byte list \<Rightarrow> client \<Rightarrow> (bool \<times> client) res"
  assumes quiet: "hread buf cl = Inr (ok, cl') \<Longrightarrow> unread (cl_base cl') = unread (cl_base cl)"
begin

lemma pump_reads_up:
  assumes "pump_read B ks hread cl = Some (Inr cl')"
  shows "reads_up (cl_base cl) (cl_base cl')"
proof -
  obtain r where r: "pump_read B ks hread cl = Some r" "r = Inr cl'" using assms by blast
  from r(1) have "\<forall>cl'. r = Inr cl' \<longrightarrow> reads_up (cl_base cl) (cl_base cl')"
  proof (induction rule: pump_read_induct)
    case (wait cl b)
    then show ?case using handle_reads_until by fastforce
  next
    case (again cl buf b cl1 r)
    have "reads_on (cl_base cl) b" using handle_reads_until [OF again(1)] by simp
    moreover have "unread (cl_base cl1) = unread b" using quiet [OF again(2)] by simp
    ultimately have "reads_on (cl_base cl) (cl_base cl1)" by (simp add: reads_on_def)
    then show ?case using again(4) reads_on_up by blast
  qed (simp_all add: cli_shutdown_def reads_up_def sock_shutdown_def)
  then show ?thesis using r(2) by blast
qed

end

lemma cli_write_unread: "cli_write E ns buf cl = Inr cl' \<Longrightarrow> unread (cl_base cl') = unread (cl_base cl)"
  by (auto simp: cli_write_def enqueue_write_def bindE_eq_Inr Let_def dest: resume_write_so_in split: if_splits prod.splits)

lemma dispatch_msg_unread: "dispatch_msg E buf cl = Inr (ok, cl') \<Longrightarrow> unread (cl_base cl') = unread (cl_base cl)"
  by (auto simp: dispatch_msg_def handle_ping_def handle_fileSrvReq_def handle_authSrvReq_def Let_def bindE_eq_Inr
      dest!: cli_write_unread split: if_splits)

lemma handle_ydata_unread:
  "handle_ydata E keys handle_encryption count buf cl = Inr (ok, cl') \<Longrightarrow> unread (cl_base cl') = unread (cl_base cl)"
  by (auto simp: handle_ydata_def handle_encryption_def handler_simps bindE_eq_Inr dest!: cli_write_unread split: option.splits if_splits)

lemma gatekeeper_read_unread:
  assumes "gatekeeper_read E n buf cl = Inr (ok, cl')" shows "unread (cl_base cl') = unread (cl_base cl)"
  using assms
proof (cases rule: gatekeeper_read_cases)
  case handshake
  then show ?thesis using handshake_cases [OF handshake(3)] by (auto simp: handler_simps)
next
  case ydata
  then show ?thesis using handle_ydata_unread [OF ydata(3)] by simp
next
  case header
  then show ?thesis using read_msg_cases [OF header(3)] by (auto simp: handler_simps)
next
  case message
  then show ?thesis using dispatch_msg_unread [OF message(3)] by (simp add: handler_simps)
qed

interpretation conn_quiet: quiet_handler "handler_read E" for E
  by unfold_locales
    (auto simp: handler_read_def create_gate_def handler_simps dest: gatekeeper_read_unread incoming_cases split: handler.splits)

lemma pump_write_unread: "unread (pump_write c) = unread c"
proof (induction c rule: pump_write.induct)
  case (1 c)
  have "unread c' = unread c" if "handle_write c = (b, c')" for b c'
    using that by (auto simp: handle_write_def dest: resume_write_so_in split: list.splits prod.splits if_splits)
  then show ?case using 1 by (subst pump_write.simps) (auto split: prod.splits)
qed

lemma turn_reads_up:
  assumes "handle_dispatch E events cl = Some (Inr (Alive cl'))" "events AND ev_read \<noteq> 0"
  shows "reads_up (cl_base cl) (cl_base cl')"
proof -
  define cl1 where "cl1 = (if events AND ev_write \<noteq> 0 then cli_pump_write cl else cl)"
  have "pump_read (en_build E) (en_ks E) (handler_read E) cl1 = Some (Inr cl')"
    using assms by (auto simp: handle_dispatch_def Let_def cl1_def split: if_splits option.splits sum.splits)
  from conn_quiet.pump_reads_up [OF this] show ?thesis
    by (auto simp: reads_up_def cl1_def cli_pump_write_def pump_write_unread split: if_splits)
qed

lemma poll_reads_up:
  assumes "server_wf (p, sv)" "distinct (map (\<lambda>(ev, n, ok). n) es)"
    and "list_all (\<lambda>(ev, n, ok). pl_nodes p n \<noteq> None \<and> (is_hup ev \<longrightarrow> ok)) es"
    and "poll_dispatch (run_callback ntop show_port E) (Events es) (p, Running sv) = Inr (b, p', Running sv')"
    and "client_of i sv = Some cl" "(ev, n, ok) \<in> set es" "pl_nodes p n = Some (fd, Some (ClientCb i))"
    and "ev AND EPOLLIN \<noteq> 0" "\<not> is_hup ev"
  shows "\<exists>cl'. client_of i sv' = Some cl' \<and> reads_up (cl_base cl) (cl_base cl')"
proof -
  obtain f where f: "handle_dispatch E (xlate_epoll_to_mask ev) cl = Some (Inr f)" "client_of i sv' = fate_client f"
    using server_events_clients [OF assms(1-5)] assms(6,7) by blast
  have m: "xlate_epoll_to_mask ev AND ev_read \<noteq> 0" using assms(8) by (simp add: read_reported)
  obtain cl' where "f = Alive cl'"
    using f(1) assms(9) by (cases f) (auto simp: handle_dispatch_def Let_def is_hup_def split: if_splits option.splits sum.splits)
  then show ?thesis using f turn_reads_up [OF _ m, of E cl cl'] by (simp add: fate_client_def)
qed

section \<open>Accepting\<close>

lemma accept_loop_waiting:
  "accept_loop ntop show_port (map Inr cs @ Inl e # rest) (p, sv) = (p', sv') \<Longrightarrow>
   sv_backlog sv' = rest \<and> length (sv_clients sv') = length (sv_clients sv) + length cs"
proof (induction cs arbitrary: p sv)
  case (Cons c cs)
  then show ?case by (cases c) (auto simp: Let_def emplace_client_def split: prod.splits)
qed auto

lemma edge_triggered: "xlate_mask_to_epoll m AND EPOLLET \<noteq> 0"
proof -
  have "bit EPOLLET 31" by (simp add: EPOLLET_def)
  then have "bit (xlate_mask_to_epoll m) 31" by (simp add: xlate_mask_to_epoll_def Let_def bit_or_iff)
  then show ?thesis using and_pow2 [of "xlate_mask_to_epoll m" 31] by (simp add: EPOLLET_def)
qed

lemma listens_on_edges:
  assumes "init_fds B L ntop show_port hostlookup try listens created ctl_ok config = Some (Inr (b, Some p, s))"
  shows "\<exists>mask n. pl_kernel p (so_fd s) = Some (mask, n) \<and> mask AND EPOLLET \<noteq> 0"
proof -
  obtain sk where sk: "bindE (epoll_new created) (\<lambda>p0. case add_fd ctl_ok (so_fd sk) ev_read (Some AcceptCb) p0 of
        (added, p1) \<Rightarrow> bindE (assertr added) (\<lambda>_. Inr (True, Some p1, sk))) = Inr (b, Some p, s)"
    by (rule init_fds_watched [OF assms])
  then show ?thesis
    using edge_triggered by (auto simp: bindE_eq_Inr assertr_def epoll_new_def add_fd_def Let_def split: prod.splits if_splits)
qed

end
