(* ===== verification/Theme_Service.thy ===== *)
theory Theme_Service
  imports Theme_Own_Turns Theme_Turns Theme_Edges
begin

text \<open>
  The service as a whole: a connection that is accepted by the running daemon, opens with its
  header and its half of the key exchange and then sends requests in any number of bursts gets
  all its replies, whatever else the daemon does in the same rounds.
\<close>

section \<open>A client that is served\<close>

text \<open>
  What the rounds bring client \<open>i\<close> at node \<open>n\<close>: one burst of bytes with every report that it is
  readable, nothing otherwise, and no hang-up.
\<close>

fun delivers :: "nat \<Rightarrow> nat \<Rightarrow> (arrivals \<times> wait) list \<Rightarrow> byte list list \<Rightarrow> bool" where
  "delivers i n [] bss \<longleftrightarrow> bss = []"
| "delivers i n ((a, w) # rounds) bss \<longleftrightarrow>
     (case reported n w of
        None \<Rightarrow> fst a i = [] \<and> delivers i n rounds bss
      | Some ev \<Rightarrow> \<not> is_hup ev \<and>
          (if ev AND EPOLLIN = 0 then fst a i = [] \<and> delivers i n rounds bss
           else bss \<noteq> [] \<and> fst a i = [Rchunk (hd bss)] \<and> delivers i n rounds (tl bss)))"

text \<open>From \<open>cl\<close> to \<open>cl'\<close> the requests \<open>rs\<close> were answered.\<close>

definition answered :: "env \<Rightarrow> request list \<Rightarrow> client \<Rightarrow> client \<Rightarrow> bool" where
  "answered E rs cl cl' \<longleftrightarrow> ready cl' \<and>
     outgoing (cl_base cl') = outgoing (cl_base cl) @ fst (evp_update (en_ks E) (cb_encrypt (cl_base cl)) (concat (map (reply_wire E) rs))) \<and>
     cb_encrypt (cl_base cl') = snd (evp_update (en_ks E) (cb_encrypt (cl_base cl)) (concat (map (reply_wire E) rs))) \<and>
     cb_decrypt (cl_base cl') = snd (evp_update (en_ks E) (cb_decrypt (cl_base cl)) (concat (map request_wire rs)))"

text \<open>Two clients that differ in the kernel's view of them only.\<close>

definition same_talk :: "client \<Rightarrow> client \<Rightarrow> bool" where
  "same_talk cl cl' \<longleftrightarrow> (ready cl \<longrightarrow> ready cl') \<and> outgoing (cl_base cl') = outgoing (cl_base cl) \<and>
     cb_encrypt (cl_base cl') = cb_encrypt (cl_base cl) \<and> cb_decrypt (cl_base cl') = cb_decrypt (cl_base cl)"

lemma answered_Nil: "ready cl \<Longrightarrow> same_talk cl cl' \<Longrightarrow> answered E [] cl cl'"
  by (simp add: answered_def same_talk_def evp.upd_Nil)

lemma answered_talk: "same_talk cl cl1 \<Longrightarrow> answered E rs cl1 cl' \<Longrightarrow> answered E rs cl cl'"
  by (simp add: answered_def same_talk_def)

lemma answered_append: "answered E rs a b \<Longrightarrow> answered E rs' b c \<Longrightarrow> answered E (rs @ rs') a c"
  by (simp add: answered_def evp.out_append evp.state_append)

lemma arrive_talk: "same_talk cl (arrive i a cl)"
  by (simp add: same_talk_def arrive_def ready_def phase_flags wf_writes_def outgoing_def queued_def)

lemma pump_write_talk:
  assumes "ready cl" shows "same_talk cl (cli_pump_write cl)"
proof -
  have wf: "wf_writes (cl_base cl)" using assms by (simp add: ready_def)
  show ?thesis using pump_write_keeps [OF wf] pump_write_frame [of "cl_base cl"]
    by (auto simp: same_talk_def cli_pump_write_def ready_def phase_flags)
qed

lemma turn_quiet:
  assumes "ready cl" "\<not> is_hup ev" "ev AND EPOLLIN = 0"
  shows "\<exists>cl'. handle_dispatch E (xlate_epoll_to_mask ev) cl = Some (Inr (Alive cl')) \<and> same_talk cl cl'"
proof -
  have "xlate_epoll_to_mask ev AND ev_read = 0" using assms(3) by (simp add: read_reported)
  moreover have "same_talk cl cl" by (simp add: same_talk_def)
  ultimately show ?thesis using pump_write_talk [OF assms(1)] assms(2) by (simp add: handle_dispatch_def Let_def is_hup_def)
qed

lemma turn_answers:
  assumes "wf_env E" "ready cl" "\<not> is_hup ev" "ev AND EPOLLIN \<noteq> 0" "rs \<noteq> []" "list_all request_fits rs"
    and "unread (cl_base cl) = [Rchunk (fst (evp_update (en_ks E) (cb_decrypt (cl_base cl)) (concat (map request_wire rs))))]"
  shows "\<exists>cl'. handle_dispatch E (xlate_epoll_to_mask ev) cl = Some (Inr (Alive cl')) \<and> answered E rs cl cl'"
proof -
  define cl1 where "cl1 = (if xlate_epoll_to_mask ev AND ev_write \<noteq> 0 then cli_pump_write cl else cl)"
  have t: "same_talk cl cl1" using pump_write_talk [OF assms(2)] by (simp add: cl1_def same_talk_def)
  have "unread (cl_base cl1) = unread (cl_base cl)" by (simp add: cl1_def cli_pump_write_def pump_write_unread)
  then obtain cl' where "pump_read (en_build E) (en_ks E) (handler_read E) cl1 = Some (Inr cl')" "answered E rs cl1 cl'"
    using conversation [OF assms(1,6) refl _ refl refl, of cl1] t assms(2,5,7) by (auto simp: answered_def same_talk_def)
  moreover have "xlate_epoll_to_mask ev AND ev_read \<noteq> 0" using assms(4) by (simp add: read_reported)
  ultimately show ?thesis using answered_talk [OF t] assms(3) by (simp add: handle_dispatch_def Let_def is_hup_def cl1_def)
qed

lemma own_turns_answer:
  assumes "wf_env E"
  shows "ready cl \<Longrightarrow> list_all (\<lambda>rs. rs \<noteq> [] \<and> list_all request_fits rs) rss \<Longrightarrow>
    delivers i n rounds (bursts (en_ks E) (cb_decrypt (cl_base cl)) rss) \<Longrightarrow>
    \<exists>cl'. own_turns E i n rounds cl = Some (Inr (Alive cl')) \<and> answered E (concat rss) cl cl'"
proof (induction rounds arbitrary: cl rss)
  case Nil
  then show ?case by (cases rss) (simp_all add: answered_Nil same_talk_def Let_def)
next
  case (Cons r rounds)
  obtain a w where r: "r = (a, w)" by (cases r)
  let ?cl = "arrive i a cl"
  have t: "same_talk cl ?cl" by (rule arrive_talk)
  have rd: "ready ?cl" and dec: "cb_decrypt (cl_base ?cl) = cb_decrypt (cl_base cl)" using t Cons.prems(1) by (simp_all add: same_talk_def)
  show ?case
  proof (cases "reported n w")
    case None
    then obtain cl' where "own_turns E i n rounds ?cl = Some (Inr (Alive cl'))" "answered E (concat rss) ?cl cl'"
      using Cons.IH [OF rd Cons.prems(2)] Cons.prems(3) dec by (auto simp: r)
    then show ?thesis using None answered_talk [OF t] by (simp add: r)
  next
    case (Some ev)
    note ds = Cons.prems(3) [unfolded r delivers.simps Some option.case]
    show ?thesis
    proof (cases "ev AND EPOLLIN = 0")
      case True
      then obtain cl1 where c1: "handle_dispatch E (xlate_epoll_to_mask ev) ?cl = Some (Inr (Alive cl1))" "same_talk ?cl cl1"
        using turn_quiet [OF rd] ds by blast
      then have "ready cl1" "cb_decrypt (cl_base cl1) = cb_decrypt (cl_base cl)" using rd dec by (simp_all add: same_talk_def)
      then obtain cl' where "own_turns E i n rounds cl1 = Some (Inr (Alive cl'))" "answered E (concat rss) cl1 cl'"
        using Cons.IH [OF _ Cons.prems(2), of cl1] ds True by auto
      then show ?thesis using Some c1(1) answered_talk [OF t answered_talk [OF c1(2)]] by (simp add: r)
    next
      case False
      then obtain rs rss' where rss: "rss = rs # rss'" using ds by (cases rss) auto
      have in_: "unread (cl_base ?cl) = [Rchunk (fst (evp_update (en_ks E) (cb_decrypt (cl_base ?cl)) (concat (map request_wire rs))))]"
        using ds False by (simp add: rss Let_def arrive_def)
      obtain cl1 where c1: "handle_dispatch E (xlate_epoll_to_mask ev) ?cl = Some (Inr (Alive cl1))" "answered E rs ?cl cl1"
        using turn_answers [OF assms rd _ False _ _ in_] ds Cons.prems(2) by (auto simp: rss)
      have c1': "ready cl1" "cb_decrypt (cl_base cl1) = snd (evp_update (en_ks E) (cb_decrypt (cl_base cl)) (concat (map request_wire rs)))"
        using c1(2) dec by (simp_all add: answered_def)
      obtain cl' where "own_turns E i n rounds cl1 = Some (Inr (Alive cl'))" "answered E (concat rss') cl1 cl'"
        using Cons.IH [OF c1'(1), of rss'] Cons.prems(2) ds False c1'(2) by (auto simp: rss Let_def)
      then show ?thesis using Some c1(1) answered_append [OF answered_talk [OF t c1(2)]] by (simp add: r rss)
    qed
  qed
qed

text \<open>A new client: until its opening arrives nothing happens to it.\<close>

lemma arrive_new: "arrive i a (client_new s polled) = client_new (s\<lparr>so_in := fst a i, so_out := fst (snd a) i\<rparr>) polled"
  by (simp add: arrive_def client_new_def cli_read_def read_struct_def client_base_new_def sock_move_def)

lemma pump_write_new: "cli_pump_write (client_new s polled) = client_new s polled"
  by (simp add: cli_pump_write_def pump_write.simps handle_write_def client_new_fresh)

lemma own_session:
  assumes "wf_env E" "length header = 35 + k" "k \<le> 29" "header ! 0 = e_protocolCli2Gate" "le_val (take 4 (drop 31 header)) = k + 4"
    and "0 < gd_cryptN (en_gate E)" "gd_cryptN (en_gate E) < 256 ^ kKeySize"
    and "y = le_bytes kKeySize (bn_mod_exp g b (gd_cryptN (en_gate E)))" "key = session_key E g b"
    and "list_all (\<lambda>rs. rs \<noteq> [] \<and> list_all request_fits rs) rss"
  shows "delivers i n rounds ((header @ [e_c2s_connect, 66] @ y) # bursts (en_ks E) (EvpRc4 key 0) rss) \<Longrightarrow>
    \<exists>cl'. own_turns E i n rounds (client_new s polled) = Some (Inr (Alive cl')) \<and> ready cl' \<and>
      outgoing (cl_base cl') = so_sent s @ [1, 9] @ en_rand E @
        fst (evp_update (en_ks E) (EvpRc4 key 0) (concat (map (reply_wire E) (concat rss))))"
proof (induction rounds arbitrary: s)
  case (Cons r rounds)
  obtain a w where r: "r = (a, w)" by (cases r)
  let ?s = "s\<lparr>so_in := fst a i, so_out := fst (snd a) i\<rparr>"
  show ?case
  proof (cases "reported n w")
    case None
    then show ?thesis using Cons.IH [of ?s] Cons.prems by (simp add: r arrive_new)
  next
    case (Some ev)
    note ds = Cons.prems [unfolded r delivers.simps Some option.case]
    have m: "xlate_epoll_to_mask ev AND ev_hup = 0" using ds by (simp add: is_hup_def)
    have h: "handle_dispatch E (xlate_epoll_to_mask ev) (client_new ?s polled) =
        (if ev AND EPOLLIN = 0 then Some (Inr (Alive (client_new ?s polled)))
         else case pump_read (en_build E) (en_ks E) (handler_read E) (client_new ?s polled) of
           None \<Rightarrow> None | Some (Inl e) \<Rightarrow> Some (Inl e) | Some (Inr cl2) \<Rightarrow> Some (Inr (Alive cl2)))"
      using m by (simp add: handle_dispatch_def Let_def pump_write_new read_reported)
    show ?thesis
    proof (cases "ev AND EPOLLIN = 0")
      case True
      then show ?thesis using Cons.IH [of ?s] ds Some h by (simp add: r arrive_new)
    next
      case False
      then have in_: "so_in ?s = [Rchunk (header @ [e_c2s_connect, 66] @ y)]" using ds by simp
      obtain cl1 where c1: "pump_read (en_build E) (en_ks E) (handler_read E) (client_new ?s polled) = Some (Inr cl1)" "ready cl1"
          "outgoing (cl_base cl1) = so_sent s @ [1, 9] @ en_rand E"
          "cb_encrypt (cl_base cl1) = EvpRc4 key 0" "cb_decrypt (cl_base cl1) = EvpRc4 key 0"
        using opening_succeeds [OF assms(1) in_ assms(2-8), of polled] assms(9) by auto
      obtain cl' where "own_turns E i n rounds cl1 = Some (Inr (Alive cl'))" "answered E (concat rss) cl1 cl'"
        using own_turns_answer [OF assms(1) c1(2) assms(10), of i n rounds] ds False c1(5) by auto
      then show ?thesis using Some c1 h False by (auto simp: r arrive_new answered_def)
    qed
  qed
qed simp

section \<open>A client that connects\<close>

text \<open>The events of the other nodes leave alone what accepting works on.\<close>

lemma client_event_frame:
  assumes "wf_poll p" "pl_nodes p n = Some (fd0, cb)" "cb \<noteq> Some AcceptCb" "is_hup ev \<longrightarrow> ok"
    and "dispatch_event (run_callback ntop show_port E) (ev, n, ok) (p, Running sv) = Inr (p', Running sv')"
  shows "pl_next p' = pl_next p" "sv_next sv' = sv_next sv" "sv_backlog sv' = sv_backlog sv"
    "pl_callbacks p fd = None \<Longrightarrow> pl_callbacks p' fd = None"
proof -
  define p1 where "p1 = (if is_hup ev then p\<lparr>pl_kernel := (pl_kernel p)(fd0 := None)\<rparr> else p)"
  define s2 where "s2 = (case cb of Some f \<Rightarrow> run_callback ntop show_port E f fd0 (xlate_epoll_to_mask ev) (p1, Running sv)
    | None \<Rightarrow> (p1, Running sv))"
  have res: "(if is_hup ev then (erase_node n (fst s2), snd s2) else s2) = (p', Running sv')"
    using dispatch_event_result(1) [OF assms(1,2,4) p1_def s2_def] assms(5) by simp
  then have sv2: "snd s2 = Running sv'" by (auto split: if_splits)
  have s2: "fst s2 = p1 \<and> sv_next sv' = sv_next sv \<and> sv_backlog sv' = sv_backlog sv"
  proof (cases cb)
    case (Some f)
    then obtain i where "f = ClientCb i" using assms(3) by (cases f) auto
    then show ?thesis using sv2
      by (auto simp: s2_def Some run_callback_def set_client_def erase_client_def dest: erased_client_leaves_poll
          split: option.splits sum.splits fate.splits)
  qed (use sv2 in \<open>simp add: s2_def\<close>)
  have p1: "pl_next p1 = pl_next p" "pl_callbacks p1 = pl_callbacks p" by (simp_all add: p1_def)
  have p': "p' = (if is_hup ev then erase_node n p1 else p1)" using res s2 by (auto split: if_splits)
  show "sv_next sv' = sv_next sv" "sv_backlog sv' = sv_backlog sv" using s2 by simp_all
  show "pl_next p' = pl_next p" "pl_callbacks p fd = None \<Longrightarrow> pl_callbacks p' fd = None"
    using p1 by (auto simp: p' erase_node_def split: option.splits)
qed

text \<open>Accepting makes the client and the node.\<close>

definition accepted :: "(sockaddr \<Rightarrow> string option) \<Rightarrow> (nat \<Rightarrow> string) \<Rightarrow> int \<times> sockaddr \<times> recv_ev list \<times> send_ev list \<times> bool \<Rightarrow> sock" where
  "accepted ntop show_port q = (case q of (fd, addr, ins, outs, ok) \<Rightarrow>
     (snd (sock_accept ntop show_port (Inr (fd, addr)) sock_new))\<lparr>so_in := ins, so_out := outs\<rparr>)"

lemma accepted_fd: "so_fd (accepted ntop show_port (fd, q)) = fd" "so_sent (accepted ntop show_port (fd, q)) = []"
  by (cases q; simp add: accepted_def sock_accept_def setfd_addr_def Let_def sock_new_def split: sockaddr.splits option.splits)+

lemma accept_event:
  assumes "server_wf (p, sv)" "pl_nodes p l = Some (lfd, Some AcceptCb)" "\<not> is_hup ev" "ev AND EPOLLIN \<noteq> 0"
    and "sv_backlog sv = Inr (fd, addr, ins, outs, True) # rest" "pl_callbacks p fd = None"
    and "dispatch_event (run_callback ntop show_port E) (ev, l, ok) (p, Running sv) = Inr (p', Running sv')"
  shows "client_of (sv_next sv) sv' = Some (client_new (accepted ntop show_port (fd, addr, ins, outs, True)) True)"
    "pl_nodes p' (pl_next p) = Some (fd, Some (ClientCb (sv_next sv)))" "sv_next sv < sv_next sv'"
proof -
  let ?s = "accepted ntop show_port (fd, addr, ins, outs, True)"
  have wf: "wf_poll p" using server_wfD(1) [OF assms(1)] by simp
  define ps where "ps = emplace_client ?s True (p, sv)"
  have m: "xlate_epoll_to_mask ev AND ev_read \<noteq> 0" using assms(4) by (simp add: read_reported)
  have "accept_cb ntop show_port (xlate_epoll_to_mask ev) (p, sv) = accept_loop ntop show_port rest ps"
    using m by (simp add: accept_cb_def assms(5) ps_def accepted_def Let_def)
  then have s': "accept_loop ntop show_port rest ps = (p', sv')"
    using dispatch_event_result(1) [OF wf assms(2) _ refl refl, of ev ok ntop show_port E "Running sv"] assms(3,7)
    by (auto simp: run_callback_def split: prod.splits)
  have n: "pl_nodes (fst ps) (pl_next p) = Some (fd, Some (ClientCb (sv_next sv)))"
    using assms(6) by (simp add: ps_def emplace_client_def add_fd_def Let_def accepted_fd)
  have i: "sv_next sv \<notin> fst ` set (sv_clients sv)" using server_wfD(2) [OF assms(1)] by force
  have c: "client_of (sv_next sv) (snd ps) = Some (client_new ?s True)" "sv_next (snd ps) = Suc (sv_next sv)"
    using assms(6) map_of_eq_None_iff [of "sv_clients sv" "sv_next sv"] i
    by (simp_all add: ps_def emplace_client_def add_fd_def Let_def accepted_fd client_of_def map_add_def)
  have "wf_poll (fst ps)" using emplace_client_poll(1) [of "(p, sv)"] wf by (simp add: ps_def)
  then show "pl_nodes p' (pl_next p) = Some (fd, Some (ClientCb (sv_next sv)))"
    using accept_loop_poll [of ps ntop show_port rest] n s' by simp
  show "client_of (sv_next sv) sv' = Some (client_new ?s True)" "sv_next sv < sv_next sv'"
    using accept_loop_keeps_client [of "sv_next sv" ps ntop show_port rest] c s' by simp_all
qed

text \<open>A poll that reports the listening socket among others.\<close>

lemma accept_poll:
  "server_wf (p, sv) \<Longrightarrow> distinct (map (\<lambda>(ev, n, ok). n) es) \<Longrightarrow>
   list_all (\<lambda>(ev, n, ok). pl_nodes p n \<noteq> None \<and> (is_hup ev \<longrightarrow> ok)) es \<Longrightarrow>
   dispatch_events (run_callback ntop show_port E) es (p, Running sv) = Inr (p', Running sv') \<Longrightarrow>
   list_all (\<lambda>(ev, n, ok). n = l \<or> (\<forall>fd. pl_nodes p n \<noteq> Some (fd, Some AcceptCb))) es \<Longrightarrow>
   pl_nodes p l = Some (lfd, Some AcceptCb) \<Longrightarrow> event_of l es = Some ev \<Longrightarrow> \<not> is_hup ev \<Longrightarrow> ev AND EPOLLIN \<noteq> 0 \<Longrightarrow>
   sv_backlog sv = Inr (fd, addr, ins, outs, True) # rest \<Longrightarrow> pl_callbacks p fd = None \<Longrightarrow>
   client_of (sv_next sv) sv' = Some (client_new (accepted ntop show_port (fd, addr, ins, outs, True)) True) \<and>
   pl_nodes p' (pl_next p) = Some (fd, Some (ClientCb (sv_next sv)))"
proof (induction es arbitrary: p sv)
  case (Cons e es)
  obtain ev1 n ok where e: "e = (ev1, n, ok)" by (metis prod_cases3)
  obtain p1 sv1 where s1: "dispatch_event (run_callback ntop show_port E) (ev1, n, ok) (p, Running sv) = Inr (p1, Running sv1)"
    "dispatch_events (run_callback ntop show_port E) es (p1, Running sv1) = Inr (p', Running sv')" "server_wf (p1, sv1)"
    "list_all (\<lambda>(ev, n, ok). pl_nodes p1 n \<noteq> None \<and> (is_hup ev \<longrightarrow> ok)) es"
    "list_all (\<lambda>(_, n', _). n' \<noteq> n \<and> pl_nodes p1 n' = pl_nodes p n') es"
    by (rule server_event_step [OF Cons.prems(1-4) [unfolded e]])
  have d: "distinct (map (\<lambda>(ev, n, ok). n) es)" using Cons.prems(2) by simp
  have wf: "wf_poll p" using server_wfD(1) [OF Cons.prems(1)] by simp
  obtain fd0 cb where nd: "pl_nodes p n = Some (fd0, cb)" "is_hup ev1 \<longrightarrow> ok" using Cons.prems(3) by (auto simp: e)
  show ?case
  proof (cases "n = l")
    case True
    then have ev1: "ev1 = ev" using Cons.prems(7) by (simp add: e event_of_def)
    note a = accept_event [OF Cons.prems(1,6,8,9,10,11) s1(1) [unfolded True ev1]]
    have no: "event_of (pl_next p) es = None"
    proof (cases "event_of (pl_next p) es")
      case (Some ev')
      then obtain ok' where "(ev', pl_next p, ok') \<in> set es" using event_of_Some [OF d] by blast
      then have "pl_nodes p (pl_next p) \<noteq> None" using Cons.prems(3) by (fastforce simp: list_all_iff)
      then show ?thesis using fresh_node [OF wf] by simp
    qed
    then have "list_all (\<lambda>(ev, n, ok). \<forall>fd. pl_nodes p1 n \<noteq> Some (fd, Some (ClientCb (sv_next sv)))) es"
      using server_wfD(4) [OF s1(3), unfolded fst_conv, OF a(2)] event_of_Some [OF d, of "pl_next p"] by (auto simp: list_all_iff)
    then have "client_of (sv_next sv) sv' = client_of (sv_next sv) sv1"
      using server_events_keep [OF s1(3) d s1(4,2) a(3)] by blast
    moreover have "pl_nodes p' (pl_next p) = Some (fd, Some (ClientCb (sv_next sv)))"
      using events_keep_node [OF s1(3) d s1(4,2) a(2)] no by simp
    ultimately show ?thesis using a(1) by simp
  next
    case False
    then have cb: "cb \<noteq> Some AcceptCb" using Cons.prems(5) nd by (auto simp: e)
    note fr = client_event_frame [OF wf nd(1) cb nd(2) s1(1)]
    have ev: "event_of l es = Some ev" using Cons.prems(7) False by (simp add: e event_of_def)
    then have l1: "pl_nodes p1 l = Some (lfd, Some AcceptCb)"
      using s1(5) Cons.prems(6) event_of_Some [OF d] by (auto simp: list_all_iff)
    have "list_all (\<lambda>(ev, n, ok). n = l \<or> (\<forall>fd. pl_nodes p1 n \<noteq> Some (fd, Some AcceptCb))) es"
      using Cons.prems(5) s1(5) by (fastforce simp: list_all_iff)
    from Cons.IH [OF s1(3) d s1(4,2) this l1 ev Cons.prems(8,9)] fr Cons.prems(10,11) show ?thesis by simp
  qed
qed (simp add: event_of_def)

text \<open>The listening socket is the first node of the poll, and no other node accepts.\<close>

definition one_listener :: "server_poll \<Rightarrow> bool" where
  "one_listener p \<longleftrightarrow> (\<forall>n fd. pl_nodes p n = Some (fd, Some AcceptCb) \<longrightarrow> n = 0)"

lemma accept_loop_listener: "wf_poll (fst ps) \<Longrightarrow> one_listener (fst ps) \<Longrightarrow> one_listener (fst (accept_loop ntop show_port rs ps))"
proof (induction rs arbitrary: ps)
  case Nil
  then show ?case by (cases ps) simp
next
  case (Cons r rs)
  obtain p sv where ps: "ps = (p, sv)" by (cases ps)
  have "one_listener (fst (emplace_client s ok ps))" for s ok
    using Cons.prems add_fd_nodes [of p ok "so_fd s" client_events "Some (ClientCb (sv_next sv))"]
    by (fastforce simp: one_listener_def ps emplace_client_def split: prod.splits)
  then have "one_listener (fst (accept_loop ntop show_port rs (emplace_client s ok ps)))" for s ok
    using Cons.IH [of "emplace_client s ok ps"] emplace_client_poll(1) [OF Cons.prems(1)] by blast
  then show ?case using Cons.prems by (cases r) (auto simp: ps Let_def)
qed

lemma event_listener:
  assumes "wf_poll p" "one_listener p" "pl_nodes p n \<noteq> None" "is_hup ev \<longrightarrow> ok"
    and "dispatch_event (run_callback ntop show_port E) (ev, n, ok) (p, w) = Inr (p', w')"
  shows "one_listener p'"
proof -
  obtain fd cb where nd: "pl_nodes p n = Some (fd, cb)" using assms(3) by auto
  define p1 where "p1 = (if is_hup ev then p\<lparr>pl_kernel := (pl_kernel p)(fd := None)\<rparr> else p)"
  define s2 where "s2 = (case cb of Some f \<Rightarrow> run_callback ntop show_port E f fd (xlate_epoll_to_mask ev) (p1, w) | None \<Rightarrow> (p1, w))"
  have p1: "wf_poll p1" "one_listener p1" using assms(1,2) kernel_entry_dropped_wf [of p fd] by (auto simp: p1_def one_listener_def)
  have "fst s2 = p1 \<or> (\<exists>sv rs. fst s2 = fst (accept_loop ntop show_port rs (p1, sv)))"
    by (auto simp: s2_def run_callback_def accept_cb_def dest: erased_client_leaves_poll
        split: world.splits callback.splits option.splits sum.splits fate.splits prod.splits) (metis fst_conv)+
  then have "one_listener (fst s2)" using p1 accept_loop_listener [of "(p1, _)"] by auto
  moreover have "p' = (if is_hup ev then erase_node n (fst s2) else fst s2)"
    using dispatch_event_result(1) [OF assms(1) nd assms(4) p1_def s2_def] assms(5) by (auto split: if_splits simp: prod_eq_iff)
  ultimately show ?thesis by (auto simp: one_listener_def erase_node_def split: option.splits if_splits)
qed

lemma events_listener:
  "server_wf (p, sv) \<Longrightarrow> distinct (map (\<lambda>(ev, n, ok). n) es) \<Longrightarrow>
   list_all (\<lambda>(ev, n, ok). pl_nodes p n \<noteq> None \<and> (is_hup ev \<longrightarrow> ok)) es \<Longrightarrow>
   dispatch_events (run_callback ntop show_port E) es (p, Running sv) = Inr (p', Running sv') \<Longrightarrow> one_listener p \<Longrightarrow> one_listener p'"
proof (induction es arbitrary: p sv)
  case (Cons e es)
  obtain ev n ok where e: "e = (ev, n, ok)" by (metis prod_cases3)
  obtain p1 sv1 where s1: "dispatch_event (run_callback ntop show_port E) (ev, n, ok) (p, Running sv) = Inr (p1, Running sv1)"
    "dispatch_events (run_callback ntop show_port E) es (p1, Running sv1) = Inr (p', Running sv')" "server_wf (p1, sv1)"
    "list_all (\<lambda>(ev, n, ok). pl_nodes p1 n \<noteq> None \<and> (is_hup ev \<longrightarrow> ok)) es"
    "list_all (\<lambda>(_, n', _). n' \<noteq> n \<and> pl_nodes p1 n' = pl_nodes p n') es"
    by (rule server_event_step [OF Cons.prems(1-4) [unfolded e]])
  have "one_listener p1"
    by (rule event_listener [OF _ Cons.prems(5) _ _ s1(1)]) (use Cons.prems(1,3) server_wfD(1) [of "(p, sv)"] in \<open>auto simp: e\<close>)
  then show ?case using Cons.IH [OF s1(3) _ s1(4,2)] Cons.prems(2) by simp
qed simp

lemma serving_listener: "serving ntop show_port E ps \<Longrightarrow> one_listener (fst ps)"
proof (induction rule: serving.induct)
  case (start p0 ctl_ok s p backlog)
  then show ?case by (auto simp: one_listener_def epoll_new_def add_fd_def Let_def bindE_eq_Inr split: if_splits)
next
  case (poll p sv w r p' sv')
  show ?case
  proof (cases w)
    case (Events es)
    then have d: "dispatch_events (run_callback ntop show_port E) es (p, Running sv) = Inr (p', Running sv')"
      using poll(3) by (auto simp: poll_dispatch_def bindE_eq_Inr)
    have "server_wf (p, sv)" using serving_invariant [OF poll(1)] by simp
    then show ?thesis using events_listener [OF _ _ _ d] honest_events [of p es] poll(2,4) Events by simp
  qed (use poll in \<open>auto simp: poll_dispatch_def honest_def\<close>)
qed simp

text \<open>From the connection to the last reply.\<close>

lemma connection_answered:
  assumes "wf_env E" "serving ntop show_port E (p, sv)" "honest_polls ntop show_port E ((a, Events es) # rounds) (p, Running sv)"
    and "dispatch_loop ntop show_port E ((a, Events es) # rounds) (p, Running sv) = Inr (p', Running sv')"
    and "event_of 0 es = Some ev" "ev AND EPOLLIN \<noteq> 0" "\<not> is_hup ev" "pl_nodes p 0 = Some (lfd, Some AcceptCb)"
    and "snd (snd a) = Inr (fd, addr, ins, outs, True) # rest" "pl_callbacks p fd = None"
    and "delivers (sv_next sv) (pl_next p) rounds ((header @ [e_c2s_connect, 66] @ y) # bursts (en_ks E) (EvpRc4 key 0) rss)"
    and "length header = 35 + k" "k \<le> 29" "header ! 0 = e_protocolCli2Gate" "le_val (take 4 (drop 31 header)) = k + 4"
    and "0 < gd_cryptN (en_gate E)" "gd_cryptN (en_gate E) < 256 ^ kKeySize"
    and "y = le_bytes kKeySize (bn_mod_exp g b (gd_cryptN (en_gate E)))" "key = session_key E g b"
    and "list_all (\<lambda>rs. rs \<noteq> [] \<and> list_all request_fits rs) rss"
  shows "\<exists>cl. client_of (sv_next sv) sv' = Some cl \<and> ready cl \<and>
    outgoing (cl_base cl) = [1, 9] @ en_rand E @ fst (evp_update (en_ks E) (EvpRc4 key 0) (concat (map (reply_wire E) (concat rss))))"
proof -
  let ?sv = "traffic a sv" and ?q = "(fd, addr, ins, outs, True)"
  obtain b p1 sv1 where s1: "poll_dispatch (run_callback ntop show_port E) (Events es) (p, Running ?sv) = Inr (b, p1, Running sv1)"
    "dispatch_loop ntop show_port E rounds (p1, Running sv1) = Inr (p', Running sv')"
    "honest p (Events es)" "honest_polls ntop show_port E rounds (p1, Running sv1)"
    "serving ntop show_port E (p, ?sv)" "serving ntop show_port E (p1, sv1)"
    by (rule loop_turn [OF assms(3,4,2)])
  have wf: "server_wf (p, ?sv)" using serving_invariant [OF s1(5)] by simp
  have es: "distinct (map (\<lambda>(ev, n, ok). n) es)" "list_all (\<lambda>(ev, n, ok). pl_nodes p n \<noteq> None \<and> (is_hup ev \<longrightarrow> ok)) es"
    using honest_events s1(3) by simp_all
  have d: "dispatch_events (run_callback ntop show_port E) es (p, Running ?sv) = Inr (p1, Running sv1)"
    using s1(1) by (auto simp: poll_dispatch_def bindE_eq_Inr)
  have t: "sv_next ?sv = sv_next sv" "sv_backlog ?sv = Inr ?q # rest" using assms(9) by (cases a; simp add: traffic_def)+
  have "list_all (\<lambda>(ev, n, ok). n = 0 \<or> (\<forall>fd. pl_nodes p n \<noteq> Some (fd, Some AcceptCb))) es"
    using serving_listener [OF assms(2)] by (auto simp: one_listener_def list_all_iff)
  from accept_poll [OF wf es d this assms(8,5,7,6) t(2) assms(10)]
  have c: "client_of (sv_next sv) sv1 = Some (client_new (accepted ntop show_port ?q) True)"
      "pl_nodes p1 (pl_next p) = Some (fd, Some (ClientCb (sv_next sv)))" by (simp_all add: t)
  obtain f where f: "own_turns E (sv_next sv) (pl_next p) rounds (client_new (accepted ntop show_port ?q) True) = Some (Inr f)"
      "client_of (sv_next sv) sv' = fate_client f"
    using loop_own_turns [OF s1(6,4,2) c] by blast
  show ?thesis
    using own_session [OF assms(1,12-20,11), of "accepted ntop show_port ?q" True] f by (auto simp: fate_client_def accepted_fd)
qed

end
