(* ===== verification/Theme_Handlers.thy ===== *)
theory Theme_Handlers
  imports Theme_Service
begin

text \<open>
  The life of a client's handler object (\<open>daemon/client_common.cpp\<close>, \<open>daemon/gatekeeper.cpp\<close>):
  \<open>m_handler\<close> is a bare pointer, to a static object before the first packet and to a
  \<open>gatekeeper_server\<close> of the client's own after it, which frees itself when the connection hangs
  up. The turns of a client are given with the calls they make on the object it owns, and every
  sequence of turns that returns allocates it at most once, uses it only while it lives, and
  frees it exactly when a hang-up erases the client.
\<close>

section \<open>Calls on a handler object\<close>

text \<open>
  The first packet's handler is one static object. \<open>create_gate\<close> allocates a \<open>gatekeeper_server\<close>
  for the client alone; \<open>hup\<close> of the latter is \<open>delete this\<close>. A use is a virtual call, or a read
  into the message description that is a member of the object (\<open>m_encryptMsg\<close>).
\<close>

datatype handler_call = NewHandler | UseHandler | DeleteHandler

fun handler_run :: "bool \<Rightarrow> handler_call list \<Rightarrow> bool option" where
  "handler_run live [] = Some live"
| "handler_run live (NewHandler # cs) = (if live then None else handler_run True cs)"
| "handler_run live (UseHandler # cs) = (if live then handler_run True cs else None)"
| "handler_run live (DeleteHandler # cs) = (if live then handler_run False cs else None)"

lemma handler_run_append: "handler_run live (cs @ ds) = Option.bind (handler_run live cs) (\<lambda>l. handler_run l ds)"
  by (induction live cs rule: handler_run.induct) auto

definition handler_hup :: "client \<Rightarrow> handler_call list" where
  "handler_hup cl = (case cl_handler cl of Incoming_Handler \<Rightarrow> [] | Gatekeeper_Handler _ \<Rightarrow> [UseHandler, DeleteHandler])"

definition handler_read_calls :: "byte list \<Rightarrow> client \<Rightarrow> handler_call list" where
  "handler_read_calls buf cl =
     (case cl_handler cl of
        Incoming_Handler \<Rightarrow> if buf \<noteq> [] \<and> get_uint8 0 buf = e_protocolCli2Gate then [NewHandler] else []
      | Gatekeeper_Handler _ \<Rightarrow> [UseHandler])"

definition awaited_calls :: "client \<Rightarrow> handler_call list" where
  "awaited_calls cl =
     (case rd_struct (cb_read (cl_base cl)) of
        Some ns \<Rightarrow> if ns_name ns = ''m_encryptMsg'' then [UseHandler] else []
      | None \<Rightarrow> [])"

text \<open>\<open>pump_read\<close> and \<open>handle_dispatch\<close> with the calls they make, in order.\<close>

partial_function (option) pump_read_calls :: "env \<Rightarrow> client \<Rightarrow> handler_call list \<Rightarrow> (client res \<times> handler_call list) option"
  where
  "pump_read_calls E cl cs =
     (case handle_read (en_build E) (en_ks E) (cl_base cl) of
        None \<Rightarrow> None
      | Some (Inl e) \<Rightarrow> Some (Inl e, cs @ awaited_calls cl)
      | Some (Inr (None, b)) \<Rightarrow> Some (Inr (cl\<lparr>cl_base := b\<rparr>), cs @ awaited_calls cl)
      | Some (Inr (Some buf, b)) \<Rightarrow>
          (let cs1 = cs @ awaited_calls cl @ handler_read_calls buf cl
           in case handler_read E buf (cl\<lparr>cl_base := b\<rparr>) of
             Inl e \<Rightarrow> Some (Inl e, cs1)
           | Inr (ok, cl1) \<Rightarrow>
               if \<not> ok then Some (Inr (cli_shutdown cl1), cs1)
               else if \<not> has_pending_read (cl_base cl1) then Some (Inr (cli_shutdown cl1), cs1)
               else pump_read_calls E cl1 cs1))"

definition handle_dispatch_calls :: "env \<Rightarrow> u32 \<Rightarrow> client \<Rightarrow> (fate res \<times> handler_call list) option" where
  "handle_dispatch_calls E events cl =
     (if events AND ev_hup \<noteq> 0 then Some (Inr (Erased (clear_flag e_polling cl)), handler_hup cl)
      else
        let cl1 = (if events AND ev_write \<noteq> 0 then cli_pump_write cl else cl)
        in if events AND ev_read \<noteq> 0 then
             (case pump_read_calls E cl1 [] of
                None \<Rightarrow> None
              | Some (Inl e, cs) \<Rightarrow> Some (Inl e, cs)
              | Some (Inr cl2, cs) \<Rightarrow> Some (Inr (Alive cl2), cs))
           else Some (Inr (Alive cl1), []))"

text \<open>A client's life: its own turns, with their calls.\<close>

fun own_calls :: "env \<Rightarrow> nat \<Rightarrow> nat \<Rightarrow> (arrivals \<times> wait) list \<Rightarrow> client \<Rightarrow> (fate res \<times> handler_call list) option" where
  "own_calls E i n [] cl = Some (Inr (Alive cl), [])"
| "own_calls E i n ((a, w) # rounds) cl =
     (case reported n w of
        None \<Rightarrow> own_calls E i n rounds (arrive i a cl)
      | Some ev \<Rightarrow>
          (case handle_dispatch_calls E (xlate_epoll_to_mask ev) (arrive i a cl) of
             Some (Inr (Alive cl1), cs) \<Rightarrow> map_option (\<lambda>(r, ds). (r, cs @ ds)) (own_calls E i n rounds cl1)
           | r \<Rightarrow> r))"

declare pump_read_calls.simps [code]

section \<open>Every object is freed once and not used after\<close>

definition owns_handler :: "client \<Rightarrow> bool" where
  "owns_handler cl \<longleftrightarrow> cl_handler cl \<noteq> Incoming_Handler"

lemma handler_read_owns:
  assumes "handler_read E buf cl = Inr (ok, cl')"
  shows "handler_run (owns_handler cl) (handler_read_calls buf cl) = Some (owns_handler cl')"
proof (cases "cl_handler cl")
  case Incoming_Handler
  then show ?thesis
    using assms by (auto simp: handler_read_def incoming_read_def bindE_eq_Inr owns_handler_def handler_read_calls_def create_gate_def
        mem_read_def split: if_splits)
next
  case (Gatekeeper_Handler n)
  then have "gatekeeper_read E n buf cl = Inr (ok, cl')" using assms by (simp add: handler_read_def)
  then have "cl_handler cl' \<noteq> Incoming_Handler"
  proof (cases rule: gatekeeper_read_cases)
    case handshake
    then show ?thesis using handshake_cases [OF handshake(3)] Gatekeeper_Handler by (auto simp: handler_simps)
  next
    case ydata
    then show ?thesis using Gatekeeper_Handler
      by (auto simp: handle_ydata_def handle_encryption_def handler_simps bindE_eq_Inr dest!: cli_write_frame split: option.splits if_splits)
  next
    case header
    then show ?thesis using read_msg_cases [OF header(3)] Gatekeeper_Handler by (auto simp: handler_simps)
  next
    case message
    then show ?thesis using dispatch_msg_frame [OF message(3)] Gatekeeper_Handler by (simp add: handler_simps)
  qed
  then show ?thesis using Gatekeeper_Handler by (simp add: owns_handler_def handler_read_calls_def)
qed

lemma awaited_owned: "conn_idle E cl \<Longrightarrow> handler_run (owns_handler cl) (awaited_calls cl) = Some (owns_handler cl)"
  by (auto simp: conn_idle_def conn_expects_def awaited_calls_def owns_handler_def shape_defs split: option.splits)

lemma pump_read_calls_run:
  assumes "pump_read (en_build E) (en_ks E) (handler_read E) cl = Some r" "wf_env E" "conn_idle E cl"
  shows "\<exists>ds. pump_read_calls E cl cs = Some (r, cs @ ds) \<and>
    (\<forall>cl'. r = Inr cl' \<longrightarrow> handler_run (owns_handler cl) ds = Some (owns_handler cl'))"
  using assms(1,3)
proof (induction arbitrary: cs rule: pump_read_induct)
  case (wait cl b)
  then show ?case using awaited_owned [OF wait(2)] by (subst pump_read_calls.simps) (simp add: owns_handler_def)
next
  case (refused cl buf b cl1)
  have "handler_run (owns_handler cl) (awaited_calls cl @ handler_read_calls buf cl) = Some (owns_handler cl1)"
    using awaited_owned [OF refused(3)] handler_read_owns [OF refused(2)] by (simp add: handler_run_append owns_handler_def handler_read_calls_def)
  then show ?case using refused(1,2) by (subst pump_read_calls.simps) (simp add: owns_handler_def cli_shutdown_def)
next
  case (starved cl buf b cl1)
  have "handler_run (owns_handler cl) (awaited_calls cl @ handler_read_calls buf cl) = Some (owns_handler cl1)"
    using awaited_owned [OF starved(4)] handler_read_owns [OF starved(2)] by (simp add: handler_run_append owns_handler_def handler_read_calls_def)
  then show ?case using starved(1-3) by (subst pump_read_calls.simps) (simp add: owns_handler_def cli_shutdown_def)
next
  case (again cl buf b cl1 r)
  let ?c = "awaited_calls cl @ handler_read_calls buf cl"
  have run: "handler_run (owns_handler cl) ?c = Some (owns_handler cl1)"
    using awaited_owned [OF again(5)] handler_read_owns [OF again(2)] by (simp add: handler_run_append owns_handler_def handler_read_calls_def)
  have "conn_idle E cl1" using conn.delivered_idle(3) [of E cl, OF _ again(1,2,3)] again(5) conn_idle_eq [OF assms(2)] by blast
  then obtain ds where ds: "pump_read_calls E cl1 (cs @ ?c) = Some (r, (cs @ ?c) @ ds)"
      "\<forall>cl'. r = Inr cl' \<longrightarrow> handler_run (owns_handler cl1) ds = Some (owns_handler cl')"
    using again.IH [of "cs @ ?c"] by blast
  have "pump_read_calls E cl cs = Some (r, cs @ (?c @ ds))"
    using again(1-3) ds(1) by (subst pump_read_calls.simps) (simp add: Let_def)
  moreover have "\<forall>cl'. r = Inr cl' \<longrightarrow> handler_run (owns_handler cl) (?c @ ds) = Some (owns_handler cl')"
    using ds(2) run by (simp add: handler_run_append flip: append_assoc)
  ultimately show ?case by blast
qed (auto simp: pump_read_calls.simps)

lemma turn_calls:
  assumes "handle_dispatch E m cl = Some r" "wf_env E" "conn_idle E cl"
  shows "\<exists>cs. handle_dispatch_calls E m cl = Some (r, cs) \<and>
    (\<forall>cl'. r = Inr (Alive cl') \<longrightarrow> handler_run (owns_handler cl) cs = Some (owns_handler cl')) \<and>
    (\<forall>cl'. r = Inr (Erased cl') \<longrightarrow> handler_run (owns_handler cl) cs = Some False)"
proof (cases "m AND ev_hup = 0")
  case False
  then show ?thesis using assms(1)
    by (auto simp: handle_dispatch_def handle_dispatch_calls_def handler_hup_def owns_handler_def split: handler.splits)
next
  case True
  define cl1 where "cl1 = (if m AND ev_write \<noteq> 0 then cli_pump_write cl else cl)"
  have i: "conn_idle E cl1" "owns_handler cl1 = owns_handler cl"
    using assms(3) pump_write_idle by (simp_all add: cl1_def owns_handler_def cli_pump_write_def)
  show ?thesis
  proof (cases "m AND ev_read = 0")
    case no_read: True
    then show ?thesis using assms(1) True i(2) by (auto simp: handle_dispatch_def handle_dispatch_calls_def Let_def cl1_def)
  next
    case False
    then obtain q where q: "pump_read (en_build E) (en_ks E) (handler_read E) cl1 = Some q" "r = map_sum id Alive q"
      using assms(1) True by (auto simp: handle_dispatch_def Let_def cl1_def split: option.splits sum.splits)
    obtain ds where ds: "pump_read_calls E cl1 [] = Some (q, ds)"
        "\<forall>cl'. q = Inr cl' \<longrightarrow> handler_run (owns_handler cl) ds = Some (owns_handler cl')"
      using pump_read_calls_run [OF q(1) assms(2) i(1), of "[]"] i(2) by auto
    have "handle_dispatch_calls E m cl = Some (r, ds)"
      using True False ds(1) q(2) by (cases q) (simp_all add: handle_dispatch_calls_def Let_def flip: cl1_def)
    then show ?thesis using ds(2) q(2) by (cases q) auto
  qed
qed

text \<open>A hang-up frees what the client owns; a client that goes on owns what it has allocated.\<close>

definition owns_after :: "fate \<Rightarrow> bool" where
  "owns_after f = (case f of Alive cl \<Rightarrow> owns_handler cl | Erased _ \<Rightarrow> False)"

lemma own_calls_run:
  "own_turns E i n rounds cl = Some (Inr f) \<Longrightarrow> wf_env E \<Longrightarrow> reachable E cl \<Longrightarrow>
   \<exists>cs. own_calls E i n rounds cl = Some (Inr f, cs) \<and> handler_run (owns_handler cl) cs = Some (owns_after f)"
proof (induction rounds arbitrary: cl)
  case Nil
  then show ?case by (auto simp: owns_after_def)
next
  case (Cons r rounds)
  obtain a w where r: "r = (a, w)" by (cases r)
  let ?cl = "arrive i a cl"
  have re: "reachable E ?cl" unfolding arrive_def by (rule reachable.network [OF Cons.prems(3)])
  have ow: "owns_handler ?cl = owns_handler cl" by (simp add: arrive_def owns_handler_def)
  show ?case
  proof (cases "reported n w")
    case None
    then show ?thesis using Cons.IH [OF _ Cons.prems(2) re] Cons.prems(1) ow by (simp add: r)
  next
    case (Some ev)
    obtain q where q: "handle_dispatch E (xlate_epoll_to_mask ev) ?cl = Some (Inr q)"
      using Cons.prems(1) Some by (auto simp: r split: option.splits sum.splits)
    obtain cs where cs: "handle_dispatch_calls E (xlate_epoll_to_mask ev) ?cl = Some (Inr q, cs)"
        "handler_run (owns_handler cl) cs = Some (owns_after q)"
      using turn_calls [OF q Cons.prems(2) reachable_idle [OF re Cons.prems(2)]] ow by (cases q) (auto simp: owns_after_def)
    show ?thesis
    proof (cases q)
      case (Alive cl1)
      then have "own_turns E i n rounds cl1 = Some (Inr f)" using Cons.prems(1) Some q by (simp add: r)
      from Cons.IH [OF this Cons.prems(2) reachable.turn [OF re q [unfolded Alive]]] show ?thesis
        using cs Some Alive by (auto simp: r handler_run_append owns_after_def)
    next
      case (Erased cl1)
      have "f = Erased cl1" using Cons.prems(1) by (simp add: r Some q [unfolded Erased])
      moreover have "own_calls E i n (r # rounds) cl = Some (Inr (Erased cl1), cs)"
        by (simp add: r Some cs(1) [unfolded Erased])
      ultimately show ?thesis using cs(2) Erased by blast
    qed
  qed
qed

end
