(* ===== verification/Theme_Msg_Print.thy ===== *)
theory Theme_Msg_Print
  imports Theme_Protocol Theme_Errors
begin

text \<open>
  \<open>net_msg_print\<close> of \<open>src/src/protocol/net_struct.cpp\<close>: the debugging print of a message in memory,
  as the lines it writes. \<open>show_dec\<close> renders a number; a string is streamed as the address of its
  first code unit, which \<open>show_ptr\<close> renders.
\<close>

definition data_line :: "string \<Rightarrow> string" where
  "data_line s = ''        - DATA: '' @ s"

definition in_quotes :: "string \<Rightarrow> string" where
  "in_quotes s = [CHR 0x27] @ s @ [CHR 0x27]"

definition print_integer :: "build \<Rightarrow> (nat \<Rightarrow> string) \<Rightarrow> net_field \<Rightarrow> byte list \<Rightarrow> nat \<Rightarrow> string list res" where
  "print_integer B show_dec f m off =
     (if nf_elementsz f = 1 then
        bindE (mem_read m off 1) (\<lambda>bs. Inr [data_line (show_dec (le_val bs))])
      else if nf_elementsz f = 2 then
        bindE (mem_read m off 2) (\<lambda>bs. Inr [data_line (show_dec (unat (load16 B bs)))])
      else if nf_elementsz f = 4 then
        bindE (mem_read m off 4) (\<lambda>bs. Inr [data_line (show_dec (unat (load32 B bs)))])
      else if nf_elementsz f = 8 then
        bindE (mem_read m off 8) (\<lambda>bs. Inr [data_line (show_dec (unat (load64 B bs)))])
      else bindE (assertd B False) (\<lambda>_. Inr [data_line []]))"

definition print_data ::
    "build \<Rightarrow> libuuid \<Rightarrow> (nat \<Rightarrow> string) \<Rightarrow> (nat \<Rightarrow> string) \<Rightarrow> net_field \<Rightarrow> byte list \<Rightarrow> nat \<Rightarrow> string list res" where
  "print_data B L show_dec show_ptr f m off =
     (case nf_type f of
        e_integer \<Rightarrow> print_integer B show_dec f m off
      | e_buffer_size \<Rightarrow> print_integer B show_dec f m off
      | e_string_utf16 \<Rightarrow> Inr [data_line (in_quotes (show_ptr off))]
      | e_uuid \<Rightarrow> bindE (mem_read m off 16) (\<lambda>bs.
          Inr [data_line (in_quotes (takeWhile (\<lambda>c. c \<noteq> CHR 0x00) (as_string L (Uuid bs))))])
      | _ \<Rightarrow> Inr [])"

fun print_fields ::
    "build \<Rightarrow> libuuid \<Rightarrow> (nat \<Rightarrow> string) \<Rightarrow> (nat \<Rightarrow> string) \<Rightarrow> net_field list \<Rightarrow> byte list \<Rightarrow> nat \<Rightarrow> string list res" where
  "print_fields B L show_dec show_ptr [] m off = Inr []"
| "print_fields B L show_dec show_ptr (f # fs) m off =
     bindE (print_data B L show_dec show_ptr f m off) (\<lambda>ls.
     bindE (print_fields B L show_dec show_ptr fs m (off + field_sz f)) (\<lambda>rest.
     Inr ([''    -> '' @ nf_name f, ''        - TYPE: '' @ in_quotes (get_data_type_str (nf_type f))] @ ls @ rest)))"

definition net_msg_print ::
    "build \<Rightarrow> libuuid \<Rightarrow> (nat \<Rightarrow> string) \<Rightarrow> (nat \<Rightarrow> string) \<Rightarrow> net_struct \<Rightarrow> byte list \<Rightarrow> string list res" where
  "net_msg_print B L show_dec show_ptr msg m =
     bindE (print_fields B L show_dec show_ptr (ns_fields msg) m 0) (\<lambda>ls.
     Inr ([''--- BEGIN NETMSG ---'', ''    Name: '' @ in_quotes (ns_name msg),
           ''    Field(s): '' @ show_dec (ns_size msg)] @ ls @ [''--- END   NETMSG ---'']))"

section \<open>Printing stays inside the message\<close>

text \<open>A field whose contents the print reads: integers of a machine size, whole UUIDs.\<close>

definition printable :: "net_field \<Rightarrow> bool" where
  "printable f \<longleftrightarrow>
     (nf_type f \<in> {e_integer, e_buffer_size} \<longrightarrow> nf_elementsz f \<in> {1, 2, 4, 8} \<and> 0 < nf_count f) \<and>
     (nf_type f = e_uuid \<longrightarrow> 16 \<le> field_sz f)"

lemma print_data_ok:
  assumes "printable f" "off + field_sz f \<le> length m"
  shows "\<exists>ls. print_data B L show_dec show_ptr f m off = Inr ls"
proof -
  have "off + nf_elementsz f \<le> length m" if "0 < nf_count f"
    using that assms(2) by (cases "nf_count f") simp_all
  then show ?thesis
    using assms by (auto simp: print_data_def print_integer_def printable_def mem_read_in split: data_type.splits)
qed

lemma print_fields_ok:
  "list_all printable fs \<Longrightarrow> off + sum_list (map field_sz fs) \<le> length m \<Longrightarrow>
   \<exists>ls. print_fields B L show_dec show_ptr fs m off = Inr ls"
proof (induction fs arbitrary: off)
  case (Cons f fs)
  obtain ls where "print_data B L show_dec show_ptr f m off = Inr ls"
    using print_data_ok [of f off m B L show_dec show_ptr] Cons.prems by auto
  moreover obtain rest where "print_fields B L show_dec show_ptr fs m (off + field_sz f) = Inr rest"
    using Cons.IH [of "off + field_sz f"] Cons.prems by (auto simp: add.assoc)
  ultimately show ?case by simp
qed simp

lemma net_msg_print_ok:
  assumes "list_all printable (ns_fields msg)" "field_off msg (ns_size msg) \<le> length m"
  shows "\<exists>ls. net_msg_print B L show_dec show_ptr msg m = Inr ls"
  using print_fields_ok [OF assms(1), of 0 m B L show_dec show_ptr] assms(2) by (auto simp: net_msg_print_def field_off_def)

lemma messages_printable:
  "list_all (\<lambda>msg. list_all printable (ns_fields msg))
     [common_connection_header, common_msg_std_header, common_msg_size_header, common_encrypt_header, common_encrypt_s2c,
      gatekeeper_pingRequest, gatekeeper_fileSrvRequest, gatekeeper_authSrvRequest,
      gatekeeper_pingReply, gatekeeper_fileSrvReply, gatekeeper_authSrvReply]"
  by (simp add: message_defs NET_FIELD_defs printable_def)

end
