(* ===== verification/Theme_Examples.thy ===== *)
theory Theme_Examples
  imports Theme_Main Theme_Handlers Theme_Msg_Print
begin

text \<open>
  Concrete inputs for the witnesses of the properties: a build, an environment with a small
  modulus, the bytes of an opening, and connections in the states the properties start from.
\<close>

definition example_build :: build where
  "example_build = \<lparr>big_endian = False, ndebug = False, allow_decrypted = False\<rparr>"

definition example_ks :: keystream where
  "example_ks key i = word_of_nat (le_val key + 7 * i)"

definition example_gate :: gatekeeper_daemon where
  "example_gate = \<lparr>gd_authsrv = [0x61, 0x75], gd_filesrv = [0x66, 0x73, 0x31], gd_cryptK = 5, gd_cryptN = 23\<rparr>"

definition example_env :: env where
  "example_env =
    \<lparr>en_build = example_build, en_ks = example_ks, en_rand = [1, 2, 3, 4, 5, 6, 7],
     en_stack = (\<lambda>n. replicate n 0xAA), en_seed_junk = replicate kKeySize 0, en_gate = example_gate\<rparr>"

lemma example_env_wf [simp]: "wf_env example_env"
  by (simp add: wf_env_def example_env_def)

lemma example_env_sel [simp]:
  "en_build example_env = example_build" "en_ks example_env = example_ks" "en_gate example_env = example_gate" "en_rand example_env = [1, 2, 3, 4, 5, 6, 7]"
  "gd_cryptN example_gate = 23" "\<not> allow_decrypted example_build" "\<not> big_endian example_build" "\<not> ndebug example_build"
  by (simp_all add: example_env_def example_gate_def example_build_def)

text \<open>The first 35 bytes of a connection: type, six members, and a redundant size of four.\<close>

definition example_header :: "byte list" where
  "example_header = e_protocolCli2Gate # replicate 30 0 @ [4, 0, 0, 0]"

lemma example_header_facts [simp]:
  "length example_header = 35" "example_header ! 0 = e_protocolCli2Gate" "le_val (drop 31 example_header) = 4"
  by (simp_all add: example_header_def)

definition example_sock :: "recv_ev list \<Rightarrow> sock" where
  "example_sock evs = sock_new\<lparr>so_fd := 9, so_in := evs\<rparr>"

lemma example_sock_facts [simp]:
  "so_in (example_sock evs) = evs" "so_out (example_sock evs) = []" "so_sent (example_sock evs) = []"
  "\<not> so_shut (example_sock evs)"
  by (simp_all add: example_sock_def sock_new_def)

lemma small_modulus: "(23 :: nat) < 256 ^ kKeySize"
proof -
  have "(23 :: nat) < 256 ^ 1" by simp
  also have "\<dots> \<le> 256 ^ kKeySize" by (rule power_increasing) (simp_all add: kKeySize_def)
  finally show ?thesis .
qed

text \<open>A connection whose keys are set and that waits for a request.\<close>

definition example_ready :: "recv_ev list \<Rightarrow> client" where
  "example_ready evs =
     \<lparr>cl_base = \<lparr>cb_sock = example_sock evs,
                 cb_read = io_read_init\<lparr>rd_struct := Some common_msg_std_header\<rparr>, cb_writes = [],
                 cb_encrypt = EvpRc4 [3, 1, 4, 1, 5, 9, 2] 0, cb_decrypt = EvpRc4 [3, 1, 4, 1, 5, 9, 2] 0\<rparr>,
      cl_flags = e_polling OR e_encrypted OR e_wantMsgHeader, cl_handler = Gatekeeper_Handler 64\<rparr>"

lemma example_ready_ready [simp]: "ready (example_ready evs)"
  by (simp add: ready_def example_ready_def phase_flags has_flag_def flag_defs read_at_fresh io_read_init_def wf_writes_def)

lemma example_ready_sel [simp]:
  "cb_sock (cl_base (example_ready evs)) = example_sock evs"
  "cb_decrypt (cl_base (example_ready evs)) = EvpRc4 [3, 1, 4, 1, 5, 9, 2] 0"
  "cb_encrypt (cl_base (example_ready evs)) = EvpRc4 [3, 1, 4, 1, 5, 9, 2] 0"
  "cb_writes (cl_base (example_ready evs)) = []"
  by (simp_all add: example_ready_def)

text \<open>A connection that has gone through the opening, as the server's loop leaves it.\<close>

lemma example_opened: "\<exists>cl. reachable example_env cl \<and> ready cl"
proof -
  let ?s = "example_sock [Rchunk (example_header @ [e_c2s_connect, 66] @ le_bytes kKeySize (bn_mod_exp 4 3 23))]"
  obtain cl where cl: "pump_read example_build example_ks (handler_read example_env) (client_new ?s True) = Some (Inr cl)" "ready cl"
    using opening_succeeds [where E = example_env and header = example_header and n = 0 and s = ?s and g = 4 and b = 3 and polled = True]
      small_modulus by auto
  have "handle_dispatch example_env ev_read (client_new ?s True) = Some (Inr (Alive cl))"
    using cl(1) by (simp add: handle_dispatch_def ev_read_def ev_write_def ev_hup_def)
  then show ?thesis using cl(2) reachable.turn [OF reachable.start] by blast
qed

text \<open>A connection that writes, into a kernel that takes the given numbers of bytes.\<close>

definition example_writer :: "send_ev list \<Rightarrow> client_base" where
  "example_writer outs =
     (client_base_new ((example_sock [])\<lparr>so_out := outs\<rparr>))\<lparr>cb_encrypt := EvpRc4 [3, 1, 4, 1, 5, 9, 2] 0\<rparr>"

lemma example_writer_facts [simp]:
  "cb_encrypt (example_writer outs) = EvpRc4 [3, 1, 4, 1, 5, 9, 2] 0" "cb_writes (example_writer outs) = []"
  "wf_writes (example_writer outs)" "outgoing (example_writer outs) = []" "so_out (cb_sock (example_writer outs)) = outs"
  by (simp_all add: example_writer_def client_base_new_def sock_move_def wf_writes_def outgoing_def queued_def)

text \<open>A connection that waits for an authentication request under the same key.\<close>

definition example_reader :: "recv_ev list \<Rightarrow> client_base" where
  "example_reader ins =
     (read_struct gatekeeper_authSrvRequest (client_base_new (example_sock ins)))\<lparr>cb_decrypt := EvpRc4 [3, 1, 4, 1, 5, 9, 2] 0\<rparr>"

lemma example_reader_facts [simp]:
  "cb_decrypt (example_reader ins) = EvpRc4 [3, 1, 4, 1, 5, 9, 2] 0" "so_in (cb_sock (example_reader ins)) = ins"
  "rd_buf (cb_read (example_reader ins)) = None" "rd_struct (cb_read (example_reader ins)) = Some gatekeeper_authSrvRequest"
  "rd_field (cb_read (example_reader ins)) = 0" "rd_offset (cb_read (example_reader ins)) = 0"
  "read_at gatekeeper_authSrvRequest v 0 (cb_read (example_reader ins))"
  by (simp_all add: example_reader_def client_base_new_def sock_move_def read_struct_def io_read_init_def read_at_fresh)

lemma auth_request_fixed [simp]:
  "fixed_upto gatekeeper_authSrvRequest 2" "ns_size gatekeeper_authSrvRequest = 2" "field_off gatekeeper_authSrvRequest 2 = 6"
proof -
  show n: "ns_size gatekeeper_authSrvRequest = 2" by (simp add: shape_defs)
  show "field_off gatekeeper_authSrvRequest 2 = 6" using message_sizes(6) by (simp only: n)
  then show "fixed_upto gatekeeper_authSrvRequest 2" using fixed_struct_upto(1) [OF fixed_messages(6)] by (simp only: n) simp
qed

lemma auth_fields: "ns_fields gatekeeper_authSrvRequest =
    [\<lparr>nf_type = e_integer, nf_name = ''type'', nf_elementsz = 2, nf_count = 1\<rparr>,
     \<lparr>nf_type = e_integer, nf_name = ''transId'', nf_elementsz = 4, nf_count = 1\<rparr>]"
  by (simp add: message_defs NET_FIELD_defs)

lemma ping_tail_type: "nf_type (ns_fields gatekeeper_pingRequest ! 4) = e_buffer"
  by (simp add: message_defs NET_FIELD_defs)

section \<open>A daemon\<close>

text \<open>A string library of ASCII text without escapes, and a coding of bytes as characters.\<close>

definition digits_value :: "string \<Rightarrow> nat" where
  "digits_value s = foldl (\<lambda>v c. 10 * v + (of_char c - 48)) 0 s"

definition example_strings :: "nat string_lib" where
  "example_strings =
    \<lparr>st_fold = id, st_trim = trimmed, st_tokenize = (\<lambda>s. if s = [] then [] else [filter (\<lambda>c. c \<noteq> CHR 0x0A) s]),
     st_to_bool = (\<lambda>s. s = ''1''), st_from_bool = (\<lambda>b. if b then ''1'' else ''0''),
     st_to_int = (\<lambda>s. int (digits_value s)), st_from_int = (\<lambda>i. ''0''),
     st_to_uint = (\<lambda>s. word_of_nat (digits_value s)), st_from_uint = (\<lambda>i. ''0''),
     st_to_float = digits_value, st_from_float = (\<lambda>f. ''0''),
     st_to_utf16 = map (word_of_nat \<circ> of_char)\<rparr>"

definition example_crypto :: crypto_lib where
  "example_crypto =
    \<lparr>cr_encode = map (char_of \<circ> unat),
     cr_decode = (\<lambda>s n. if length s = n then Some (map (word_of_nat \<circ> of_char) s) else None),
     cr_primes = (Some (256 ^ 63), Some (256 ^ 63 + 9)),
     cr_key_junk = (replicate kKeySize 1, replicate kKeySize 2, replicate kKeySize 3),
     cr_load_junk = replicate kKeySize 4\<rparr>"

lemma example_codec:
  "length bs = kKeySize \<Longrightarrow> cr_decode example_crypto (cr_encode example_crypto bs) kKeySize = Some bs \<and> cr_encode example_crypto bs \<noteq> []"
  by (auto simp: example_crypto_def kKeySize_def comp_def map_idI)

lemma example_primes: "bn_num_bytes (256 ^ 63) = kKeySize" "bn_num_bytes (256 ^ 63 + 9) = kKeySize"
proof -
  have "bn_num_bytes m = kKeySize" if "256 ^ 63 \<le> m" "m < 256 ^ 64" for m
    using that bn_num_bytes_le [of m 63] bn_num_bytes_le [of m 64] by (simp add: kKeySize_def not_less)
  then show "bn_num_bytes (256 ^ 63) = kKeySize" "bn_num_bytes (256 ^ 63 + 9) = kKeySize" by simp_all
qed

lemma example_names: "st_fold L = id \<Longrightarrow> names_apart (st_fold L) s_daemonConfig"
  by (simp add: names_apart_def s_daemonConfig_def cfg_str_def cfg_int_def)

lemma example_fold [simp]: "st_fold example_strings = id"
  by (simp add: example_strings_def)

lemma example_there:
  "st_fold L = id \<Longrightarrow> it \<in> set s_daemonConfig \<Longrightarrow>
   item_there (st_fold L) (ci_type it) (ci_section it) (ci_key it) (config_parser L s_daemonConfig)"
  by (rule config_parser_there [OF example_names])

lemma example_keys_generated:
  assumes "st_fold L = id"
  shows "\<exists>m'. generate_daemon_keys example_build L example_crypto (config_parser L s_daemonConfig) = Inr m'"
proof -
  let ?L = L and ?m = "config_parser L s_daemonConfig"
  have g: "item_there (st_fold ?L) vt_integer ''gate'' ''crypt_g'' ?m"
    using example_there [OF assms, of "s_daemonConfig ! 6"] by (simp add: s_daemonConfig_def cfg_int_def)
  have k: "item_there (st_fold ?L) vt_string ''gate'' ''crypt_k'' ?m"
    using example_there [OF assms, of "s_daemonConfig ! 3"] by (simp add: s_daemonConfig_def cfg_str_def)
  have n: "item_there (st_fold ?L) vt_string ''gate'' ''crypt_n'' ?m"
    using example_there [OF assms, of "s_daemonConfig ! 4"] by (simp add: s_daemonConfig_def cfg_str_def)
  have x: "item_there (st_fold ?L) vt_string ''gate'' ''crypt_x'' ?m"
    using example_there [OF assms, of "s_daemonConfig ! 5"] by (simp add: s_daemonConfig_def cfg_str_def)
  have step: "\<exists>m'. config_set_string example_build ?L s ky v m = Inr m' \<and> same_items m m'"
    if there: "item_there (st_fold ?L) vt_string s ky m" for s ky v m
  proof -
    obtain e where "find_item example_build ?L s ky m = Inr e" "ci_type (en_def e) = vt_string"
      using there by (auto simp: item_there_def find_item_lookup)
    then show ?thesis using store_value_same [of m ?L s ky v] by (simp add: config_set_string_def set_typed_def)
  qed
  obtain g_value where "config_get_uint example_build ?L ''gate'' ''crypt_g'' ?m = Inr g_value"
    using item_there_find [OF g, of example_build] by (auto simp: config_get_uint_def)
  moreover obtain ks ns xs where "crypto_generate example_build example_crypto g_value = Inr (ks, ns, xs)"
    using generate_keys_eq [where jk = "replicate kKeySize 1" and jn = "replicate kKeySize 2" and jx = "replicate kKeySize 3" and
        g = g_value and B = example_build and enc = "cr_encode example_crypto", OF _ _ _ example_primes refl]
    by (auto simp: crypto_generate_def example_crypto_def)
  moreover obtain c1 where c1: "config_set_string example_build ?L ''gate'' ''crypt_k'' ks ?m = Inr c1" "same_items ?m c1"
    using step [OF k] by blast
  moreover obtain c2 where c2: "config_set_string example_build ?L ''gate'' ''crypt_n'' ns c1 = Inr c2" "same_items c1 c2"
    using step [OF item_there_same [OF c1(2) n]] by blast
  moreover obtain c3 where "config_set_string example_build ?L ''gate'' ''crypt_x'' xs c2 = Inr c3"
    using step [OF item_there_same [OF same_items_trans [OF c1(2) c2(2)] x]] by blast
  ultimately show ?thesis by (simp add: generate_daemon_keys_def)
qed

text \<open>A server with its listening socket (node 0) and one client (node 1) in the poll.\<close>

definition example_poll :: server_poll where
  "example_poll =
    \<lparr>pl_callbacks = (\<lambda>_. None)(5 := Some 0, 9 := Some 1),
     pl_nodes = (\<lambda>_. None)(0 := Some (5, Some AcceptCb), 1 := Some (9, Some (ClientCb 0))),
     pl_kernel = (\<lambda>_. None)(5 := Some (EPOLLET OR EPOLLIN, 0), 9 := Some (xlate_mask_to_epoll client_events, 1)),
     pl_next = 2\<rparr>"

definition example_server :: server where
  "example_server =
    \<lparr>sv_listen = (example_sock [])\<lparr>so_fd := 5\<rparr>, sv_clients = [(0, client_new (example_sock []) True)], sv_next = 1,
     sv_backlog = []\<rparr>"

lemma example_poll_nodes:
  "pl_nodes example_poll 0 = Some (5, Some AcceptCb)" "pl_nodes example_poll (Suc 0) = Some (9, Some (ClientCb 0))"
  by (simp_all add: example_poll_def)

lemma example_server_wf: "server_wf (example_poll, example_server)"
  by (rule server_wfI) (auto simp: wf_poll_def example_poll_def example_server_def split: if_splits)

lemma example_config_good: "good_config id (config_parser example_strings s_daemonConfig)"
  by code_simp

lemma example_compare: "doc_compare example_libuuid"
  by (auto simp: doc_compare_def example_libuuid_def)

text \<open>A daemon that has accepted one client, on descriptor 9.\<close>

lemma example_serving:
  "\<exists>p sv. serving (\<lambda>_. None) (\<lambda>_. []) example_env (p, sv) \<and> pl_kernel p 9 = Some (xlate_mask_to_epoll client_events, 1) \<and>
     pl_nodes p 1 = Some (9, Some (ClientCb 0))"
proof -
  let ?s = "(example_sock [])\<lparr>so_fd := 5\<rparr>" and ?bl = "[Inr (9, AF_OTHER 1, [], [], True)]"
  define p0 :: server_poll where "p0 = \<lparr>pl_callbacks = (\<lambda>_. None), pl_nodes = (\<lambda>_. None), pl_kernel = (\<lambda>_. None), pl_next = 0\<rparr>"
  define p where "p = snd (add_fd True 5 ev_read (Some AcceptCb) p0)"
  have a: "add_fd True 5 ev_read (Some AcceptCb) p0 = (True, p)" by (simp add: p_def add_fd_def p0_def Let_def)
  have 0: "serving (\<lambda>_. None) (\<lambda>_. []) example_env (p, server_start ?s ?bl)"
    by (rule serving.start [of p0 True ?s]) (use a in \<open>simp_all add: p0_def epoll_new_def assertr_def\<close>)
  let ?run = "run_callback (\<lambda>_. None) (\<lambda>_. []) example_env" and ?w = "Events [(EPOLLIN, 0, True)]"
  have "honest p ?w"
    by (simp add: honest_def reports_held_def p_def add_fd_def p0_def Let_def is_hup_def xlate_epoll_to_mask_def mask_defs)
  moreover have "\<exists>p' sv'. poll_dispatch ?run ?w (p, Running (server_start ?s ?bl)) = Inr (True, p', Running sv') \<and>
      pl_kernel p' 9 = Some (xlate_mask_to_epoll client_events, 1) \<and> pl_nodes p' 1 = Some (9, Some (ClientCb 0))"
    by (simp add: poll_dispatch_def dispatch_event_def Let_def run_callback_def p_def add_fd_def p0_def server_start_def accept_cb_def
        xlate_epoll_to_mask_def mask_defs emplace_client_def sock_accept_def setfd_addr_def)
  ultimately show ?thesis using serving.poll [OF 0] by blast
qed

section \<open>A platform\<close>

definition example_platform :: "nat platform" where
  "example_platform =
    \<lparr>pf_strings = example_strings, pf_crypto = example_crypto, pf_rand_poll = True, pf_show_uint = (\<lambda>_. ''14617''),
     pf_ntop = (\<lambda>_. None), pf_show_port = (\<lambda>_. []), pf_hostlookup = (\<lambda>_ _. Some [AF_INET [127, 0, 0, 1] 14617]),
     pf_try = (\<lambda>_ _. Bound 5), pf_listens = True, pf_epoll = True, pf_epoll_ctl = True, pf_compiler = ''g++'', pf_ptrsz = 8,
     pf_build_info = \<lparr>BUILD_HASH = [], BUILD_TAG = ''v1'', BUILD_BRANCH = [], BUILD_DATE = [], BUILD_TIME = []\<rparr>\<rparr>"

lemma example_crypto_fits: "crypto_fits example_crypto"
  using example_primes by (auto simp: crypto_fits_def example_crypto_def split: if_splits)

text \<open>One address that can be bound: the start succeeds.\<close>

lemma example_fds:
  assumes "complete (st_fold L) config"
  shows "\<exists>p s. init_fds B L ntop show_port (\<lambda>_ _. Some [a]) (\<lambda>_ _. Bound fd) True True True config = Some (Inr (True, Some p, s))"
proof -
  obtain addr port where cfg: "config_get_cstr B L ''lobby'' ''bindaddr'' config = Inr addr"
      "config_get_uint B L ''lobby'' ''port'' config = Inr port"
    using item_there_find [OF completeD(1) [OF assms], of B] item_there_find [OF completeD(3) [OF assms], of B] by (auto simp: getters)
  have b: "\<exists>s. sock_bind B ntop show_port (\<lambda>_ _. Some [a]) (\<lambda>_ _. Bound fd) addr q sock_new = Some (Inr (True, s))" for q
    by (simp add: sock_bind_def bind_loop.simps)
  obtain s where "sock_bind B ntop show_port (\<lambda>_ _. Some [a]) (\<lambda>_ _. Bound fd) addr (ucast port) sock_new = Some (Inr (True, s))"
    using b by blast
  then show ?thesis
    by (simp add: init_fds_def cfg sock_listen_def epoll_new_def add_fd_def Let_def)
qed

text \<open>Two turns of the loop: a client is accepted, then the poll is interrupted.\<close>

definition example_rounds :: "(arrivals \<times> wait) list" where
  "example_rounds =
    [((\<lambda>_. [], \<lambda>_. [], [Inr (9, AF_OTHER 1, [], [], True)]), Events [(EPOLLIN, 0, True)]),
     ((\<lambda>_. [], \<lambda>_. [], []), Interrupted)]"

section \<open>A connection from its accept to its replies\<close>

declare evp_update.simps [simp del]

text \<open>A daemon that has just started, and what it is after a connection on descriptor 9.\<close>

definition example_start :: server_poll where
  "example_start = \<lparr>pl_callbacks = (\<lambda>_. None)(5 := Some 0), pl_nodes = (\<lambda>_. None)(0 := Some (5, Some AcceptCb)),
     pl_kernel = (\<lambda>_. None)(5 := Some (xlate_mask_to_epoll ev_read, 0)), pl_next = 1\<rparr>"

definition example_watching :: server_poll where
  "example_watching = \<lparr>pl_callbacks = (\<lambda>_. None)(5 := Some 0, 9 := Some 1),
     pl_nodes = (\<lambda>_. None)(0 := Some (5, Some AcceptCb), 1 := Some (9, Some (ClientCb 0))),
     pl_kernel = (\<lambda>_. None)(5 := Some (xlate_mask_to_epoll ev_read, 0), 9 := Some (xlate_mask_to_epoll client_events, 1)), pl_next = 2\<rparr>"

definition example_listener :: sock where "example_listener = (example_sock [])\<lparr>so_fd := 5\<rparr>"

lemma example_start_serving: "serving ntop show_port E (example_start, server_start example_listener backlog)"
proof (rule serving.start)
  show "epoll_new True = Inr \<lparr>pl_callbacks = \<lambda>_. None, pl_nodes = \<lambda>_. None, pl_kernel = \<lambda>_. None, pl_next = 0\<rparr>"
    by (simp add: epoll_new_def assertr_def)
qed (simp add: add_fd_def Let_def example_start_def example_listener_def)

text \<open>A connection arrives, opens and sends requests: three rounds.\<close>

definition example_hello :: "byte list" where
  "example_hello = example_header @ [e_c2s_connect, 66] @ le_bytes kKeySize (bn_mod_exp 4 3 23)"

definition example_burst :: "request list \<Rightarrow> byte list" where
  "example_burst rs = fst (evp_update example_ks (EvpRc4 (session_key example_env 4 3) 0) (concat (map request_wire rs)))"

definition example_arrival :: "byte list \<Rightarrow> arrivals \<times> wait" where
  "example_arrival bs = ((\<lambda>_. [Rchunk bs], \<lambda>_. [], []), Events [(EPOLLIN, 1, True)])"

definition example_call :: "arrivals \<times> wait" where
  "example_call = ((\<lambda>_. [], \<lambda>_. [], [Inr (9, AF_OTHER 1, [], [], True)]), Events [(EPOLLIN, 0, True)])"

lemma example_mask [simp]: "xlate_epoll_to_mask EPOLLIN = ev_read" "\<not> is_hup EPOLLIN" "EPOLLIN AND EPOLLIN \<noteq> 0"
  "ev_read AND ev_hup = 0" "ev_read \<noteq> 0" "EPOLLIN \<noteq> 0"
  by (simp_all add: is_hup_def xlate_epoll_to_mask_def mask_defs)

abbreviation example_run where "example_run \<equiv> run_callback (\<lambda>_. None) (\<lambda>_. []) example_env"

definition example_new :: client where
  "example_new = client_new (accepted (\<lambda>_. None) (\<lambda>_. []) (9, AF_OTHER 1, [], [], True)) True"

definition example_served :: server where
  "example_served = (server_start example_listener [])\<lparr>sv_clients := [(0, example_new)], sv_next := 1\<rparr>"

lemma example_accepts:
  "poll_dispatch example_run (Events [(EPOLLIN, 0, True)]) (example_start, Running (traffic (fst example_call) (server_start example_listener []))) =
     Inr (True, example_watching, Running example_served)"
  by (simp add: example_served_def example_new_def poll_dispatch_def dispatch_event_def Let_def run_callback_def example_start_def server_start_def accept_cb_def
      emplace_client_def sock_accept_def setfd_addr_def traffic_def example_call_def accepted_def add_fd_def
      example_watching_def)

lemma example_turn:
  assumes "handle_dispatch example_env ev_read (arrive 0 a cl) = Some (Inr (Alive cl1))" "sv_clients sv = [(0, cl)]" "snd (snd a) = []"
  shows "poll_dispatch example_run (Events [(EPOLLIN, 1, True)]) (example_watching, Running (traffic a sv)) =
    Inr (True, example_watching, Running (sv\<lparr>sv_backlog := [], sv_clients := [(0, cl1)]\<rparr>))"
proof -
  have t: "traffic a sv = sv\<lparr>sv_backlog := [], sv_clients := [(0, arrive 0 a cl)]\<rparr>"
    using assms(2,3) by (cases a) (simp add: traffic_def arrive_def)
  show ?thesis
    by (simp add: t poll_dispatch_def dispatch_event_def example_watching_def Let_def run_callback_def assms(1) set_client_def)
qed


abbreviation example_loop where "example_loop \<equiv> dispatch_loop (\<lambda>_. None) (\<lambda>_. []) example_env"
abbreviation example_polls where "example_polls \<equiv> honest_polls (\<lambda>_. None) (\<lambda>_. []) example_env"

abbreviation example_talk :: "(arrivals \<times> wait) list" where
  "example_talk \<equiv> [example_arrival example_hello, example_arrival (example_burst [ReqFile 7 0, ReqAuth 8])]"

lemma example_pairs:
  "example_call = (fst example_call, Events [(EPOLLIN, 0, True)])"
  "example_arrival bs = (fst (example_arrival bs), Events [(EPOLLIN, 1, True)])"
  by (simp_all add: example_call_def example_arrival_def)

lemma example_honest: "honest example_start (Events [(EPOLLIN, 0, True)])" "honest example_watching (Events [(EPOLLIN, 1, True)])"
  by (simp_all add: honest_def reports_held_def example_start_def example_watching_def)

lemma example_served_serving: "serving (\<lambda>_. None) (\<lambda>_. []) example_env (example_watching, example_served)"
  by (rule serving.poll [OF serving.network [OF example_start_serving] example_honest(1) example_accepts])

lemma example_opens:
  "\<exists>cl1. handle_dispatch example_env ev_read (arrive 0 (fst (example_arrival example_hello)) example_new) = Some (Inr (Alive cl1)) \<and>
     ready cl1 \<and> cb_decrypt (cl_base cl1) = EvpRc4 (session_key example_env 4 3) 0"
proof -
  let ?a = "fst (example_arrival example_hello)"
  have hello: "so_in ((accepted (\<lambda>_. None) (\<lambda>_. []) (9, AF_OTHER 1, [], [], True))\<lparr>so_in := fst ?a 0, so_out := fst (snd ?a) 0\<rparr>) =
      [Rchunk (example_header @ [e_c2s_connect, 66] @ le_bytes kKeySize (bn_mod_exp 4 3 23))]"
    by (simp add: example_arrival_def example_hello_def)
  then show ?thesis
    using opening_succeeds [OF example_env_wf hello, where n = 0 and g = 4 and b = 3 and polled = True] small_modulus
    unfolding example_new_def arrive_new by (auto simp: dispatch_read)
qed

lemma example_hangs_up:
  "\<exists>cl. own_turns example_env 0 1 [example_arrival example_hello, (fst (example_arrival []), Events [(EPOLLRDHUP, 1, True)])] example_new =
     Some (Inr (Erased cl))"
proof -
  obtain cl1 where "handle_dispatch example_env ev_read (arrive 0 (fst (example_arrival example_hello)) example_new) = Some (Inr (Alive cl1))"
    using example_opens by blast
  moreover have "xlate_epoll_to_mask EPOLLRDHUP = ev_hup" "ev_hup AND ev_hup \<noteq> 0"
    by (simp_all add: xlate_epoll_to_mask_def mask_defs)
  moreover have "handle_dispatch example_env ev_hup cl = Some (Inr (Erased (clear_flag e_polling cl)))" for cl
    using calculation(3) by (simp add: handle_dispatch_def)
  ultimately show ?thesis by (simp add: example_arrival_def event_of_def)
qed

lemma example_talk_runs:
  "\<exists>sv'. example_loop example_talk (example_watching, Running example_served) = Inr (example_watching, Running sv') \<and>
     example_polls example_talk (example_watching, Running example_served)"
proof -
  let ?rs = "[ReqFile 7 0, ReqAuth 8]" and ?key = "session_key example_env 4 3"
  let ?r1 = "example_arrival example_hello" and ?r2 = "example_arrival (example_burst ?rs)"
  obtain cl1 where d1: "handle_dispatch example_env ev_read (arrive 0 (fst ?r1) example_new) = Some (Inr (Alive cl1))"
      and c1: "ready cl1" "cb_decrypt (cl_base cl1) = EvpRc4 ?key 0"
    using example_opens by blast
  have t: "same_talk cl1 (arrive 0 (fst ?r2) cl1)" by (rule arrive_talk)
  obtain cl2 where d2: "handle_dispatch example_env ev_read (arrive 0 (fst ?r2) cl1) = Some (Inr (Alive cl2))"
    using turn_answers [OF example_env_wf, of "arrive 0 (fst ?r2) cl1" EPOLLIN ?rs] t c1
    by (auto simp: same_talk_def arrive_def example_arrival_def example_burst_def simp del: request_wire.simps)
  define sv2 where "sv2 = example_served\<lparr>sv_backlog := [], sv_clients := [(0, cl1)]\<rparr>"
  define sv3 where "sv3 = sv2\<lparr>sv_backlog := [], sv_clients := [(0, cl2)]\<rparr>"
  have t1: "poll_dispatch example_run (Events [(EPOLLIN, 1, True)]) (example_watching, Running (traffic (fst ?r1) example_served)) =
      Inr (True, example_watching, Running sv2)"
    unfolding sv2_def by (rule example_turn [OF d1]) (simp_all add: example_served_def example_arrival_def)
  have t2: "poll_dispatch example_run (Events [(EPOLLIN, 1, True)]) (example_watching, Running (traffic (fst ?r2) sv2)) =
      Inr (True, example_watching, Running sv3)"
    unfolding sv3_def by (rule example_turn [OF d2]) (simp_all add: sv2_def example_arrival_def)
  have "example_loop [?r1, ?r2] (example_watching, Running example_served) = Inr (example_watching, Running sv3)"
    by (subst (1 2) example_pairs(2)) (simp only: dispatch_loop.simps snd_conv fst_conv world.case t1 t2 bindE_Inr prod.case)
  moreover have "example_polls [?r1, ?r2] (example_watching, Running example_served)"
    by (subst (1 2) example_pairs(2))
      (simp only: honest_polls.simps snd_conv fst_conv world.case t1 t2 sum.case prod.case example_honest simp_thms)
  ultimately show ?thesis by blast
qed

lemma example_talk_delivers:
  "delivers 0 1 example_talk (example_hello # bursts example_ks (EvpRc4 (session_key example_env 4 3) 0) [[ReqFile 7 0, ReqAuth 8]])"
  by (simp add: example_arrival_def event_of_def example_burst_def Let_def del: request_wire.simps)

end
