(* ===== verification/Theme_Config_Spec.thy ===== *)
theory Theme_Config_Spec
  imports Theme_Config_Facts
begin

text \<open>
  What reading a configuration file means, without the state of the reader: a file is a list of
  assignments, and of all assignments to an item the last one counts. \<open>config_read\<close> refines this.
\<close>

section \<open>Lines and assignments\<close>

datatype config_line = Skip | Header string | Assign string string | Bad

definition classify :: "'f string_lib \<Rightarrow> string \<Rightarrow> config_line" where
  "classify L buf =
     (let line = st_trim L buf in
      if line = [] \<or> starts_with line '';'' \<or> starts_with line ''#'' \<or> starts_with line ''//'' then Skip
      else case section_test (c_str line) of
          Some name \<Rightarrow> Header name
        | None \<Rightarrow>
            (case value_test (c_str line) of
               Some (key, v) \<Rightarrow> Assign key v
             | None \<Rightarrow> (case empty_test (c_str line) of Some key \<Rightarrow> Assign key [] | None \<Rightarrow> Bad)))"

text \<open>
  What a file says, whatever is in the configuration: the values it assigns, in its order, each
  under the header it stands below.
\<close>

fun assignments :: "'f string_lib \<Rightarrow> string option \<Rightarrow> string list \<Rightarrow> (string \<times> string \<times> string) list" where
  "assignments L cur [] = []"
| "assignments L cur (buf # bufs) =
     (case classify L buf of
        Header name \<Rightarrow> assignments L (Some name) bufs
      | Assign key v \<Rightarrow> (case cur of Some name \<Rightarrow> [(name, key, v)] | None \<Rightarrow> []) @ assignments L cur bufs
      | _ \<Rightarrow> assignments L cur bufs)"

definition concerns :: "(string \<Rightarrow> string) \<Rightarrow> string \<Rightarrow> string \<Rightarrow> string \<times> string \<times> string \<Rightarrow> bool" where
  "concerns f section key = (\<lambda>(s, k, v). f s = f section \<and> f k = f key)"

text \<open>An empty value of an item that is no string is zero.\<close>

definition given_value :: "value_type \<Rightarrow> string \<Rightarrow> string" where
  "given_value t v = (if v \<noteq> [] \<or> t = vt_string then v else ''0'')"

text \<open>The specification of reading: of all assignments to an item the last one counts.\<close>

definition last_assigned ::
    "(string \<Rightarrow> string) \<Rightarrow> string \<Rightarrow> string \<Rightarrow> value_type \<Rightarrow> (string \<times> string \<times> string) list \<Rightarrow> string \<Rightarrow> string" where
  "last_assigned f section key t as v0 =
     (let mine = filter (concerns f section key) as
      in if mine = [] then v0 else given_value t (snd (snd (last mine))))"

section \<open>Reading is the last assignment\<close>

lemma last_assigned_Nil [simp]: "last_assigned f s k t [] v = v"
  by (simp add: last_assigned_def)

lemma last_assigned_Cons:
  "last_assigned f s k t (a # as) v0 =
   last_assigned f s k t as (if concerns f s k a then given_value t (snd (snd a)) else v0)"
  by (simp add: last_assigned_def Let_def)

lemma read_line_classify:
  "read_line L n buf r =
   (case classify L buf of
      Skip \<Rightarrow> r
    | Header name \<Rightarrow>
        (case umap_find (st_fold L) name (rr_config r) of
           Some (stored, _) \<Rightarrow> r\<lparr>rr_section := Some stored\<rparr>
         | None \<Rightarrow> r\<lparr>rr_section := None, rr_log := rr_log r @ [InvalidSection n name]\<rparr>)
    | Assign key v \<Rightarrow> set_line L n key v r
    | Bad \<Rightarrow> r\<lparr>rr_log := rr_log r @ [BadLine n]\<rparr>)"
  by (auto simp: read_line_def classify_def Let_def split: option.splits prod.splits)

lemma umap_find_None: "umap_find f k m = None \<longleftrightarrow> f k \<notin> set (map f (map fst m))"
  by (induction f k m rule: umap_find.induct) (simp_all add: eq_commute)

lemma same_items_names: "same_items m m' \<Longrightarrow> map fst m = map fst m'"
  unfolding same_items_def by (induction rule: list_all2_induct) (simp_all add: same_section_def)

lemma same_items_find_None: "same_items m m' \<Longrightarrow> umap_find f k m = None \<Longrightarrow> umap_find f k m' = None"
  using same_items_names [of m m'] unfolding umap_find_None by metis

lemma umap_find_stored: "umap_find f k m = Some (stored, v) \<Longrightarrow> f stored = f k"
  by (induction f k m rule: umap_find.induct) (auto split: if_splits)

text \<open>The reader's section is the header above the line, if the configuration knows it.\<close>

definition at_header :: "(string \<Rightarrow> string) \<Rightarrow> string option \<Rightarrow> reader \<Rightarrow> bool" where
  "at_header f cur r \<longleftrightarrow>
     (case (cur, rr_section r) of
        (None, s) \<Rightarrow> s = None
      | (Some name, Some stored) \<Rightarrow> f stored = f name
      | (Some name, None) \<Rightarrow> umap_find f name (rr_config r) = None)"

fun header_after :: "'f string_lib \<Rightarrow> string option \<Rightarrow> string \<Rightarrow> string option" where
  "header_after L cur buf = (case classify L buf of Header name \<Rightarrow> Some name | _ \<Rightarrow> cur)"

lemma set_line_section: "rr_section (set_line L n key v r) = rr_section r"
  by (auto simp: set_line_def split: option.splits)

lemma at_header_step:
  assumes "at_header (st_fold L) cur r"
  shows "at_header (st_fold L) (header_after L cur buf) (read_line L n buf r)"
proof -
  have same: "umap_find (st_fold L) name (rr_config r) = None \<Longrightarrow> umap_find (st_fold L) name (rr_config (read_line L n buf r)) = None" for name
    by (rule same_items_find_None [OF read_line_same])
  show ?thesis
    using assms same
    by (auto simp: at_header_def read_line_classify set_line_section dest: umap_find_stored split: config_line.splits option.splits)
qed

lemma lookup_known: "lookup f s k m = Some e \<Longrightarrow> f s' = f s \<Longrightarrow> umap_find f s' m \<noteq> None"
  using umap_find_cong [of f s' s m] by (auto simp: lookup_def umap.value_of_def bind_eq_Some_conv)

lemma set_line_lookup:
  assumes "at_header (st_fold L) cur r" "lookup (st_fold L) s k (rr_config r) = Some e"
  shows "lookup (st_fold L) s k (rr_config (set_line L n key v r)) =
    Some (e\<lparr>en_value := last_assigned (st_fold L) s k (ci_type (en_def e))
      (case cur of Some name \<Rightarrow> [(name, key, v)] | None \<Rightarrow> []) (en_value e)\<rparr>)"
proof (cases cur)
  case None
  then show ?thesis using assms by (simp add: at_header_def set_line_def split: option.splits)
next
  case (Some name)
  let ?f = "st_fold L" and ?hit = "concerns (st_fold L) s k (name, key, v)"
  show ?thesis
  proof (cases "rr_section r")
    case None
    then have "umap_find ?f name (rr_config r) = None" using assms(1) Some by (simp add: at_header_def)
    then have "\<not> ?hit" using lookup_known [OF assms(2), of name] by (auto simp: concerns_def)
    then show ?thesis using assms(2) Some None by (simp add: set_line_def last_assigned_Cons)
  next
    case stored: (Some stored)
    then have fs: "?f stored = ?f name" using assms(1) Some by (simp add: at_header_def)
    show ?thesis
    proof (cases "lookup ?f stored key (rr_config r)")
      case None
      have "\<not> ?hit" using None assms(2) lookup_cong [of ?f s stored k key "rr_config r"] fs by (auto simp: concerns_def)
      moreover have "rr_config (set_line L n key v r) = rr_config r"
        using None stored by (auto simp: set_line_def lookup_def umap.value_of_def split: option.splits)
      ultimately show ?thesis using assms(2) Some by (simp add: last_assigned_Cons)
    next
      case there: (Some e')
      then have "rr_config (set_line L n key v r) = store_value L stored key (given_value (ci_type (en_def e')) v) (rr_config r)"
        using stored by (auto simp: set_line_def lookup_def umap.value_of_def given_value_def bind_eq_Some_conv split: option.splits)
      then show ?thesis
        using assms(2) there Some fs lookup_cong [of ?f s stored k key "rr_config r"]
        by (auto simp: lookup_store_value last_assigned_Cons concerns_def)
    qed
  qed
qed

lemma read_lines_last:
  "at_header (st_fold L) cur r \<Longrightarrow> lookup (st_fold L) s k (rr_config r) = Some e \<Longrightarrow>
   lookup (st_fold L) s k (rr_config (read_lines L n bufs r)) =
     Some (e\<lparr>en_value := last_assigned (st_fold L) s k (ci_type (en_def e)) (assignments L cur bufs) (en_value e)\<rparr>)"
proof (induction bufs arbitrary: cur r n e)
  case (Cons buf bufs)
  let ?r = "read_line L n buf r"
  note at = at_header_step [OF Cons.prems(1), of buf n]
  show ?case
  proof (cases "classify L buf")
    case (Assign key v)
    have r: "?r = set_line L n key v r" by (simp add: read_line_classify Assign)
    show ?thesis
      using Cons.IH [OF at, of "e\<lparr>en_value := last_assigned (st_fold L) s k (ci_type (en_def e))
          (case cur of Some name \<Rightarrow> [(name, key, v)] | None \<Rightarrow> []) (en_value e)\<rparr>" "Suc n"] set_line_lookup [OF Cons.prems, of n key v]
      by (cases cur) (simp_all add: r Assign last_assigned_Cons)
  next
    case (Header name)
    then have "rr_config ?r = rr_config r" by (simp add: read_line_classify split: option.splits prod.splits)
    then show ?thesis using Cons.IH [OF at, of e "Suc n"] Cons.prems(2) by (simp add: Header)
  qed (use Cons.IH [OF at, of e "Suc n"] Cons.prems(2) in \<open>simp_all add: read_line_classify\<close>)
qed simp

lemma config_read_last:
  assumes "config_read L (Some bufs) m = (ok, m', lg)" "lookup (st_fold L) s k m = Some e"
  shows "lookup (st_fold L) s k m' =
    Some (e\<lparr>en_value := last_assigned (st_fold L) s k (ci_type (en_def e)) (assignments L None bufs) (en_value e)\<rparr>)"
  using read_lines_last [of L None "\<lparr>rr_config = m, rr_section = None, rr_log = []\<rparr>" s k e 0 bufs] assms
  by (auto simp: config_read_def Let_def at_header_def)

end
