(* ===== verification/Theme_Crypto_Ctx.thy ===== *)
theory Theme_Crypto_Ctx
  imports Theme_Server
begin

text \<open>
  \<open>crypto_ctx\<close> and the calls the program makes on OpenSSL's contexts and numbers (\<open>io/uru_crypt.h\<close>,
  \<open>uru_crypt.cpp\<close>, the destructors of \<open>daemon/gatekeeper.cpp\<close> and \<open>daemon/server.h\<close>): each operation of
  the key exchange once more, now with the calls it makes in their order. The results are those
  of the plain operations; the calls keep the rules OpenSSL documents.
\<close>

section \<open>Calls on contexts and numbers\<close>

datatype bn_call = BN_CTX_new | BN_CTX_start | BN_CTX_get | BN_CTX_end | BN_CTX_free | BN_new | BN_free

text \<open>
  An operation with the calls it made before it returned or failed; a failed assertion ends the
  process and runs no destructor.
\<close>

type_synonym 'a traced = "'a res \<times> bn_call list"

definition making :: "bn_call list \<Rightarrow> 'a \<Rightarrow> 'a traced" where
  "making cs x = (Inr x, cs)"

definition silent :: "'a res \<Rightarrow> 'a traced" where
  "silent r = (r, [])"

definition and_then :: "'a traced \<Rightarrow> ('a \<Rightarrow> 'b traced) \<Rightarrow> 'b traced" where
  "and_then t f = (case fst t of Inl e \<Rightarrow> (Inl e, snd t) | Inr x \<Rightarrow> (fst (f x), snd t @ snd (f x)))"

section \<open>The objects\<close>

text \<open>A \<open>crypto_ctx\<close> is whether it still has its pointer: it has none once it was moved from.\<close>

definition crypto_ctx_new :: "bool traced" where
  "crypto_ctx_new = making [BN_CTX_start] True"

definition crypto_ctx_move :: "bool \<Rightarrow> bool \<times> bool" where
  "crypto_ctx_move m_ctx = (m_ctx, False)"

definition crypto_ctx_destroy :: "bool \<Rightarrow> unit traced" where
  "crypto_ctx_destroy m_ctx = (if m_ctx then making [BN_CTX_end] () else making [] ())"

definition crypto_ctx_bignum :: "unit traced" where
  "crypto_ctx_bignum = making [BN_CTX_get] ()"

text \<open>
  \<open>begin_calculation\<close> returns a fresh context; where the compiler does not elide it, the returned
  object is moved, and the one moved from destroyed.
\<close>

definition begin_calculation :: "bool \<Rightarrow> bool traced" where
  "begin_calculation moves =
     and_then crypto_ctx_new (\<lambda>ctx.
     if moves then
       case crypto_ctx_move ctx of (ctx', old) \<Rightarrow>
       and_then (crypto_ctx_destroy old) (\<lambda>_. making [] ctx')
     else making [] ctx)"

definition crypto_new_traced :: "bool \<Rightarrow> bool \<Rightarrow> bool traced" where
  "crypto_new_traced init rand_poll_ok = and_then (making [BN_CTX_new] ()) (\<lambda>_. silent (crypto_new init rand_poll_ok))"

definition crypto_destroy :: "unit traced" where
  "crypto_destroy = making [BN_CTX_free] ()"

section \<open>The operations\<close>

text \<open>The four numbers are drawn before anything is computed; the context goes at the end of its block.\<close>

definition generate_keys_traced ::
    "bool \<Rightarrow> build \<Rightarrow> (byte list \<Rightarrow> string) \<Rightarrow> nat option \<Rightarrow> nat option \<Rightarrow> byte list \<times> byte list \<times> byte list \<Rightarrow> u32
     \<Rightarrow> (string \<times> string \<times> string) traced" where
  "generate_keys_traced moves B base64_encode prime_k prime_n junk g_value =
     and_then (begin_calculation moves) (\<lambda>ctx.
     and_then crypto_ctx_bignum (\<lambda>_.
     and_then crypto_ctx_bignum (\<lambda>_.
     and_then crypto_ctx_bignum (\<lambda>_.
     and_then crypto_ctx_bignum (\<lambda>_.
     and_then (silent (prime_result B prime_k)) (\<lambda>k.
     and_then (silent (prime_result B prime_n)) (\<lambda>n.
     let x = bn_mod_exp (unat g_value) k n in
     and_then (silent (mem_write (fst junk) 0 (bn_bn2bin k))) (\<lambda>k_key.
     and_then (silent (mem_write (fst (snd junk)) 0 (bn_bn2bin n))) (\<lambda>n_key.
     and_then (silent (mem_write (snd (snd junk)) 0 (bn_bn2bin x))) (\<lambda>x_key.
     and_then (crypto_ctx_destroy ctx) (\<lambda>_.
     making [] (base64_encode k_key, base64_encode n_key, base64_encode x_key))))))))))))"

text \<open>\<open>load_key\<close> makes its number after the assertion, and keeps it: the caller owns it.\<close>

definition load_key_traced ::
    "build \<Rightarrow> (string \<Rightarrow> nat \<Rightarrow> byte list option) \<Rightarrow> byte list \<Rightarrow> string \<Rightarrow> nat traced" where
  "load_key_traced B base64_decode junk key =
     and_then (silent (load_key B base64_decode junk key)) (\<lambda>n. making [BN_new] n)"

definition load_keys_traced ::
    "bool \<Rightarrow> build \<Rightarrow> 'f string_lib \<Rightarrow> crypto_lib \<Rightarrow> configmap \<Rightarrow> string \<Rightarrow> (bool \<times> nat \<times> nat) traced" where
  "load_keys_traced moves B L C config section =
     and_then (silent (config_get_string B L section ''crypt_k'' config)) (\<lambda>kstr.
     and_then (silent (config_get_string B L section ''crypt_n'' config)) (\<lambda>nstr.
     and_then (if kstr = [] \<or> nstr = [] then
                 and_then (silent (config_get_uint B L section ''crypt_g'' config)) (\<lambda>g.
                 and_then (generate_keys_traced moves B (cr_encode C) (fst (cr_primes C)) (snd (cr_primes C)) (cr_key_junk C) g)
                   (\<lambda>(ks, ns, xs). making [] (False, ks, ns)))
               else making [] (True, kstr, nstr)) (\<lambda>(result, ks, ns).
     and_then (load_key_traced B (cr_decode C) (cr_load_junk C) ks) (\<lambda>k.
     and_then (load_key_traced B (cr_decode C) (cr_load_junk C) ns) (\<lambda>n.
     making [] (result, k, n))))))"

definition make_server_key_traced ::
    "bool \<Rightarrow> nat \<Rightarrow> nat \<Rightarrow> nat \<Rightarrow> byte list \<Rightarrow> nat \<Rightarrow> byte list \<Rightarrow> byte list \<Rightarrow> (byte list \<times> byte list) option traced" where
  "make_server_key_traced moves k n cli_seedsz y_data keysz rand junk =
     (if cli_seedsz < keysz then making [] None
      else
        and_then (begin_calculation moves) (\<lambda>ctx.
        and_then crypto_ctx_bignum (\<lambda>_.
        and_then crypto_ctx_bignum (\<lambda>_.
        and_then (silent (mem_read y_data 0 cli_seedsz)) (\<lambda>ys.
        let seed = bn_mod_exp (bn_lebin2bn ys) k n;
            cli_seed = bn_bn2lebinpad seed kKeySize junk;
            srv_seed = take keysz rand
        in and_then (crypto_ctx_destroy ctx) (\<lambda>_.
           and_then (silent (mem_read cli_seed 0 keysz)) (\<lambda>cs.
           making [] (Some (srv_seed, map2 (XOR) cs srv_seed)))))))))"

text \<open>The gatekeeper daemon owns the two numbers \<open>load_keys\<close> made, and frees both.\<close>

definition gatekeeper_daemon_new_traced ::
    "bool \<Rightarrow> build \<Rightarrow> 'f string_lib \<Rightarrow> crypto_lib \<Rightarrow> configmap \<Rightarrow> gatekeeper_daemon traced" where
  "gatekeeper_daemon_new_traced moves B L C config =
     and_then (silent (config_get_u16string B L ''gate'' ''authaddr'' config)) (\<lambda>auth.
     and_then (silent (config_get_u16string B L ''gate'' ''fileaddr'' config)) (\<lambda>file.
     and_then (load_keys_traced moves B L C config ''gate'') (\<lambda>(result, k, n).
     making [] \<lparr>gd_authsrv = auth, gd_filesrv = file, gd_cryptK = k, gd_cryptN = n\<rparr>)))"

definition gatekeeper_daemon_destroy :: "unit traced" where
  "gatekeeper_daemon_destroy = making [BN_free, BN_free] ()"

section \<open>The traced operations are the operations\<close>

lemma fst_traced [simp]:
  "fst (making cs x) = Inr x" "fst (silent r) = r"
  "fst (and_then t f) = bindE (fst t) (\<lambda>x. fst (f x))"
  by (simp_all add: making_def silent_def and_then_def split: sum.splits)

lemma bindE_Inr_right: "bindE r Inr = r"
  by (simp add: bindE_def split: sum.split)

lemma fst_calculation [simp]:
  "fst (begin_calculation moves) = Inr True" "fst (crypto_ctx_destroy ctx) = Inr ()" "fst crypto_ctx_bignum = Inr ()"
  by (simp_all add: begin_calculation_def crypto_ctx_new_def crypto_ctx_move_def crypto_ctx_destroy_def crypto_ctx_bignum_def)

lemma traced_key_results:
  "fst (generate_keys_traced moves B b64 pk pn junk g) = generate_keys B b64 pk pn junk g"
  "fst (load_key_traced B dec ljunk key) = load_key B dec ljunk key"
  "fst (make_server_key_traced moves k n csz y ksz rand sjunk) = make_server_key k n csz y ksz rand sjunk"
  by (simp_all add: generate_keys_traced_def generate_keys_def load_key_traced_def make_server_key_traced_def make_server_key_def
      Let_def bindE_Inr_right)

lemma load_keys_traced_result: "fst (load_keys_traced moves B L C config section) = load_keys B L C config section"
  by (auto simp: load_keys_traced_def load_keys_def crypto_generate_def traced_key_results if_distrib [of fst] case_prod_beta
      intro!: bindE_cong)

lemma gatekeeper_daemon_new_traced_result:
  "fst (gatekeeper_daemon_new_traced moves B L C config) = gatekeeper_daemon_new B L C config"
  by (auto simp: gatekeeper_daemon_new_traced_def gatekeeper_daemon_new_def load_keys_traced_result case_prod_beta
      intro!: bindE_cong)

section \<open>The rules OpenSSL documents\<close>

text \<open>
  Numbers are drawn from a context only between \<open>BN_CTX_start\<close> and its \<open>BN_CTX_end\<close>; a context is
  freed when no frame is open; what \<open>BN_new\<close> made is freed at most once. The state is the number of
  open frames of the context, if there is one, and the number of live numbers.
\<close>

type_synonym bn_state = "nat option \<times> nat"

fun bn_step :: "bn_state \<Rightarrow> bn_call \<Rightarrow> bn_state option" where
  "bn_step (None, n) BN_CTX_new = Some (Some 0, n)"
| "bn_step (Some d, n) BN_CTX_start = Some (Some (Suc d), n)"
| "bn_step (Some (Suc d), n) BN_CTX_get = Some (Some (Suc d), n)"
| "bn_step (Some (Suc d), n) BN_CTX_end = Some (Some d, n)"
| "bn_step (Some 0, n) BN_CTX_free = Some (None, n)"
| "bn_step (c, n) BN_new = Some (c, Suc n)"
| "bn_step (c, Suc n) BN_free = Some (c, n)"
| "bn_step _ _ = None"

fun bn_run :: "bn_state \<Rightarrow> bn_call list \<Rightarrow> bn_state option" where
  "bn_run s [] = Some s"
| "bn_run s (c # cs) = Option.bind (bn_step s c) (\<lambda>s'. bn_run s' cs)"

lemma bn_run_append: "bn_run s (as @ bs) = Option.bind (bn_run s as) (\<lambda>s'. bn_run s' bs)"
  by (induction as arbitrary: s) (simp_all add: Option.bind_assoc)

text \<open>Every call of \<open>t\<close> is allowed from \<open>s\<close>, and where \<open>t\<close> returns, it leaves \<open>s'\<close>.\<close>

definition takes :: "bn_state \<Rightarrow> 'a traced \<Rightarrow> bn_state \<Rightarrow> bool" where
  "takes s t s' \<longleftrightarrow> (case fst t of Inl e \<Rightarrow> bn_run s (snd t) \<noteq> None | Inr x \<Rightarrow> bn_run s (snd t) = Some s')"

lemma takes_making [simp]: "takes s (making cs x) s' \<longleftrightarrow> bn_run s cs = Some s'"
  by (simp add: takes_def making_def)

lemma takes_silent: "takes s (silent r) s"
  by (simp add: takes_def silent_def split: sum.split)

lemma takes_and_then:
  assumes "takes s t s'" "\<And>x. fst t = Inr x \<Longrightarrow> takes s' (f x) s''"
  shows "takes s (and_then t f) s''"
  using assms by (auto simp: takes_def and_then_def bn_run_append split: sum.splits)

lemma takes_if: "(c \<Longrightarrow> takes s t s') \<Longrightarrow> (\<not> c \<Longrightarrow> takes s u s') \<Longrightarrow> takes s (if c then t else u) s'"
  by simp

lemma takes_begin: "takes (Some d, n) (begin_calculation moves) (Some (Suc d), n)"
  by (simp add: takes_def begin_calculation_def crypto_ctx_new_def crypto_ctx_move_def crypto_ctx_destroy_def making_def and_then_def)

lemma takes_bignum: "takes (Some (Suc d), n) crypto_ctx_bignum (Some (Suc d), n)"
  by (simp add: crypto_ctx_bignum_def)

lemma takes_destroy: "ctx \<Longrightarrow> takes (Some (Suc d), n) (crypto_ctx_destroy ctx) (Some d, n)"
  by (simp add: crypto_ctx_destroy_def)

lemmas takes_rules = takes_and_then takes_silent takes_begin takes_bignum takes_destroy takes_if

lemma generate_keys_takes: "takes (Some d, m) (generate_keys_traced moves B b64 pk pn junk g) (Some d, m)"
  unfolding generate_keys_traced_def Let_def by (rule takes_rules | simp)+

lemma load_key_takes: "takes (c, m) (load_key_traced B dec junk key) (c, Suc m)"
  unfolding load_key_traced_def by (rule takes_rules | simp)+

lemma make_server_key_takes: "takes (Some d, m) (make_server_key_traced moves k n csz y ksz rand junk) (Some d, m)"
  unfolding make_server_key_traced_def Let_def by (rule takes_rules | simp)+

lemma load_keys_takes: "takes (Some d, m) (load_keys_traced moves B L C config section) (Some d, Suc (Suc m))"
  unfolding load_keys_traced_def case_prod_beta by (rule takes_rules generate_keys_takes load_key_takes | simp)+

lemma gatekeeper_daemon_new_takes: "takes (Some d, m) (gatekeeper_daemon_new_traced moves B L C config) (Some d, Suc (Suc m))"
  unfolding gatekeeper_daemon_new_traced_def case_prod_beta by (rule takes_rules load_keys_takes | simp)+

section \<open>The life of a server\<close>

text \<open>The members go in reverse order: the gatekeeper before the crypto object.\<close>

definition server_destroy :: "unit traced" where
  "server_destroy = and_then gatekeeper_daemon_destroy (\<lambda>_. crypto_destroy)"

text \<open>The key agreements of the clients, one after the other, with the gatekeeper's two numbers.\<close>

fun agreements ::
    "bool \<Rightarrow> gatekeeper_daemon \<Rightarrow> nat \<Rightarrow> (nat \<times> byte list \<times> byte list \<times> byte list) list \<Rightarrow> unit traced" where
  "agreements moves gd keysz [] = making [] ()"
| "agreements moves gd keysz ((cli_seedsz, y_data, rand, junk) # asks) =
     and_then (make_server_key_traced moves (gd_cryptK gd) (gd_cryptN gd) cli_seedsz y_data keysz rand junk)
       (\<lambda>_. agreements moves gd keysz asks)"

definition server_life ::
    "bool \<Rightarrow> build \<Rightarrow> 'f string_lib \<Rightarrow> crypto_lib \<Rightarrow> configmap \<Rightarrow> bool \<Rightarrow> bool \<Rightarrow> nat
     \<Rightarrow> (nat \<times> byte list \<times> byte list \<times> byte list) list \<Rightarrow> unit traced" where
  "server_life moves B L C config init rand_poll_ok keysz asks =
     and_then (crypto_new_traced init rand_poll_ok) (\<lambda>_.
     and_then (gatekeeper_daemon_new_traced moves B L C config) (\<lambda>gd.
     and_then (agreements moves gd keysz asks) (\<lambda>_. server_destroy)))"

lemma crypto_new_takes: "takes (None, m) (crypto_new_traced init rand_poll_ok) (Some 0, m)"
  unfolding crypto_new_traced_def by (rule takes_rules | simp)+

lemma server_destroy_takes: "takes (Some 0, Suc (Suc m)) server_destroy (None, m)"
  by (rule takes_and_then [of _ _ "(Some 0, m)"] | simp add: server_destroy_def gatekeeper_daemon_destroy_def crypto_destroy_def)+

lemma agreements_take: "takes (Some d, m) (agreements moves gd keysz asks) (Some d, m)"
  by (induction moves gd keysz asks rule: agreements.induct) (auto intro: takes_and_then make_server_key_takes)

lemma server_life_takes: "takes (None, m) (server_life moves B L C config init rand_poll_ok keysz asks) (None, m)"
  unfolding server_life_def
  by (rule takes_and_then crypto_new_takes gatekeeper_daemon_new_takes agreements_take server_destroy_takes)+

end
